(* ===== verification/Mir_Prelude.thy ===== *)
theory Mir_Prelude
  imports Main "HOL-Library.Word" "HOL-Library.Multiset"
begin

text \<open>
  Shared vocabulary of the development: machine integer types, the outcomes of a C++ call
  (normal return, exception, waiting on a condition variable, undefined behaviour), the
  combinators that compose calls over a state, the rules that carry invariants through them,
  and a few facts about lists.
\<close>

section \<open>Machine integers\<close>

type_synonym u8 = "8 word"
type_synonym u32 = "32 word"
type_synonym u64 = "64 word"

text \<open>
  A C++ \<^verbatim>\<open>int\<close> that is compared with signed order and advanced with the wrap-around of
  \<^verbatim>\<open>std::atomic<int>::fetch_add\<close> is an \<^typ>\<open>int\<close> kept in range by \<open>s32\<close>.
\<close>

definition s32 :: "int \<Rightarrow> int" where
  "s32 x = (x + 2147483648) mod 4294967296 - 2147483648"

lemma s32_range: "- 2147483648 \<le> s32 x \<and> s32 x < 2147483648"
  unfolding s32_def by (simp add: pos_mod_bound)

lemma s32_id: "- 2147483648 \<le> x \<Longrightarrow> x < 2147483648 \<Longrightarrow> s32 x = x"
  unfolding s32_def by simp

lemma s32_idem [simp]: "s32 (s32 x) = s32 x"
  using s32_range [of x] by (simp add: s32_id)

section \<open>Outcomes of a call\<close>

text \<open>The exceptions of the code, with the message; \<open>errno_error\<close> carries the
  \<^verbatim>\<open>boost::errinfo_errno\<close> attached to a \<^verbatim>\<open>std::runtime_error\<close>.\<close>

datatype exn =
    logic_error string
  | runtime_error string
  | errno_error string int

text \<open>
  \<open>Blocks\<close> is a call that sleeps on a condition variable whose predicate is false;
  \<open>Undefined\<close> is undefined behaviour of C++ (reading an empty container, a null
  dereference), named by the operation.
\<close>

datatype 'a res =
    Returns 'a
  | Throws exn
  | Blocks
  | Undefined string

type_synonym ('s, 'a) proc = "'s \<Rightarrow> 'a res \<times> 's"

definition ret :: "'a \<Rightarrow> ('s, 'a) proc" where
  "ret a = (\<lambda>s. (Returns a, s))"

definition throw :: "exn \<Rightarrow> ('s, 'a) proc" where
  "throw e = (\<lambda>s. (Throws e, s))"

definition block :: "('s, 'a) proc" where
  "block = (\<lambda>s. (Blocks, s))"

definition undef :: "string \<Rightarrow> ('s, 'a) proc" where
  "undef w = (\<lambda>s. (Undefined w, s))"

definition gets :: "('s \<Rightarrow> 'a) \<Rightarrow> ('s, 'a) proc" where
  "gets f = (\<lambda>s. (Returns (f s), s))"

definition modify :: "('s \<Rightarrow> 's) \<Rightarrow> ('s, unit) proc" where
  "modify f = (\<lambda>s. (Returns (), f s))"

text \<open>\<open>sbind m f\<close>: run \<open>m\<close>; on a normal return continue with \<open>f\<close>, else stop.\<close>

definition sbind :: "('s, 'a) proc \<Rightarrow> ('a \<Rightarrow> ('s, 'b) proc) \<Rightarrow> ('s, 'b) proc" where
  "sbind m f = (\<lambda>s. case m s of
       (Returns a, t) \<Rightarrow> f a t
     | (Throws e, t) \<Rightarrow> (Throws e, t)
     | (Blocks, t) \<Rightarrow> (Blocks, t)
     | (Undefined w, t) \<Rightarrow> (Undefined w, t))"

definition seq :: "('s, 'a) proc \<Rightarrow> ('s, 'b) proc \<Rightarrow> ('s, 'b) proc" where
  "seq m n = sbind m (\<lambda>_. n)"

text \<open>\<open>try_catch m h\<close>: the state changes made before the exception stay.\<close>

definition try_catch :: "('s, 'a) proc \<Rightarrow> (exn \<Rightarrow> ('s, 'a) proc) \<Rightarrow> ('s, 'a) proc" where
  "try_catch m h = (\<lambda>s. case m s of
       (Returns a, t) \<Rightarrow> (Returns a, t)
     | (Throws e, t) \<Rightarrow> h e t
     | (Blocks, t) \<Rightarrow> (Blocks, t)
     | (Undefined w, t) \<Rightarrow> (Undefined w, t))"

definition run_if :: "bool \<Rightarrow> ('s, unit) proc \<Rightarrow> ('s, unit) proc" where
  "run_if b m = (if b then m else ret ())"

text \<open>A range-based \<^verbatim>\<open>for\<close> loop; an abnormal outcome of the body leaves the loop.\<close>

fun for_each :: "('a \<Rightarrow> ('s, unit) proc) \<Rightarrow> 'a list \<Rightarrow> ('s, unit) proc" where
  "for_each f [] = ret ()"
| "for_each f (x # xs) = seq (f x) (for_each f xs)"

text \<open>An outcome that is already known, and a call on a part of the state.\<close>

definition lift_res :: "'a res \<Rightarrow> ('s, 'a) proc" where
  "lift_res r = (\<lambda>s. (r, s))"

definition zoom :: "('s \<Rightarrow> 't) \<Rightarrow> ('t \<Rightarrow> 's \<Rightarrow> 's) \<Rightarrow> ('t, 'a) proc \<Rightarrow> ('s, 'a) proc" where
  "zoom part put m = (\<lambda>s. case m (part s) of (r, t) \<Rightarrow> (r, put t s))"

named_theorems proc_simps \<open>unfolding of the call combinators\<close>

declare ret_def [proc_simps] throw_def [proc_simps] block_def [proc_simps] undef_def [proc_simps]
  gets_def [proc_simps] modify_def [proc_simps] sbind_def [proc_simps] seq_def [proc_simps]
  try_catch_def [proc_simps] run_if_def [proc_simps] lift_res_def [proc_simps] zoom_def [proc_simps]

subsection \<open>Laws of the combinators\<close>

lemma sbind_ret [simp]: "sbind (ret a) f = f a"
  by (simp add: proc_simps)

lemma sbind_throw [simp]: "sbind (throw e) f = throw e"
  by (simp add: proc_simps)

lemma sbind_ret_right [simp]: "sbind m ret = m"
  by (rule ext) (simp add: proc_simps split: prod.splits res.splits)

lemma sbind_assoc: "sbind (sbind m f) g = sbind m (\<lambda>a. sbind (f a) g)"
  by (rule ext) (simp add: proc_simps split: prod.splits res.splits)

lemma sbind_gets: "sbind (gets f) g s = g (f s) s"
  by (simp add: sbind_def gets_def)

lemma sbind_Returns: "sbind m f s = (Returns b, u) \<longleftrightarrow> (\<exists>a t. m s = (Returns a, t) \<and> f a t = (Returns b, u))"
  by (simp add: sbind_def split: prod.splits res.splits)

lemma seq_Returns: "seq m n s = (Returns b, u) \<longleftrightarrow> (\<exists>a t. m s = (Returns a, t) \<and> n t = (Returns b, u))"
  by (simp add: seq_def sbind_Returns)

lemma sbind_eq: "m s = (Returns a, t) \<Longrightarrow> sbind m f s = f a t"
  by (simp add: sbind_def)

lemma seq_eq: "m s = (Returns a, t) \<Longrightarrow> seq m n s = n t"
  by (simp add: seq_def sbind_def)

lemma seq_ret [simp]: "seq (ret a) n = n"
  by (simp add: seq_def)

lemma try_catch_ret [simp]: "try_catch (ret a) h = ret a"
  by (simp add: proc_simps)

lemma try_catch_throw [simp]: "try_catch (throw e) h = h e"
  by (simp add: proc_simps)

text \<open>A loop whose body always returns and acts on the state as \<open>g x\<close> is a fold.\<close>

lemma for_each_fold:
  assumes "\<And>x s. x \<in> set xs \<Longrightarrow> f x s = (Returns (), g x s)"
  shows "for_each f xs s = (Returns (), fold g xs s)"
  using assms by (induction xs arbitrary: s) (simp_all add: proc_simps)

lemma for_each_append: "for_each f (xs @ ys) = seq (for_each f xs) (for_each f ys)"
  by (induction xs) (simp_all add: seq_def sbind_assoc)

subsection \<open>Invariants through calls\<close>

text \<open>A call keeps \<open>P\<close> if every outcome, exceptions included, ends in a state with \<open>P\<close>.\<close>

definition preserves :: "('s \<Rightarrow> bool) \<Rightarrow> ('s, 'a) proc \<Rightarrow> bool" where
  "preserves P m \<longleftrightarrow> (\<forall>s. P s \<longrightarrow> P (snd (m s)))"

named_theorems keeps \<open>introduction rules for \<^const>\<open>preserves\<close>\<close>

lemma preservesI: "(\<And>s. P s \<Longrightarrow> P (snd (m s))) \<Longrightarrow> preserves P m"
  by (simp add: preserves_def)

lemma preservesD: "preserves P m \<Longrightarrow> P s \<Longrightarrow> P (snd (m s))"
  by (simp add: preserves_def)

lemma preserves_step: "preserves P m \<Longrightarrow> P s \<Longrightarrow> m s = (r, t) \<Longrightarrow> P t"
  using preservesD [of P m s] by simp

lemma preserves_ret [keeps]: "preserves P (ret a)"
  by (simp add: preserves_def proc_simps)

lemma preserves_throw [keeps]: "preserves P (throw e)"
  by (simp add: preserves_def proc_simps)

lemma preserves_block [keeps]: "preserves P block"
  by (simp add: preserves_def proc_simps)

lemma preserves_undef [keeps]: "preserves P (undef w)"
  by (simp add: preserves_def proc_simps)

lemma preserves_gets [keeps]: "preserves P (gets f)"
  by (simp add: preserves_def proc_simps)

lemma preserves_modify: "(\<And>s. P s \<Longrightarrow> P (f s)) \<Longrightarrow> preserves P (modify f)"
  by (simp add: preserves_def proc_simps)

lemma preserves_sbind [keeps]:
  assumes "preserves P m" and "\<And>a. preserves P (f a)"
  shows "preserves P (sbind m f)"
proof (rule preservesI)
  fix s
  assume "P s"
  with assms(1) have "P (snd (m s))" by (rule preservesD)
  then show "P (snd (sbind m f s))"
    using preservesD [OF assms(2)]
    by (auto simp: sbind_def split: prod.splits res.splits)
qed

lemma preserves_seq [keeps]: "preserves P m \<Longrightarrow> preserves P n \<Longrightarrow> preserves P (seq m n)"
  by (simp add: seq_def preserves_sbind)

lemma preserves_try_catch [keeps]:
  assumes "preserves P m" and "\<And>e. preserves P (h e)"
  shows "preserves P (try_catch m h)"
proof (rule preservesI)
  fix s
  assume "P s"
  with assms(1) have "P (snd (m s))" by (rule preservesD)
  then show "P (snd (try_catch m h s))"
    using preservesD [OF assms(2)]
    by (auto simp: try_catch_def split: prod.splits res.splits)
qed

lemma preserves_run_if [keeps]: "(b \<Longrightarrow> preserves P m) \<Longrightarrow> preserves P (run_if b m)"
  by (simp add: run_if_def preserves_ret)

lemma preserves_if [keeps]:
  "(b \<Longrightarrow> preserves P m) \<Longrightarrow> (\<not> b \<Longrightarrow> preserves P n) \<Longrightarrow> preserves P (if b then m else n)"
  by simp

lemma preserves_option [keeps]:
  "(x = None \<Longrightarrow> preserves P m) \<Longrightarrow> (\<And>a. x = Some a \<Longrightarrow> preserves P (f a))
   \<Longrightarrow> preserves P (case x of None \<Rightarrow> m | Some a \<Rightarrow> f a)"
  by (simp split: option.splits)

lemma preserves_lift_res [keeps]: "preserves P (lift_res r)"
  by (simp add: preserves_def proc_simps)

lemma preserves_zoom:
  assumes "preserves Q m" and "\<And>s. P s \<Longrightarrow> Q (part s)" and "\<And>s t. P s \<Longrightarrow> Q t \<Longrightarrow> P (put t s)"
  shows "preserves P (zoom part put m)"
proof (rule preservesI)
  fix s
  assume "P s"
  moreover from assms(1,2) this have "Q (snd (m (part s)))" by (blast intro: preservesD)
  ultimately show "P (snd (zoom part put m s))"
    using assms(3) by (simp add: zoom_def case_prod_beta)
qed

lemma zoom_eq: "m (part s) = (r, t) \<Longrightarrow> zoom part put m s = (r, put t s)"
  by (simp add: zoom_def)

lemma preserves_for_each [keeps]:
  "(\<And>x. x \<in> set xs \<Longrightarrow> preserves P (f x)) \<Longrightarrow> preserves P (for_each f xs)"
  by (induction xs) (auto intro: keeps)

subsection \<open>Triples\<close>

text \<open>
  An assertion that holds again whenever the call has come to an end; nothing is said about a call
  that waits for ever or whose behaviour is undefined.
\<close>

definition settles :: "('s \<Rightarrow> bool) \<Rightarrow> ('s, 'a) proc \<Rightarrow> bool" where
  "settles P m \<longleftrightarrow> (\<forall>s. P s \<longrightarrow> (case m s of (Returns a, t) \<Rightarrow> P t | (Throws e, t) \<Rightarrow> P t | _ \<Rightarrow> True))"

named_theorems settle \<open>introduction rules for \<^const>\<open>settles\<close>\<close>

lemma settlesD: "settles P m \<Longrightarrow> P s \<Longrightarrow> m s = (Returns a, t) \<Longrightarrow> P t" "settles P m \<Longrightarrow> P s \<Longrightarrow> m s = (Throws e, t) \<Longrightarrow> P t"
  by (auto simp: settles_def)

lemma settlesI:
  assumes "\<And>s a t. P s \<Longrightarrow> m s = (Returns a, t) \<Longrightarrow> P t" and "\<And>s e t. P s \<Longrightarrow> m s = (Throws e, t) \<Longrightarrow> P t"
  shows "settles P m"
  unfolding settles_def
proof (intro allI impI)
  fix s
  assume s: "P s"
  obtain x t where m: "m s = (x, t)" by fastforce
  show "case m s of (Returns a, t) \<Rightarrow> P t | (Throws e, t) \<Rightarrow> P t | _ \<Rightarrow> True"
  proof (cases x)
    case (Returns a)
    then show ?thesis using assms(1) [OF s, of a t] m by simp
  next
    case (Throws e)
    then show ?thesis using assms(2) [OF s, of e t] m by simp
  qed (simp_all add: m)
qed

lemma preserves_settles: "preserves P m \<Longrightarrow> settles P m"
  by (rule settlesI) (metis preserves_def snd_conv)+

lemma settles_basic [settle]:
  "settles P (ret a)" "settles P (throw e)" "settles P (undef w)" "settles P (gets f)" "settles P (lift_res r)"
  by (simp_all add: settles_def proc_simps split: res.splits)

lemma settles_sbind [settle]:
  assumes m: "settles P m" and f: "\<And>a. settles P (f a)"
  shows "settles P (sbind m f)"
proof (rule settlesI)
  show "P t" if s: "P s" and run: "sbind m f s = (Returns b, t)" for s b t
  proof -
    from run obtain a u where "m s = (Returns a, u)" and u: "f a u = (Returns b, t)" by (auto simp: sbind_Returns)
    then have "P u" using settlesD(1) [OF m s] by blast
    then show ?thesis by (rule settlesD(1) [OF f _ u])
  qed
  show "P t" if s: "P s" and run: "sbind m f s = (Throws e, t)" for s e t
  proof -
    obtain x u where x: "m s = (x, u)" by fastforce
    show ?thesis
    proof (cases x)
      case (Returns a)
      then have "P u" and "f a u = (Throws e, t)" using settlesD(1) [OF m s] x run by (auto simp: sbind_def)
      then show ?thesis by (rule settlesD(2) [OF f])
    qed (use settlesD(2) [OF m s] x run in \<open>auto simp: sbind_def\<close>)
  qed
qed

lemma settles_seq [settle]: "settles P m \<Longrightarrow> settles P n \<Longrightarrow> settles P (seq m n)"
  unfolding seq_def by (rule settles_sbind)

lemma settles_option [settle]:
  "settles P m \<Longrightarrow> (\<And>a. settles P (f a)) \<Longrightarrow> settles P (case v of None \<Rightarrow> m | Some a \<Rightarrow> f a)"
  by (cases v) simp_all

lemma settles_if [settle]: "(b \<Longrightarrow> settles P m) \<Longrightarrow> (\<not> b \<Longrightarrow> settles P n) \<Longrightarrow> settles P (if b then m else n)"
  by simp

lemma settles_for_each [settle]: "(\<And>x. settles P (f x)) \<Longrightarrow> settles P (for_each f xs)"
  by (induction xs) (auto intro: settle)

lemma settles_modify: "(\<And>s. P s \<Longrightarrow> P (f s)) \<Longrightarrow> settles P (modify f)"
  by (simp add: settles_def modify_def)

lemma settles_try_catch [settle]:
  assumes m: "settles P m" and h: "\<And>e. settles P (h e)"
  shows "settles P (try_catch m h)"
proof -
  have "P t" if "P s" and "try_catch m h s = (x, t)" and "x = Returns a \<or> x = Throws e" for s t x a e
  proof (cases "m s")
    case (Pair y u)
    show ?thesis
    proof (cases y)
      case (Throws d)
      then have "P u" "h d u = (x, t)" using settlesD(2) [OF m that(1)] Pair that(2) by (auto simp: try_catch_def)
      then show ?thesis using that(3) settlesD [OF h] by blast
    qed (use settlesD(1) [OF m that(1)] Pair that in \<open>auto simp: try_catch_def\<close>)
  qed
  then show ?thesis by (intro settlesI) blast+
qed

text \<open>
  From \<open>P\<close> a call that returns establishes \<open>Q\<close> of its result, and one that throws or waits
  establishes \<open>E\<close>; nothing is said once the behaviour is undefined.
\<close>

definition triple :: "('s \<Rightarrow> bool) \<Rightarrow> ('s, 'a) proc \<Rightarrow> ('a \<Rightarrow> 's \<Rightarrow> bool) \<Rightarrow> ('s \<Rightarrow> bool) \<Rightarrow> bool" where
  "triple P m Q E \<longleftrightarrow> (\<forall>s. P s \<longrightarrow>
     (case m s of (Returns a, t) \<Rightarrow> Q a t | (Throws e, t) \<Rightarrow> E t | (Blocks, t) \<Rightarrow> E t | (Undefined w, t) \<Rightarrow> True))"

named_theorems triples \<open>rules for \<^const>\<open>triple\<close>\<close>

lemma tripleI:
  assumes "\<And>s x t. P s \<Longrightarrow> m s = (x, t) \<Longrightarrow> \<forall>w. x \<noteq> Undefined w \<Longrightarrow>
    (case x of Returns a \<Rightarrow> Q a t | _ \<Rightarrow> E t)"
  shows "triple P m Q E"
  using assms unfolding triple_def by (fastforce split: prod.splits res.splits)

lemma tripleD:
  "triple P m Q E \<Longrightarrow> P s \<Longrightarrow> m s = (x, t) \<Longrightarrow> \<forall>w. x \<noteq> Undefined w \<Longrightarrow> (case x of Returns a \<Rightarrow> Q a t | _ \<Rightarrow> E t)"
  unfolding triple_def by (fastforce split: prod.splits res.splits)

lemma triple_weaken:
  assumes "triple P m Q E" and "\<And>s. P' s \<Longrightarrow> P s" and "\<And>a s. Q a s \<Longrightarrow> Q' a s" and "\<And>s. E s \<Longrightarrow> E' s"
  shows "triple P' m Q' E'"
  using assms unfolding triple_def by (fastforce split: prod.splits res.splits)

lemma triple_ret [triples]: "(\<And>s. P s \<Longrightarrow> Q a s) \<Longrightarrow> triple P (ret a) Q E"
  by (simp add: triple_def ret_def)

lemma triple_throw [triples]: "(\<And>s. P s \<Longrightarrow> E s) \<Longrightarrow> triple P (throw e) Q E"
  by (simp add: triple_def throw_def)

lemma triple_undef [triples]: "triple P (undef w) Q E"
  by (simp add: triple_def undef_def)

lemma triple_gets: "(\<And>s. P s \<Longrightarrow> Q (f s) s) \<Longrightarrow> triple P (gets f) Q E"
  by (simp add: triple_def gets_def)

lemma triple_modify: "(\<And>s. P s \<Longrightarrow> Q () (f s)) \<Longrightarrow> triple P (modify f) Q E"
  by (simp add: triple_def modify_def)

lemma triple_lift_res [triples]: "(\<And>a s. P s \<Longrightarrow> Q a s) \<Longrightarrow> (\<And>s. P s \<Longrightarrow> E s) \<Longrightarrow> triple P (lift_res r) Q E"
  by (simp add: triple_def lift_res_def split: res.splits)

lemma triple_sbind [triples]:
  assumes "triple P m Q E" and "\<And>a. triple (Q a) (f a) R E"
  shows "triple P (sbind m f) R E"
proof (rule tripleI)
  fix s x t
  assume s: "P s" "sbind m f s = (x, t)" and x: "\<forall>w. x \<noteq> Undefined w"
  obtain y u where y: "m s = (y, u)" by fastforce
  show "case x of Returns a \<Rightarrow> R a t | _ \<Rightarrow> E t"
  proof (cases y)
    case (Returns a)
    then have "Q a u" "f a u = (x, t)"
      using tripleD [OF assms(1) s(1) y] s(2) y by (simp_all add: sbind_def)
    then show ?thesis by (rule tripleD [OF assms(2) _ _ x])
  qed (use tripleD [OF assms(1) s(1) y] s(2) y x in \<open>auto simp: sbind_def\<close>)
qed

lemma triple_seq [triples]: "triple P m (\<lambda>_. Q) E \<Longrightarrow> triple Q n R E \<Longrightarrow> triple P (seq m n) R E"
  unfolding seq_def by (rule triple_sbind)

text \<open>The same when one assertion stays true throughout.\<close>

lemma stays_sbind: "triple P m (\<lambda>_. P) E \<Longrightarrow> (\<And>a. triple P (f a) R E) \<Longrightarrow> triple P (sbind m f) R E"
  by (rule triple_sbind)

lemma stays_seq: "triple P m (\<lambda>_. P) E \<Longrightarrow> triple P n R E \<Longrightarrow> triple P (seq m n) R E"
  by (rule triple_seq)

lemma triple_try_catch:
  assumes "triple P m Q F" and "\<And>e. triple F (h e) Q E" and "\<And>s. F s \<Longrightarrow> E s"
  shows "triple P (try_catch m h) Q E"
proof (rule tripleI)
  fix s x t
  assume s: "P s" "try_catch m h s = (x, t)" and x: "\<forall>w. x \<noteq> Undefined w"
  obtain y u where y: "m s = (y, u)" by fastforce
  show "case x of Returns a \<Rightarrow> Q a t | _ \<Rightarrow> E t"
  proof (cases y)
    case (Throws e)
    then have "F u" "h e u = (x, t)"
      using tripleD [OF assms(1) s(1) y] s(2) y by (simp_all add: try_catch_def)
    then show ?thesis by (rule tripleD [OF assms(2) _ _ x])
  qed (use tripleD [OF assms(1) s(1) y] s(2) y x assms(3) in \<open>auto simp: try_catch_def\<close>)
qed

lemma triple_if [triples]:
  "(b \<Longrightarrow> triple P m Q E) \<Longrightarrow> (\<not> b \<Longrightarrow> triple P n Q E) \<Longrightarrow> triple P (if b then m else n) Q E"
  by simp

lemma triple_option [triples]:
  "(x = None \<Longrightarrow> triple P m Q E) \<Longrightarrow> (\<And>a. x = Some a \<Longrightarrow> triple P (f a) Q E)
   \<Longrightarrow> triple P (case x of None \<Rightarrow> m | Some a \<Rightarrow> f a) Q E"
  by (simp split: option.splits)

lemmas stays = stays_seq stays_sbind triple_option triple_if

lemma triple_zoom:
  assumes "triple P' m Q' E'" and "\<And>s. P s \<Longrightarrow> P' (part s)"
    and "\<And>s a t. P s \<Longrightarrow> Q' a t \<Longrightarrow> Q a (put t s)" and "\<And>s t. P s \<Longrightarrow> E' t \<Longrightarrow> E (put t s)"
  shows "triple P (zoom part put m) Q E"
  unfolding triple_def
proof (intro allI impI)
  fix s
  assume s: "P s"
  with assms(1,2) have "case m (part s) of (Returns a, t) \<Rightarrow> Q' a t | (Throws e, t) \<Rightarrow> E' t | (Blocks, t) \<Rightarrow> E' t
      | (Undefined w, t) \<Rightarrow> True"
    by (simp add: triple_def)
  then show "case zoom part put m s of (Returns a, t) \<Rightarrow> Q a t | (Throws e, t) \<Rightarrow> E t | (Blocks, t) \<Rightarrow> E t
      | (Undefined w, t) \<Rightarrow> True"
    using assms(3,4) s by (auto simp: zoom_def split: prod.splits res.splits)
qed

section \<open>Lists\<close>

lemma set_remove1_distinct [simp]: "distinct xs \<Longrightarrow> set (remove1 x xs) = set xs - {x}"
  by (rule set_remove1_eq)

lemma butlast_snoc_last: "xs \<noteq> [] \<Longrightarrow> mset xs = add_mset (last xs) (mset (butlast xs))"
  by (metis append_butlast_last_id mset.simps(1,2) mset_append add_mset_add_single)

lemma mset_hd_tl: "xs \<noteq> [] \<Longrightarrow> mset xs = add_mset (hd xs) (mset (tl xs))"
  by (cases xs) auto

end
