(* ===== verification/Geometry.thy ===== *)
theory Geometry
  imports Mir_Prelude
begin

text \<open>
  The geometry types of \<^verbatim>\<open>include/shared/mir/geometry\<close>: dimensions are wrapped unsigned 32-bit
  integers (\<^verbatim>\<open>detail::IntWrapper<Tag>\<close>), so coordinate arithmetic wraps around and the order
  is the unsigned one. The wrapper's tag only separates types at compile time and is not kept.
  Enumerations that the code casts from unchecked integers are kept as those integers.
\<close>

section \<open>Dimensions\<close>

type_synonym dimension = u32

text \<open>The converting constructor \<^verbatim>\<open>static_cast<uint32_t>(value)\<close>.\<close>

definition dimension_of :: "int \<Rightarrow> dimension" where
  "dimension_of v = word_of_int v"

definition dim_plus :: "dimension \<Rightarrow> dimension \<Rightarrow> dimension" where
  "dim_plus lhs rhs = lhs + rhs"

definition dim_minus :: "dimension \<Rightarrow> dimension \<Rightarrow> dimension" where
  "dim_minus lhs rhs = lhs - rhs"

definition dim_less :: "dimension \<Rightarrow> dimension \<Rightarrow> bool" where
  "dim_less lhs rhs \<longleftrightarrow> unat lhs < unat rhs"

definition dim_greater :: "dimension \<Rightarrow> dimension \<Rightarrow> bool" where
  "dim_greater lhs rhs \<longleftrightarrow> unat lhs > unat rhs"

section \<open>Points, displacements, sizes, rectangles\<close>

record geom_size =
  width :: dimension
  height :: dimension

record geom_point =
  pt_x :: dimension
  pt_y :: dimension

record geom_displacement =
  disp_dx :: dimension
  disp_dy :: dimension

record geom_rectangle =
  top_left :: geom_point
  rect_size :: geom_size

definition size_zero :: geom_size where
  "size_zero = \<lparr>width = 0, height = 0\<rparr>"

definition point_zero :: geom_point where
  "point_zero = \<lparr>pt_x = 0, pt_y = 0\<rparr>"

definition size_eq :: "geom_size \<Rightarrow> geom_size \<Rightarrow> bool" where
  "size_eq lhs rhs \<longleftrightarrow> width lhs = width rhs \<and> height lhs = height rhs"

definition size_ne :: "geom_size \<Rightarrow> geom_size \<Rightarrow> bool" where
  "size_ne lhs rhs \<longleftrightarrow> width lhs \<noteq> width rhs \<or> height lhs \<noteq> height rhs"

definition point_eq :: "geom_point \<Rightarrow> geom_point \<Rightarrow> bool" where
  "point_eq lhs rhs \<longleftrightarrow> pt_x lhs = pt_x rhs \<and> pt_y lhs = pt_y rhs"

definition point_ne :: "geom_point \<Rightarrow> geom_point \<Rightarrow> bool" where
  "point_ne lhs rhs \<longleftrightarrow> pt_x lhs \<noteq> pt_x rhs \<or> pt_y lhs \<noteq> pt_y rhs"

definition rectangle_eq :: "geom_rectangle \<Rightarrow> geom_rectangle \<Rightarrow> bool" where
  "rectangle_eq lhs rhs \<longleftrightarrow>
     point_eq (top_left lhs) (top_left rhs) \<and> size_eq (rect_size lhs) (rect_size rhs)"

definition rectangle_ne :: "geom_rectangle \<Rightarrow> geom_rectangle \<Rightarrow> bool" where
  "rectangle_ne lhs rhs \<longleftrightarrow>
     point_ne (top_left lhs) (top_left rhs) \<or> size_ne (rect_size lhs) (rect_size rhs)"

definition displacement_eq :: "geom_displacement \<Rightarrow> geom_displacement \<Rightarrow> bool" where
  "displacement_eq lhs rhs \<longleftrightarrow> disp_dx lhs = disp_dx rhs \<and> disp_dy lhs = disp_dy rhs"

definition displacement_ne :: "geom_displacement \<Rightarrow> geom_displacement \<Rightarrow> bool" where
  "displacement_ne lhs rhs \<longleftrightarrow> disp_dx lhs \<noteq> disp_dx rhs \<or> disp_dy lhs \<noteq> disp_dy rhs"

definition displacement_plus :: "geom_displacement \<Rightarrow> geom_displacement \<Rightarrow> geom_displacement" where
  "displacement_plus lhs rhs =
     \<lparr>disp_dx = dim_plus (disp_dx lhs) (disp_dx rhs), disp_dy = dim_plus (disp_dy lhs) (disp_dy rhs)\<rparr>"

definition displacement_minus :: "geom_displacement \<Rightarrow> geom_displacement \<Rightarrow> geom_displacement" where
  "displacement_minus lhs rhs =
     \<lparr>disp_dx = dim_minus (disp_dx lhs) (disp_dx rhs), disp_dy = dim_minus (disp_dy lhs) (disp_dy rhs)\<rparr>"

definition point_plus :: "geom_point \<Rightarrow> geom_displacement \<Rightarrow> geom_point" where
  "point_plus lhs rhs =
     \<lparr>pt_x = dim_plus (pt_x lhs) (disp_dx rhs), pt_y = dim_plus (pt_y lhs) (disp_dy rhs)\<rparr>"

definition point_minus :: "geom_point \<Rightarrow> geom_displacement \<Rightarrow> geom_point" where
  "point_minus lhs rhs =
     \<lparr>pt_x = dim_minus (pt_x lhs) (disp_dx rhs), pt_y = dim_minus (pt_y lhs) (disp_dy rhs)\<rparr>"

definition point_diff :: "geom_point \<Rightarrow> geom_point \<Rightarrow> geom_displacement" where
  "point_diff lhs rhs =
     \<lparr>disp_dx = dim_minus (pt_x lhs) (pt_x rhs), disp_dy = dim_minus (pt_y lhs) (pt_y rhs)\<rparr>"

section \<open>Pixel formats\<close>

text \<open>\<^verbatim>\<open>enum class PixelFormat : uint32_t\<close>: any 32-bit value can be cast to it.\<close>

type_synonym pixel_format = u32

definition pf_invalid :: pixel_format where "pf_invalid = 0"
definition abgr_8888 :: pixel_format where "abgr_8888 = 1"
definition xbgr_8888 :: pixel_format where "xbgr_8888 = 2"
definition argb_8888 :: pixel_format where "argb_8888 = 3"
definition xrgb_8888 :: pixel_format where "xrgb_8888 = 4"
definition bgr_888 :: pixel_format where "bgr_888 = 5"

lemmas pixel_format_defs =
  pf_invalid_def abgr_8888_def xbgr_8888_def argb_8888_def xrgb_8888_def bgr_888_def

section \<open>Facts\<close>

lemmas geometry_defs =
  dim_plus_def dim_minus_def displacement_plus_def displacement_minus_def
  point_plus_def point_minus_def point_diff_def

lemma size_eq_iff [simp]: "size_eq a b \<longleftrightarrow> a = b"
  by (cases a; cases b) (simp add: size_eq_def)

lemma size_ne_iff [simp]: "size_ne a b \<longleftrightarrow> a \<noteq> b"
  by (cases a; cases b) (auto simp: size_ne_def)

lemma point_eq_iff [simp]: "point_eq a b \<longleftrightarrow> a = b"
  by (cases a; cases b) (simp add: point_eq_def)

lemma point_ne_iff [simp]: "point_ne a b \<longleftrightarrow> a \<noteq> b"
  by (cases a; cases b) (auto simp: point_ne_def)

lemma rectangle_eq_iff [simp]: "rectangle_eq a b \<longleftrightarrow> a = b"
  by (cases a; cases b) (simp add: rectangle_eq_def)

lemma rectangle_ne_iff [simp]: "rectangle_ne a b \<longleftrightarrow> a \<noteq> b"
  by (cases a; cases b) (auto simp: rectangle_ne_def)

lemma displacement_eq_iff [simp]: "displacement_eq a b \<longleftrightarrow> a = b"
  by (cases a; cases b) (simp add: displacement_eq_def)

lemma displacement_ne_iff [simp]: "displacement_ne a b \<longleftrightarrow> a \<noteq> b"
  by (cases a; cases b) (auto simp: displacement_ne_def)

text \<open>Points under displacements form an affine space over the 32-bit torus.\<close>

lemma point_plus_diff: "point_plus p (point_diff q p) = q"
  by (cases p; cases q) (simp add: geometry_defs)

lemma point_diff_plus: "point_diff (point_plus p d) p = d"
  by (cases p; cases d) (simp add: geometry_defs)

lemma point_plus_minus: "point_minus (point_plus p d) d = p"
  by (cases p; cases d) (simp add: geometry_defs)

lemma point_plus_assoc: "point_plus (point_plus p d) e = point_plus p (displacement_plus d e)"
  by (cases p; cases d; cases e) (simp add: geometry_defs add.assoc)

lemma displacement_plus_minus: "displacement_minus (displacement_plus d e) e = d"
  by (cases d; cases e) (simp add: geometry_defs)

lemma dimension_of_eq_iff: "dimension_of v = dimension_of w \<longleftrightarrow> v mod 2 ^ 32 = w mod 2 ^ 32"
  by (simp add: dimension_of_def word_of_int_eq_iff take_bit_eq_mod)

end
