(* ===== verification/Buffers.thy ===== *)
theory Buffers
  imports Geometry
begin

text \<open>
  Buffer identifiers (\<^verbatim>\<open>mir/compositor/buffer_id.h\<close>) and their generator
  (\<^verbatim>\<open>compositor/buffer_basic.cpp\<close>), buffer properties
  (\<^verbatim>\<open>mir/compositor/buffer_properties.h\<close>) and the data a \<^verbatim>\<open>mc::Buffer\<close> answers with.
  The generator's loop is shown to end after at most two draws, never to return the invalid
  id, and to repeat an id only after the 32-bit counter has gone once around.
\<close>

section \<open>Buffer identifiers\<close>

type_synonym buffer_id = u32

definition id_invalid :: buffer_id where
  "id_invalid = 0"

definition id_is_valid :: "buffer_id \<Rightarrow> bool" where
  "id_is_valid b \<longleftrightarrow> id_invalid \<noteq> b"

text \<open>\<^verbatim>\<open>while (!id.is_valid()) id = BufferID(next_id.fetch_add(1));\<close> over the drawn id and the
  atomic counter.\<close>

function draw_valid_id :: "buffer_id \<Rightarrow> u32 \<Rightarrow> buffer_id \<times> u32" where
  "draw_valid_id b next_id = (if \<not> id_is_valid b then draw_valid_id next_id (next_id + 1) else (b, next_id))"
  by pat_completeness auto
termination
  by (relation "measure (\<lambda>(b, n). if b \<noteq> 0 then 0 else if n \<noteq> 0 then 1 else 2)")
    (auto simp: id_is_valid_def id_invalid_def)

declare draw_valid_id.simps [simp del]

text \<open>\<^verbatim>\<open>generate_next_buffer_id\<close>: the id and the counter afterwards.\<close>

definition generate_next_buffer_id :: "u32 \<Rightarrow> buffer_id \<times> u32" where
  "generate_next_buffer_id next_id = draw_valid_id next_id (next_id + 1)"

fun generate_buffer_ids :: "nat \<Rightarrow> u32 \<Rightarrow> buffer_id list \<times> u32" where
  "generate_buffer_ids 0 c = ([], c)"
| "generate_buffer_ids (Suc n) c =
     (let (b, c') = generate_next_buffer_id c; (bs, c'') = generate_buffer_ids n c' in (b # bs, c''))"

section \<open>Buffer properties and buffers\<close>

text \<open>\<^verbatim>\<open>enum class BufferUsage\<close>; the code casts client integers to it unchecked.\<close>

type_synonym buffer_usage = int

definition usage_undefined :: buffer_usage where "usage_undefined = 0"
definition usage_hardware :: buffer_usage where "usage_hardware = 1"
definition usage_software :: buffer_usage where "usage_software = 2"

record buffer_properties =
  bp_size :: geom_size
  bp_format :: pixel_format
  bp_usage :: buffer_usage

definition default_buffer_properties :: buffer_properties where
  "default_buffer_properties = \<lparr>bp_size = size_zero, bp_format = pf_invalid, bp_usage = usage_undefined\<rparr>"

definition buffer_properties_eq :: "buffer_properties \<Rightarrow> buffer_properties \<Rightarrow> bool" where
  "buffer_properties_eq lhs rhs \<longleftrightarrow>
     size_eq (bp_size lhs) (bp_size rhs) \<and> bp_format lhs = bp_format rhs \<and> bp_usage lhs = bp_usage rhs"

record ipc_package =
  ipc_data :: "int list"
  ipc_fds :: "int list"
  ipc_stride :: int

text \<open>What the members of a \<^verbatim>\<open>mc::Buffer\<close> return.\<close>

record buffer =
  buf_id :: buffer_id
  buf_size :: geom_size
  buf_stride :: dimension
  buf_pixel_format :: pixel_format
  buf_ipc_package :: ipc_package

section \<open>Facts\<close>

lemma buffer_properties_eq_iff [simp]: "buffer_properties_eq a b \<longleftrightarrow> a = b"
  by (cases a; cases b) (simp add: buffer_properties_eq_def)

lemma generate_next_buffer_id_eq:
  "generate_next_buffer_id c = (if c = 0 then (1, 2) else (c, c + 1))"
  by (simp add: generate_next_buffer_id_def draw_valid_id.simps id_is_valid_def id_invalid_def)

text \<open>
  The ids go round the cycle of the \<open>2 ^ 32 - 1\<close> nonzero values; \<open>id_pos c\<close> is the place in that
  cycle of the id that is drawn next from the counter value \<open>c\<close>.
\<close>

definition id_cycle :: nat where
  "id_cycle = 4294967295"

definition id_pos :: "u32 \<Rightarrow> nat" where
  "id_pos c = (if c = 0 then 0 else unat c - 1)"

lemma unat_u32_bound: "unat (c :: u32) < 4294967296"
  using unsigned_less [of c] by simp

lemma unat_of_nat_u32: "k < 4294967296 \<Longrightarrow> unat (of_nat k :: u32) = k"
  by (simp add: unat_of_nat)

lemma generate_next_pos:
  assumes "generate_next_buffer_id c = (b, c')"
  shows "b = of_nat (Suc (id_pos c))" and "id_pos c' = Suc (id_pos c) mod id_cycle"
proof -
  have "b = of_nat (Suc (id_pos c)) \<and> id_pos c' = Suc (id_pos c) mod id_cycle"
  proof (cases "c = 0")
    case True
    then show ?thesis
      using assms by (auto simp: generate_next_buffer_id_eq id_pos_def id_cycle_def)
  next
    case False
    then have pos: "0 < unat c" by (simp add: unat_gt_0)
    have bc: "b = c" "c' = c + 1"
      using assms False by (auto simp: generate_next_buffer_id_eq)
    have oc: "of_nat (Suc (id_pos c)) = c"
      using pos False by (simp add: id_pos_def del: of_nat_Suc)
    have un: "unat (c + 1) = (unat c + 1) mod 4294967296"
      by (simp add: unat_word_ariths)
    show ?thesis
    proof (cases "unat c = 4294967295")
      case True
      then have "unat (c + 1) = 0" using un by simp
      then have "c + 1 = 0" by (simp add: unat_eq_zero)
      then show ?thesis
        using True bc oc False pos by (simp add: id_pos_def id_cycle_def del: of_nat_Suc)
    next
      case neq: False
      then have lt: "unat c + 1 < 4294967296" using unat_u32_bound [of c] by simp
      then have un': "unat (c + 1) = unat c + 1" using un by simp
      then have "c + 1 \<noteq> 0" by (metis add_is_0 one_neq_zero unat_0)
      then show ?thesis
        using bc oc False pos un' neq lt by (simp add: id_pos_def id_cycle_def del: of_nat_Suc)
    qed
  qed
  then show "b = of_nat (Suc (id_pos c))" and "id_pos c' = Suc (id_pos c) mod id_cycle"
    by simp_all
qed

lemma generate_buffer_ids_pos:
  "fst (generate_buffer_ids n c) = map (\<lambda>k. of_nat (Suc ((id_pos c + k) mod id_cycle))) [0..<n]"
proof (induction n arbitrary: c)
  case 0
  show ?case by simp
next
  case (Suc n)
  obtain b c' where g: "generate_next_buffer_id c = (b, c')" by fastforce
  have le: "id_pos c < id_cycle"
    using unat_u32_bound [of c] by (auto simp: id_pos_def id_cycle_def)
  have "fst (generate_buffer_ids (Suc n) c) = b # fst (generate_buffer_ids n c')"
    using g by (simp add: case_prod_beta Let_def)
  also have "\<dots> = b # map (\<lambda>k. of_nat (Suc ((id_pos c + Suc k) mod id_cycle))) [0..<n]"
    by (simp add: Suc.IH generate_next_pos(2) [OF g] mod_add_left_eq del: of_nat_Suc)
  also have "\<dots> = map (\<lambda>k. of_nat (Suc ((id_pos c + k) mod id_cycle))) (0 # map Suc [0..<n])"
    using le by (simp add: generate_next_pos(1) [OF g] comp_def del: of_nat_Suc)
  also have "0 # map Suc [0..<n] = [0..<Suc n]"
    by (simp add: map_Suc_upt upt_conv_Cons del: upt_Suc)
  finally show ?case .
qed

lemma dvd_diff_of_mod_eq: "(p + j) mod m = (p + k) mod m \<Longrightarrow> m dvd j - (k :: nat)"
proof (cases "k \<le> j")
  case True
  assume "(p + j) mod m = (p + k) mod m"
  with True have "m dvd (p + j) - (p + k)"
    by (subst mod_eq_dvd_iff_nat [symmetric]) simp_all
  then show ?thesis by simp
qed simp

lemma mod_cycle_inj:
  assumes "n \<le> m" shows "inj_on (\<lambda>k. (p + k) mod m) {0..<n :: nat}"
proof (rule inj_onI)
  fix j k :: nat
  assume jk: "j \<in> {0..<n}" "k \<in> {0..<n}" and eq: "(p + j) mod m = (p + k) mod m"
  from eq have "m dvd j - k" and "m dvd k - j"
    using dvd_diff_of_mod_eq [of p j m k] dvd_diff_of_mod_eq [of p k m j] by simp_all
  moreover have "j - k < m" and "k - j < m"
    using jk assms by auto
  ultimately have "j - k = 0" and "k - j = 0"
    by (auto dest: nat_dvd_not_less)
  then show "j = k" by simp
qed

lemma of_nat_Suc_cycle_inj:
  "inj_on (\<lambda>i. of_nat (Suc i) :: u32) {0..<id_cycle}"
proof (rule inj_onI)
  fix i j
  assume ij: "i \<in> {0..<id_cycle}" "j \<in> {0..<id_cycle}"
    and eq: "(of_nat (Suc i) :: u32) = of_nat (Suc j)"
  have "unat (of_nat (Suc i) :: u32) = Suc i" "unat (of_nat (Suc j) :: u32) = Suc j"
    using ij by (simp_all add: unat_of_nat_u32 id_cycle_def del: of_nat_Suc)
  with eq show "i = j" by simp
qed

lemma generate_buffer_ids_distinct: "n \<le> id_cycle \<Longrightarrow> distinct (fst (generate_buffer_ids n c))"
proof -
  assume n: "n \<le> id_cycle"
  have "inj_on ((\<lambda>i. of_nat (Suc i) :: u32) \<circ> (\<lambda>k. (id_pos c + k) mod id_cycle)) {0..<n}"
    using n by (intro comp_inj_on mod_cycle_inj inj_on_subset [OF of_nat_Suc_cycle_inj])
      (auto simp: id_cycle_def)
  then show ?thesis
    by (simp add: generate_buffer_ids_pos distinct_map comp_def del: of_nat_Suc)
qed

section \<open>Properties\<close>

text \<open>C39: The generator of buffer ids never hands out the invalid id 0, and hands out no id
  twice in a run of up to \<open>2 ^ 32 - 1\<close> consecutive draws, from any value of its counter,
  including runs in which the counter wraps around.\<close>

theorem generated_ids_valid_distinct:
  assumes "n \<le> 4294967295"
  shows "distinct (fst (generate_buffer_ids n c))
    \<and> (\<forall>b \<in> set (fst (generate_buffer_ids n c)). id_is_valid b)"
proof
  show "distinct (fst (generate_buffer_ids n c))"
    using assms by (intro generate_buffer_ids_distinct) (simp add: id_cycle_def)
  have "(of_nat (Suc ((id_pos c + k) mod id_cycle)) :: u32) \<noteq> 0" for k
  proof -
    have "Suc ((id_pos c + k) mod id_cycle) < 4294967296"
      using mod_less_divisor [of id_cycle "id_pos c + k"] by (simp add: id_cycle_def)
    then have "unat (of_nat (Suc ((id_pos c + k) mod id_cycle)) :: u32) \<noteq> 0"
      by (simp add: unat_of_nat_u32 del: of_nat_Suc)
    then show ?thesis by (metis unat_0)
  qed
  then show "\<forall>b \<in> set (fst (generate_buffer_ids n c)). id_is_valid b"
    by (auto simp: generate_buffer_ids_pos id_is_valid_def id_invalid_def simp del: of_nat_Suc)
qed

theorem generated_ids_valid_distinct_witness:
  "(3 :: nat) \<le> 4294967295 \<and> fst (generate_buffer_ids 3 4294967295) = [4294967295, 1, 2]
   \<and> distinct (fst (generate_buffer_ids 3 4294967295))"
  using generated_ids_valid_distinct [of 3 4294967295]
  by (simp add: numeral_3_eq_3 generate_next_buffer_id_eq)

end
