(* ===== verification/Std_Map.thy ===== *)
theory Std_Map
  imports Mir_Prelude
begin

text \<open>
  The \<^verbatim>\<open>std::map\<close> of the C++ library as an association list with strictly increasing keys
  (iteration order is key order, \<^verbatim>\<open>begin()\<close> is the least key), and the contract of a keyed
  store that the caches of the program share: what a lookup returns after an insertion and
  after a removal. Several components interpret the contract on their own operations.
\<close>

section \<open>Ordered maps\<close>

type_synonym ('k, 'v) omap = "('k \<times> 'v) list"

text \<open>\<^verbatim>\<open>m[k] = v\<close>: overwrite or insert in key order.\<close>

fun omap_set :: "'k::linorder \<Rightarrow> 'v \<Rightarrow> ('k, 'v) omap \<Rightarrow> ('k, 'v) omap" where
  "omap_set k v [] = [(k, v)]"
| "omap_set k v (p # m) =
     (if k < fst p then (k, v) # p # m
      else if k = fst p then (k, v) # m
      else p # omap_set k v m)"

definition omap_erase :: "'k \<Rightarrow> ('k, 'v) omap \<Rightarrow> ('k, 'v) omap" where
  "omap_erase k m = filter (\<lambda>p. fst p \<noteq> k) m"

definition omap_wf :: "('k::linorder, 'v) omap \<Rightarrow> bool" where
  "omap_wf m \<longleftrightarrow> sorted_wrt (<) (map fst m)"

text \<open>\<^verbatim>\<open>m[k]\<close> as an expression: a missing key is inserted with the default value first.\<close>

definition omap_at :: "'k::linorder \<Rightarrow> 'v \<Rightarrow> ('k, 'v) omap \<Rightarrow> 'v \<times> ('k, 'v) omap" where
  "omap_at k d m = (case map_of m k of Some v \<Rightarrow> (v, m) | None \<Rightarrow> (d, omap_set k d m))"

lemma map_of_omap_set [simp]: "map_of (omap_set k v m) = (map_of m)(k \<mapsto> v)"
  by (induction m) auto

lemma map_of_omap_erase [simp]: "map_of (omap_erase k m) = (map_of m)(k := None)"
  by (induction m) (auto simp: omap_erase_def fun_eq_iff)

lemma keys_omap_set [simp]: "fst ` set (omap_set k v m) = insert k (fst ` set m)"
  by (induction m) auto

lemma keys_omap_erase [simp]: "fst ` set (omap_erase k m) = fst ` set m - {k}"
  by (auto simp: omap_erase_def)

lemma omap_wf_Nil [simp]: "omap_wf []"
  by (simp add: omap_wf_def)

lemma omap_wf_Cons:
  "omap_wf (p # m) \<longleftrightarrow> (\<forall>k \<in> fst ` set m. fst p < k) \<and> omap_wf m"
  by (simp add: omap_wf_def)

lemma omap_wf_set: "omap_wf m \<Longrightarrow> omap_wf (omap_set k v m)"
  by (induction m) (auto simp: omap_wf_Cons)

lemma omap_wf_erase: "omap_wf m \<Longrightarrow> omap_wf (omap_erase k m)"
  by (induction m) (auto simp: omap_wf_Cons omap_erase_def)

lemma omap_wf_distinct: "omap_wf m \<Longrightarrow> distinct (map fst m)"
  by (simp add: omap_wf_def strict_sorted_iff)

lemma omap_length_card: "omap_wf m \<Longrightarrow> length m = card (dom (map_of m))"
  by (metis distinct_card dom_map_of_conv_image_fst length_map list.set_map omap_wf_distinct)

lemma omap_begin_least:
  assumes "omap_wf m" and "m \<noteq> []" and "map_of m k = Some v"
  shows "fst (hd m) \<le> k"
  using assms by (cases m) (auto simp: omap_wf_Cons split: if_splits dest!: map_of_SomeD intro: less_imp_le)

lemma omap_set_set:
  "set (omap_set k v m) \<subseteq> insert (k, v) (set m)"
  by (induction m) auto

lemma omap_set_fresh_last:
  "(\<forall>a \<in> fst ` set m. a < k) \<Longrightarrow> omap_set k v m = m @ [(k, v)]"
  by (induction m) auto

lemma omap_at_known [simp]: "map_of m k = Some v \<Longrightarrow> omap_at k d m = (v, m)"
  by (simp add: omap_at_def)

text \<open>The values that are left after an assignment or a removal.\<close>

lemma omap_erase_Cons [simp]: "omap_erase k (p # m) = (if fst p = k then omap_erase k m else p # omap_erase k m)"
  by (simp add: omap_erase_def)

lemma omap_erase_missing: "map_of m k = None \<Longrightarrow> omap_erase k m = m"
  by (auto simp: omap_erase_def map_of_eq_None_iff filter_id_conv)

lemma omap_erase_known:
  "omap_wf m \<Longrightarrow> map_of m k = Some v \<Longrightarrow> mset m = add_mset (k, v) (mset (omap_erase k m))"
proof (induction m)
  case Nil
  then show ?case by simp
next
  case (Cons p m)
  show ?case
  proof (cases "fst p = k")
    case True
    then have "k \<notin> fst ` set m" using Cons.prems(1) by (auto simp: omap_wf_Cons)
    then have "omap_erase k m = m" by (simp add: omap_erase_missing map_of_eq_None_iff)
    then show ?thesis using True Cons.prems(2) by (cases p) (simp add: omap_erase_def)
  next
    case False
    then show ?thesis using Cons by (auto simp: omap_wf_Cons omap_erase_def)
  qed
qed

lemma mset_omap_set: "omap_wf m \<Longrightarrow> mset (omap_set k v m) = add_mset (k, v) (mset (omap_erase k m))"
proof (induction m)
  case Nil
  then show ?case by (simp add: omap_erase_def)
next
  case (Cons p m)
  have "omap_erase k m = m" if "k \<le> fst p"
  proof -
    have "k \<notin> fst ` set m" using that Cons.prems by (auto simp: omap_wf_Cons)
    then show ?thesis by (simp add: omap_erase_missing map_of_eq_None_iff)
  qed
  then show ?case using Cons by (auto simp: omap_wf_Cons)
qed

lemma omap_set_erase: "omap_wf m \<Longrightarrow> omap_set k v (omap_erase k m) = omap_set k v m"
proof (induction m)
  case Nil
  then show ?case by (simp add: omap_erase_def)
next
  case (Cons p m)
  have "omap_erase k m = m \<and> omap_set k v m = (k, v) # m" if "k \<le> fst p"
  proof -
    have "\<forall>q \<in> set m. k < fst q" using that Cons.prems by (auto simp: omap_wf_Cons)
    then show ?thesis by (cases m) (auto simp: omap_erase_def filter_id_conv)
  qed
  then show ?case using Cons by (auto simp: omap_wf_Cons)
qed

lemma map_omap_set_known:
  "omap_wf m \<Longrightarrow> map_of m k = Some v \<Longrightarrow> f (k, v') = f (k, v) \<Longrightarrow> map f (omap_set k v' m) = map f m"
proof (induction m)
  case Nil
  then show ?case by simp
next
  case (Cons p m)
  have "\<not> k < fst p"
  proof
    assume less: "k < fst p"
    then have "map_of m k = Some v" using Cons.prems(2) by (cases p) (auto split: if_splits)
    then have "fst p < k" using Cons.prems(1) by (force simp: omap_wf_Cons dest!: map_of_SomeD)
    with less show False by simp
  qed
  then show ?case using Cons by (cases p) (auto simp: omap_wf_Cons)
qed

section \<open>The contract of a keyed store\<close>

text \<open>One operation of a client on a store, and the effect of a sequence of them.\<close>

datatype ('k, 'v) store_op = Put 'k 'v | Del 'k

fun run_store :: "('k \<Rightarrow> 'v \<Rightarrow> 's \<Rightarrow> 's) \<Rightarrow> ('k \<Rightarrow> 's \<Rightarrow> 's) \<Rightarrow> ('k, 'v) store_op list \<Rightarrow> 's \<Rightarrow> 's" where
  "run_store put del [] s = s"
| "run_store put del (Put k v # ops) s = run_store put del ops (put k v s)"
| "run_store put del (Del k # ops) s = run_store put del ops (del k s)"

text \<open>The specification: the same sequence on a partial function.\<close>

fun spec_store :: "('k, 'v) store_op list \<Rightarrow> ('k \<rightharpoonup> 'v) \<Rightarrow> ('k \<rightharpoonup> 'v)" where
  "spec_store [] m = m"
| "spec_store (Put k v # ops) m = spec_store ops (m(k \<mapsto> v))"
| "spec_store (Del k # ops) m = spec_store ops (m(k := None))"

locale keyed_store =
  fixes empty :: 's
    and put :: "'k \<Rightarrow> 'v \<Rightarrow> 's \<Rightarrow> 's"
    and del :: "'k \<Rightarrow> 's \<Rightarrow> 's"
    and get :: "'s \<Rightarrow> 'k \<Rightarrow> 'v option"
    and wf :: "'s \<Rightarrow> bool"
  assumes wf_empty: "wf empty"
    and wf_put: "wf s \<Longrightarrow> wf (put k v s)"
    and wf_del: "wf s \<Longrightarrow> wf (del k s)"
    and get_empty: "get empty k = None"
    and get_put: "wf s \<Longrightarrow> get (put k v s) = (get s)(k \<mapsto> v)"
    and get_del: "wf s \<Longrightarrow> get (del k s) = (get s)(k := None)"
begin

lemma get_put_same: "wf s \<Longrightarrow> get (put k v s) k = Some v"
  by (simp add: get_put)

lemma get_put_other: "wf s \<Longrightarrow> k' \<noteq> k \<Longrightarrow> get (put k v s) k' = get s k'"
  by (simp add: get_put)

lemma put_del: "wf s \<Longrightarrow> get s k = None \<Longrightarrow> get (del k (put k v s)) = get s"
  by (auto simp: get_put get_del wf_put)

lemma put_put: "wf s \<Longrightarrow> get (put k w (put k v s)) = get (put k w s)"
  by (simp add: get_put wf_put)

lemma wf_run: "wf s \<Longrightarrow> wf (run_store put del ops s)"
proof (induction ops arbitrary: s)
  case Nil
  then show ?case by simp
next
  case (Cons op ops)
  then show ?case by (cases op) (simp_all add: wf_put wf_del)
qed

lemma run_refines: "wf s \<Longrightarrow> get (run_store put del ops s) = spec_store ops (get s)"
proof (induction ops arbitrary: s)
  case Nil
  then show ?case by simp
next
  case (Cons op ops)
  then show ?case
    by (cases op) (simp_all add: get_put get_del wf_put wf_del fun_upd_def)
qed

lemma run_from_empty: "get (run_store put del ops empty) = spec_store ops Map.empty"
proof -
  have "get empty = Map.empty" by (rule ext) (rule get_empty)
  then show ?thesis by (simp add: run_refines wf_empty)
qed

end

interpretation omap_store: keyed_store "[] :: ('k::linorder, 'v) omap" omap_set omap_erase map_of omap_wf
  by unfold_locales (simp_all add: omap_wf_set omap_wf_erase)

end
