(* ===== verification/Buffer_Swapper.thy ===== *)
theory Buffer_Swapper
  imports Buffers Std_Map
begin

text \<open>
  \<^verbatim>\<open>mc::BufferSwapperMulti\<close> (\<^verbatim>\<open>compositor/buffer_swapper_multi.cpp\<close>): the two queues through which
  the buffers of a surface go between a client and the compositor. The operations are
  translated one by one, each under the swapper's mutex and so atomic; waiting on
  \<^verbatim>\<open>client_available_cv\<close> is the outcome \<^const>\<open>Blocks\<close>, reading an empty deque is
  \<^const>\<open>Undefined\<close>. The second half composes them with the threads that call them into a
  step relation and states who owns which buffer.
\<close>

section \<open>The swapper\<close>

record swapper =
  buffers :: "(buffer_id, buffer option) omap"
  client_queue :: "buffer_id list"
  compositor_queue :: "buffer_id list"
  in_use_by_client :: u32

definition swapper_zero :: swapper where
  "swapper_zero = \<lparr>buffers = [], client_queue = [], compositor_queue = [], in_use_by_client = 0\<rparr>"

definition enqueue_initial :: "buffer \<Rightarrow> swapper \<Rightarrow> swapper" where
  "enqueue_initial b s = s\<lparr>buffers := omap_set (buf_id b) (Some b) (buffers s),
                           client_queue := client_queue s @ [buf_id b]\<rparr>"

definition initialize_queues :: "buffer list \<Rightarrow> (swapper, unit) proc" where
  "initialize_queues buffer_list =
     (if length buffer_list \<noteq> 2 \<and> length buffer_list \<noteq> 3
      then throw (logic_error ''BufferSwapperMulti is only validated for 2 or 3 buffers'')
      else for_each (\<lambda>b. modify (enqueue_initial b)) buffer_list)"

text \<open>The constructors start from empty queues and \<^verbatim>\<open>in_use_by_client(0)\<close>.\<close>

definition new_swapper :: "buffer list \<Rightarrow> swapper res" where
  "new_swapper buffer_list =
     (case initialize_queues buffer_list swapper_zero of
        (Returns _, s) \<Rightarrow> Returns s
      | (Throws e, s) \<Rightarrow> Throws e
      | (Blocks, s) \<Rightarrow> Blocks
      | (Undefined w, s) \<Rightarrow> Undefined w)"

text \<open>The waiting condition of \<^verbatim>\<open>client_acquire\<close>; \<^verbatim>\<open>in_use_by_client\<close> is promoted to \<^verbatim>\<open>size_t\<close>.\<close>

definition client_must_wait :: "swapper \<Rightarrow> bool" where
  "client_must_wait s \<longleftrightarrow>
     client_queue s = [] \<or> (ucast (in_use_by_client s) :: u64) = of_nat (length (buffers s)) - 1"

definition client_acquire :: "(swapper, buffer option \<times> buffer_id) proc" where
  "client_acquire s =
     (if client_must_wait s then (Blocks, s)
      else
        let dequeued = hd (client_queue s);
            (reference, bufs) = omap_at dequeued None (buffers s)
        in (Returns (reference, dequeued),
            s\<lparr>client_queue := tl (client_queue s), buffers := bufs,
              in_use_by_client := in_use_by_client s + 1\<rparr>))"

definition client_release :: "buffer_id \<Rightarrow> (swapper, unit) proc" where
  "client_release queued =
     modify (\<lambda>s. s\<lparr>compositor_queue := compositor_queue s @ [queued],
                    in_use_by_client := in_use_by_client s - 1\<rparr>)"

definition compositor_acquire :: "(swapper, buffer option \<times> buffer_id) proc" where
  "compositor_acquire s =
     (if compositor_queue s = [] then
        if client_queue s = [] then (Undefined ''back() of an empty client_queue'', s)
        else
          let dequeued = last (client_queue s);
              (reference, bufs) = omap_at dequeued None (buffers s)
          in (Returns (reference, dequeued),
              s\<lparr>client_queue := butlast (client_queue s), buffers := bufs\<rparr>)
      else
        let dequeued = hd (compositor_queue s);
            (reference, bufs) = omap_at dequeued None (buffers s)
        in (Returns (reference, dequeued),
            s\<lparr>compositor_queue := tl (compositor_queue s), buffers := bufs\<rparr>))"

definition compositor_release :: "buffer_id \<Rightarrow> (swapper, unit) proc" where
  "compositor_release released = modify (\<lambda>s. s\<lparr>client_queue := client_queue s @ [released]\<rparr>)"

definition swapper_shutdown :: "(swapper, unit) proc" where
  "swapper_shutdown s =
     (if client_queue s = [] then
        if compositor_queue s = [] then (Undefined ''front() of an empty compositor_queue'', s)
        else (Returns (), s\<lparr>compositor_queue := tl (compositor_queue s),
                            client_queue := client_queue s @ [hd (compositor_queue s)]\<rparr>)
      else (Returns (), s))"

lemmas swapper_ops =
  client_acquire_def client_release_def compositor_acquire_def compositor_release_def swapper_shutdown_def

section \<open>The threads around a swapper\<close>

text \<open>
  The buffers a client thread and the compositor have acquired and not yet released, and the
  number of client threads asleep in \<^verbatim>\<open>client_available_cv.wait\<close>. \<^verbatim>\<open>notify_one\<close> wakes one of
  them, \<^verbatim>\<open>notify_all\<close> all; a woken thread tests the condition again, so it is as one that has
  just called \<^verbatim>\<open>client_acquire\<close>.
\<close>

record swap_system =
  sw :: swapper
  client_held :: "buffer_id list"
  compositor_held :: "buffer_id list"
  asleep :: nat

datatype swap_action =
    Client_acquire buffer_id
  | Client_wait
  | Client_release buffer_id
  | Compositor_acquire buffer_id
  | Compositor_release buffer_id
  | Shutdown

inductive swap_step :: "swap_system \<Rightarrow> swap_action \<Rightarrow> swap_system \<Rightarrow> bool" where
  acquire: "client_acquire (sw s) = (Returns (r, b), w) \<Longrightarrow>
     swap_step s (Client_acquire b) (s\<lparr>sw := w, client_held := b # client_held s\<rparr>)"
| wait: "client_acquire (sw s) = (Blocks, w) \<Longrightarrow>
     swap_step s Client_wait (s\<lparr>sw := w, asleep := Suc (asleep s)\<rparr>)"
| release: "b \<in> set (client_held s) \<Longrightarrow> client_release b (sw s) = (Returns (), w) \<Longrightarrow>
     swap_step s (Client_release b) (s\<lparr>sw := w, client_held := remove1 b (client_held s)\<rparr>)"
| compose: "compositor_acquire (sw s) = (Returns (r, b), w) \<Longrightarrow>
     swap_step s (Compositor_acquire b) (s\<lparr>sw := w, compositor_held := b # compositor_held s\<rparr>)"
| uncompose: "b \<in> set (compositor_held s) \<Longrightarrow> compositor_release b (sw s) = (Returns (), w) \<Longrightarrow>
     swap_step s (Compositor_release b)
       (s\<lparr>sw := w, compositor_held := remove1 b (compositor_held s), asleep := asleep s - 1\<rparr>)"
| shut: "swapper_shutdown (sw s) = (Returns (), w) \<Longrightarrow>
     swap_step s Shutdown (s\<lparr>sw := w, asleep := 0\<rparr>)"

inductive_cases swap_stepE: "swap_step s a t"

definition swap_start :: "swapper \<Rightarrow> swap_system" where
  "swap_start w = \<lparr>sw = w, client_held = [], compositor_held = [], asleep = 0\<rparr>"

text \<open>The states reached from a freshly constructed swapper.\<close>

inductive swap_reachable :: "buffer list \<Rightarrow> swap_system \<Rightarrow> bool" for bs where
  start: "new_swapper bs = Returns w \<Longrightarrow> swap_reachable bs (swap_start w)"
| step: "swap_reachable bs s \<Longrightarrow> swap_step s a t \<Longrightarrow> swap_reachable bs t"

text \<open>The same with one client thread, which does nothing while it is asleep; this is how a
  surface is used by the server.\<close>

definition client_action :: "swap_action \<Rightarrow> bool" where
  "client_action a \<longleftrightarrow> (case a of Client_acquire _ \<Rightarrow> True | Client_wait \<Rightarrow> True
      | Client_release _ \<Rightarrow> True | _ \<Rightarrow> False)"

inductive swap_reachable1 :: "buffer list \<Rightarrow> swap_system \<Rightarrow> bool" for bs where
  start1: "new_swapper bs = Returns w \<Longrightarrow> swap_reachable1 bs (swap_start w)"
| step1: "swap_reachable1 bs s \<Longrightarrow> swap_step s a t \<Longrightarrow> (client_action a \<Longrightarrow> asleep s = 0) \<Longrightarrow>
     swap_reachable1 bs t"

section \<open>Who owns which buffer\<close>

text \<open>
  Every buffer is in exactly one of four places: the client's queue, the compositor's queue,
  held by the client, held by the compositor. The counter agrees with what the client holds,
  and the client never holds all buffers.
\<close>

definition buffers_known :: "buffer list \<Rightarrow> swapper \<Rightarrow> bool" where
  "buffers_known bs w \<longleftrightarrow>
     length (buffers w) = length bs \<and> (\<forall>b \<in> set bs. map_of (buffers w) (buf_id b) = Some (Some b))"

definition all_places :: "swap_system \<Rightarrow> buffer_id multiset" where
  "all_places s = mset (client_queue (sw s)) + mset (compositor_queue (sw s))
     + mset (client_held s) + mset (compositor_held s)"

definition swap_inv :: "buffer list \<Rightarrow> swap_system \<Rightarrow> bool" where
  "swap_inv bs s \<longleftrightarrow>
     all_places s = mset (map buf_id bs)
     \<and> unat (in_use_by_client (sw s)) = length (client_held s)
     \<and> length (client_held s) < length bs
     \<and> buffers_known bs (sw s)"

subsection \<open>Construction\<close>

lemma fold_enqueue_initial:
  "fold enqueue_initial bs s =
     s\<lparr>buffers := fold (\<lambda>b. omap_set (buf_id b) (Some b)) bs (buffers s),
       client_queue := client_queue s @ map buf_id bs\<rparr>"
  by (induction bs arbitrary: s) (simp_all add: enqueue_initial_def)

lemma new_swapper_eq:
  "new_swapper bs =
     (if length bs = 2 \<or> length bs = 3
      then Returns \<lparr>buffers = fold (\<lambda>b. omap_set (buf_id b) (Some b)) bs [],
                    client_queue = map buf_id bs, compositor_queue = [], in_use_by_client = 0\<rparr>
      else Throws (logic_error ''BufferSwapperMulti is only validated for 2 or 3 buffers''))"
proof (cases "length bs = 2 \<or> length bs = 3")
  case True
  have "for_each (\<lambda>b. modify (enqueue_initial b)) bs swapper_zero
      = (Returns (), fold enqueue_initial bs swapper_zero)"
    by (rule for_each_fold) (simp add: modify_def)
  with True show ?thesis
    by (auto simp: new_swapper_def initialize_queues_def fold_enqueue_initial swapper_zero_def)
next
  case False
  then show ?thesis
    by (auto simp: new_swapper_def initialize_queues_def throw_def)
qed

lemma fold_omap_set_other:
  "k \<notin> f ` set xs \<Longrightarrow> map_of (fold (\<lambda>x. omap_set (f x) (g x)) xs m) k = map_of m k"
  by (induction xs arbitrary: m) auto

lemma fold_omap_set_same:
  "distinct (map f xs) \<Longrightarrow> x \<in> set xs \<Longrightarrow>
   map_of (fold (\<lambda>x. omap_set (f x) (g x)) xs m) (f x) = Some (g x)"
proof (induction xs arbitrary: m)
  case (Cons y ys)
  then show ?case by (cases "x = y") (auto simp: fold_omap_set_other)
qed simp

lemma fold_omap_set_length:
  "distinct (map f xs) \<Longrightarrow> length (fold (\<lambda>x. omap_set (f x) (g x)) xs []) = length xs"
proof -
  assume d: "distinct (map f xs)"
  have wf: "omap_wf (fold (\<lambda>x. omap_set (f x) (g x)) xs m)" if "omap_wf m" for m
    using that by (induction xs arbitrary: m) (auto intro: omap_wf_set)
  have "dom (map_of (fold (\<lambda>x. omap_set (f x) (g x)) xs m)) = f ` set xs \<union> dom (map_of m)" for m
    by (induction xs arbitrary: m) auto
  from this [of "[]"] have "card (dom (map_of (fold (\<lambda>x. omap_set (f x) (g x)) xs []))) = length xs"
    using d by (simp add: card_image distinct_map distinct_card)
  then show ?thesis
    using omap_length_card [OF wf [of "[]"]] by simp
qed

lemma new_swapper_length: "new_swapper bs = Returns w \<Longrightarrow> length bs = 2 \<or> length bs = 3"
  by (simp add: new_swapper_eq split: if_splits)

lemma swap_inv_start:
  assumes "new_swapper bs = Returns w" and "distinct (map buf_id bs)"
  shows "swap_inv bs (swap_start w)"
  using assms fold_omap_set_same [OF assms(2), where g = Some and m = "[]"]
    fold_omap_set_length [OF assms(2), where g = Some]
  by (auto simp: new_swapper_eq swap_inv_def swap_start_def all_places_def buffers_known_def
      split: if_splits)

subsection \<open>The waiting condition\<close>

lemma ucast_eq_pred:
  assumes "0 < n" and "n < 4294967296"
  shows "(ucast (x :: u32) :: u64) = of_nat n - 1 \<longleftrightarrow> unat x = n - 1"
proof -
  have n: "of_nat n - 1 = (of_nat (n - 1) :: u64)"
    using assms(1) by (simp add: of_nat_diff)
  have "unat (ucast x :: u64) = unat x"
    using unsigned_less [of x, where ?'a = nat] by (simp add: unsigned_ucast_eq take_bit_nat_eq_self)
  moreover have "unat (of_nat (n - 1) :: u64) = n - 1"
    using assms(2) by (simp add: unat_of_nat)
  ultimately show ?thesis
    unfolding n by (metis word_unat_eq_iff)
qed

lemma client_must_wait_iff:
  assumes "swap_inv bs s" and "length bs = 2 \<or> length bs = 3"
  shows "client_must_wait (sw s) \<longleftrightarrow> client_queue (sw s) = [] \<or> length (client_held s) = length bs - 1"
proof -
  have "0 < length bs" and "length bs < 4294967296"
    using assms(2) by auto
  from ucast_eq_pred [OF this, of "in_use_by_client (sw s)"] show ?thesis
    using assms(1) by (simp add: swap_inv_def buffers_known_def client_must_wait_def)
qed

subsection \<open>The operations, by their effect on the queues\<close>

lemma client_acquire_cases:
  assumes "client_acquire w = (Returns (r, b), w')"
  shows "\<not> client_must_wait w" and "client_queue w = b # client_queue w'"
    and "compositor_queue w' = compositor_queue w" and "in_use_by_client w' = in_use_by_client w + 1"
    and "(r, buffers w') = omap_at b None (buffers w)"
proof -
  have nw: "\<not> client_must_wait w"
    using assms by (auto simp: client_acquire_def split: if_splits)
  then have ne: "client_queue w \<noteq> []"
    by (simp add: client_must_wait_def)
  show "\<not> client_must_wait w" by (rule nw)
  show "client_queue w = b # client_queue w'" "compositor_queue w' = compositor_queue w"
    "in_use_by_client w' = in_use_by_client w + 1" "(r, buffers w') = omap_at b None (buffers w)"
    using assms nw ne by (auto simp: client_acquire_def Let_def case_prod_beta)
qed

lemma client_acquire_Blocks:
  "client_acquire w = (Blocks, w') \<longleftrightarrow> client_must_wait w \<and> w' = w"
  by (auto simp: client_acquire_def Let_def case_prod_beta)

lemma compositor_acquire_cases:
  assumes "compositor_acquire w = (Returns (r, b), w')"
  obtains (posted) "compositor_queue w = b # compositor_queue w'" and "client_queue w' = client_queue w"
      and "in_use_by_client w' = in_use_by_client w" and "(r, buffers w') = omap_at b None (buffers w)"
  | (again) "compositor_queue w = []" and "compositor_queue w' = []"
      and "client_queue w = client_queue w' @ [b]"
      and "in_use_by_client w' = in_use_by_client w" and "(r, buffers w') = omap_at b None (buffers w)"
proof (cases "compositor_queue w")
  case Nil
  with assms have ne: "client_queue w \<noteq> []"
    by (auto simp: compositor_acquire_def split: if_splits)
  with Nil assms show ?thesis
    by (intro again) (auto simp: compositor_acquire_def Let_def case_prod_beta)
next
  case (Cons x xs)
  with assms show ?thesis
    by (intro posted) (auto simp: compositor_acquire_def Let_def case_prod_beta)
qed

lemma compositor_acquire_Undefined:
  "fst (compositor_acquire w) = Undefined m \<longleftrightarrow>
     client_queue w = [] \<and> compositor_queue w = [] \<and> m = ''back() of an empty client_queue''"
  by (auto simp: compositor_acquire_def Let_def case_prod_beta)

lemma compositor_acquire_Returns:
  "(\<exists>r b. fst (compositor_acquire w) = Returns (r, b)) \<longleftrightarrow>
     client_queue w \<noteq> [] \<or> compositor_queue w \<noteq> []"
  by (auto simp: compositor_acquire_def Let_def case_prod_beta)

lemma swapper_shutdown_Undefined:
  "fst (swapper_shutdown w) = Undefined m \<longleftrightarrow>
     client_queue w = [] \<and> compositor_queue w = [] \<and> m = ''front() of an empty compositor_queue''"
  by (auto simp: swapper_shutdown_def)

lemma swapper_shutdown_cases:
  assumes "swapper_shutdown w = (Returns (), w')"
  obtains (idle) "client_queue w \<noteq> []" and "w' = w"
  | (moved) b where "client_queue w = []" and "compositor_queue w = b # compositor_queue w'"
      and "client_queue w' = [b]" and "in_use_by_client w' = in_use_by_client w"
      and "buffers w' = buffers w"
proof (cases "client_queue w = []")
  case True
  with assms have "compositor_queue w \<noteq> []"
    by (auto simp: swapper_shutdown_def split: if_splits)
  with True assms show ?thesis
    by (intro moved [of "hd (compositor_queue w)"]) (auto simp: swapper_shutdown_def)
next
  case False
  with assms show ?thesis by (intro idle) (auto simp: swapper_shutdown_def)
qed

subsection \<open>Every step keeps the ownership invariant\<close>

lemma swap_inv_known:
  assumes "swap_inv bs s" and "x \<in># all_places s"
  obtains b where "b \<in> set bs" and "buf_id b = x" and "omap_at x None (buffers (sw s)) = (Some b, buffers (sw s))"
proof -
  from assms have "x \<in> buf_id ` set bs"
    by (simp add: swap_inv_def)
  then obtain b where b: "b \<in> set bs" "buf_id b = x" by auto
  then have "map_of (buffers (sw s)) x = Some (Some b)"
    using assms(1) by (auto simp: swap_inv_def buffers_known_def)
  then have "omap_at x None (buffers (sw s)) = (Some b, buffers (sw s))"
    by simp
  with b show ?thesis by (rule that)
qed

lemma unat_succ_u32: "unat (x :: u32) < 4294967295 \<Longrightarrow> unat (x + 1) = Suc (unat x)"
  by (simp add: unat_word_ariths)

lemma unat_pred_u32: "0 < unat (x :: u32) \<Longrightarrow> unat (x - 1) = unat x - 1"
  by (simp add: unat_minus_one unat_gt_0)

lemma swap_inv_step:
  assumes "swap_step s a t" and inv: "swap_inv bs s" and len: "length bs = 2 \<or> length bs = 3"
  shows "swap_inv bs t"
  using assms(1)
proof (cases rule: swap_step.cases)
  case (acquire r b w)
  note ca = client_acquire_cases [OF acquire(3)]
  have "b \<in># all_places s" using ca(2) by (simp add: all_places_def)
  then obtain b' where "omap_at b None (buffers (sw s)) = (Some b', buffers (sw s))"
    using inv by (elim swap_inv_known)
  then have bufs: "buffers w = buffers (sw s)" using ca(5) by simp
  have held: "Suc (length (client_held s)) < length bs"
    using ca(1) client_must_wait_iff [OF inv len] inv by (auto simp: swap_inv_def)
  have "unat (in_use_by_client (sw s)) < 4294967295"
    using inv len by (auto simp: swap_inv_def)
  from unat_succ_u32 [OF this] show ?thesis
    using acquire(2) inv held bufs ca
    by (auto simp: swap_inv_def all_places_def buffers_known_def ac_simps)
next
  case (wait w)
  then show ?thesis
    using inv by (auto simp: client_acquire_Blocks swap_inv_def all_places_def buffers_known_def)
next
  case (release b w)
  have "0 < unat (in_use_by_client (sw s))"
    using release(3) inv by (auto simp: swap_inv_def)
  from unat_pred_u32 [OF this] show ?thesis
    using release inv
    by (auto simp: swap_inv_def all_places_def buffers_known_def client_release_def modify_def
        length_remove1 ac_simps insert_DiffM)
next
  case (compose r b w)
  have bufs: "buffers w = buffers (sw s)"
  proof -
    have "b \<in># all_places s"
      using compose(3) by (auto simp: all_places_def elim!: compositor_acquire_cases)
    then obtain b' where "omap_at b None (buffers (sw s)) = (Some b', buffers (sw s))"
      using inv by (elim swap_inv_known)
    then show ?thesis using compose(3) by (auto elim!: compositor_acquire_cases)
  qed
  from compose(3) show ?thesis
    by (cases rule: compositor_acquire_cases)
      (use compose(2) inv bufs in \<open>auto simp: swap_inv_def all_places_def buffers_known_def ac_simps\<close>)
next
  case (uncompose b w)
  then show ?thesis
    using inv
    by (auto simp: swap_inv_def all_places_def buffers_known_def compositor_release_def modify_def
        ac_simps insert_DiffM)
next
  case (shut w)
  from shut(3) show ?thesis
    by (cases rule: swapper_shutdown_cases)
      (use shut(2) inv in \<open>auto simp: swap_inv_def all_places_def buffers_known_def ac_simps\<close>)
qed

lemma swap_reachable_inv:
  assumes "swap_reachable bs s" and "distinct (map buf_id bs)"
  shows "swap_inv bs s \<and> (length bs = 2 \<or> length bs = 3)"
  using assms(1)
proof (induction rule: swap_reachable.induct)
  case (start w)
  then show ?case
    using assms(2) by (simp add: swap_inv_start new_swapper_length)
next
  case (step s a t)
  then show ?case by (auto intro: swap_inv_step)
qed

section \<open>The contract: ownership transfer with posted frames in order\<close>

text \<open>
  What a swapper promises its two sides, without queues for the free buffers: the client takes
  any free buffer as long as one buffer stays for the compositor; frames are shown in the
  order in which they were posted; without a new frame the compositor takes a free buffer.
\<close>

record ownership =
  own_free :: "buffer_id set"
  own_posted :: "buffer_id list"
  own_client :: "buffer_id set"
  own_compositor :: "buffer_id set"

inductive own_step :: "nat \<Rightarrow> ownership \<Rightarrow> swap_action \<Rightarrow> ownership \<Rightarrow> bool" for n where
  "b \<in> own_free o1 \<Longrightarrow> Suc (card (own_client o1)) < n \<Longrightarrow>
     own_step n o1 (Client_acquire b) (o1\<lparr>own_free := own_free o1 - {b}, own_client := insert b (own_client o1)\<rparr>)"
| "own_free o1 = {} \<or> Suc (card (own_client o1)) = n \<Longrightarrow> own_step n o1 Client_wait o1"
| "b \<in> own_client o1 \<Longrightarrow>
     own_step n o1 (Client_release b) (o1\<lparr>own_client := own_client o1 - {b}, own_posted := own_posted o1 @ [b]\<rparr>)"
| "own_posted o1 = b # ps \<Longrightarrow>
     own_step n o1 (Compositor_acquire b) (o1\<lparr>own_posted := ps, own_compositor := insert b (own_compositor o1)\<rparr>)"
| "own_posted o1 = [] \<Longrightarrow> b \<in> own_free o1 \<Longrightarrow>
     own_step n o1 (Compositor_acquire b)
       (o1\<lparr>own_free := own_free o1 - {b}, own_compositor := insert b (own_compositor o1)\<rparr>)"
| "b \<in> own_compositor o1 \<Longrightarrow>
     own_step n o1 (Compositor_release b)
       (o1\<lparr>own_compositor := own_compositor o1 - {b}, own_free := insert b (own_free o1)\<rparr>)"
| "own_free o1 \<noteq> {} \<Longrightarrow> own_step n o1 Shutdown o1"
| "own_free o1 = {} \<Longrightarrow> own_posted o1 = b # ps \<Longrightarrow>
     own_step n o1 Shutdown (o1\<lparr>own_free := {b}, own_posted := ps\<rparr>)"

definition abs_swap :: "swap_system \<Rightarrow> ownership" where
  "abs_swap s = \<lparr>own_free = set (client_queue (sw s)), own_posted = compositor_queue (sw s),
                 own_client = set (client_held s), own_compositor = set (compositor_held s)\<rparr>"

lemma swap_inv_distinct:
  assumes "swap_inv bs s" and "distinct (map buf_id bs)"
  shows "distinct (client_queue (sw s) @ compositor_queue (sw s) @ client_held s @ compositor_held s)"
proof -
  have "mset (client_queue (sw s) @ compositor_queue (sw s) @ client_held s @ compositor_held s)
      = mset (map buf_id bs)"
    using assms(1) by (simp add: swap_inv_def all_places_def ac_simps)
  then show ?thesis
    using assms(2) mset_eq_imp_distinct_iff by blast
qed

lemma swap_inv_card_client:
  assumes "swap_inv bs s" and "distinct (map buf_id bs)"
  shows "card (set (client_held s)) = length (client_held s)"
  using swap_inv_distinct [OF assms] by (simp add: distinct_card)

lemma abs_swap_step:
  assumes step: "swap_step s a t" and inv: "swap_inv bs s" and len: "length bs = 2 \<or> length bs = 3"
    and dist: "distinct (map buf_id bs)"
  shows "own_step (length bs) (abs_swap s) a (abs_swap t)"
proof -
  note d = swap_inv_distinct [OF inv dist]
  note card = swap_inv_card_client [OF inv dist]
  show ?thesis
    using step
  proof (cases rule: swap_step.cases)
    case (acquire r b w)
    note ca = client_acquire_cases [OF acquire(3)]
    have "Suc (length (client_held s)) < length bs"
      using ca(1) client_must_wait_iff [OF inv len] inv by (auto simp: swap_inv_def)
    then have "own_step (length bs) (abs_swap s) (Client_acquire b)
        ((abs_swap s)\<lparr>own_free := own_free (abs_swap s) - {b},
                      own_client := insert b (own_client (abs_swap s))\<rparr>)"
      using ca(2) card by (intro own_step.intros) (auto simp: abs_swap_def)
    then show ?thesis
      using acquire ca d by (auto simp: abs_swap_def)
  next
    case (wait w)
    then have "own_free (abs_swap s) = {} \<or> Suc (card (own_client (abs_swap s))) = length bs"
      using client_must_wait_iff [OF inv len] card len
      by (auto simp: client_acquire_Blocks abs_swap_def)
    from own_step.intros(2) [OF this] show ?thesis
      using wait by (auto simp: client_acquire_Blocks abs_swap_def)
  next
    case (release b w)
    then have "own_step (length bs) (abs_swap s) (Client_release b)
        ((abs_swap s)\<lparr>own_client := own_client (abs_swap s) - {b},
                      own_posted := own_posted (abs_swap s) @ [b]\<rparr>)"
      by (intro own_step.intros) (auto simp: abs_swap_def)
    then show ?thesis
      using release d by (auto simp: abs_swap_def client_release_def modify_def)
  next
    case (compose r b w)
    from compose(3) show ?thesis
    proof (cases rule: compositor_acquire_cases)
      case posted
      then have "own_posted (abs_swap s) = b # compositor_queue w" by (simp add: abs_swap_def)
      from own_step.intros(4) [OF this] show ?thesis
        using compose posted by (auto simp: abs_swap_def)
    next
      case again
      then have "own_posted (abs_swap s) = []" and "b \<in> own_free (abs_swap s)"
        by (simp_all add: abs_swap_def)
      from own_step.intros(5) [OF this] show ?thesis
        using compose again d by (auto simp: abs_swap_def)
    qed
  next
    case (uncompose b w)
    then have "own_step (length bs) (abs_swap s) (Compositor_release b)
        ((abs_swap s)\<lparr>own_compositor := own_compositor (abs_swap s) - {b},
                      own_free := insert b (own_free (abs_swap s))\<rparr>)"
      by (intro own_step.intros) (auto simp: abs_swap_def)
    then show ?thesis
      using uncompose d by (auto simp: abs_swap_def compositor_release_def modify_def)
  next
    case (shut w)
    from shut(3) show ?thesis
    proof (cases rule: swapper_shutdown_cases)
      case idle
      then show ?thesis
        using shut own_step.intros(7) [of "abs_swap s"] by (simp add: abs_swap_def)
    next
      case (moved b)
      then have "own_free (abs_swap s) = {}" and "own_posted (abs_swap s) = b # compositor_queue w"
        by (simp_all add: abs_swap_def)
      from own_step.intros(8) [OF this] show ?thesis
        using shut moved by (simp add: abs_swap_def)
    qed
  qed
qed

section \<open>Waiting clients\<close>

lemma swap_reachable1_reachable: "swap_reachable1 bs s \<Longrightarrow> swap_reachable bs s"
proof (induction rule: swap_reachable1.induct)
  case (start1 w)
  then show ?case by (rule swap_reachable.start)
next
  case (step1 s a t)
  from step1.IH step1.hyps(2) show ?case by (rule swap_reachable.step)
qed

text \<open>With one client thread, a sleeping client still has a reason to wait: the state does not
  change under it in a way that needs a signal it did not get.\<close>

lemma compositor_acquire_must_wait:
  assumes "compositor_acquire w = (Returns (r, b), w')" and "client_must_wait w"
    and "buffers w' = buffers w"
  shows "client_must_wait w'"
  using assms(1)
  by (cases rule: compositor_acquire_cases) (use assms(2,3) in \<open>auto simp: client_must_wait_def\<close>)

lemma compositor_acquire_buffers:
  assumes "swap_inv bs s" and "compositor_acquire (sw s) = (Returns (r, b), w')"
  shows "buffers w' = buffers (sw s)" and "\<exists>b'. r = Some b' \<and> buf_id b' = b"
proof -
  have "b \<in># all_places s"
    using assms(2) by (auto simp: all_places_def elim!: compositor_acquire_cases)
  then obtain b' where "buf_id b' = b" "omap_at b None (buffers (sw s)) = (Some b', buffers (sw s))"
    using assms(1) by (elim swap_inv_known)
  then show "buffers w' = buffers (sw s)" and "\<exists>b'. r = Some b' \<and> buf_id b' = b"
    using assms(2) by (auto elim!: compositor_acquire_cases)
qed

lemma client_acquire_buffers:
  assumes "swap_inv bs s" and "client_acquire (sw s) = (Returns (r, b), w')"
  shows "buffers w' = buffers (sw s)" and "\<exists>b'. r = Some b' \<and> buf_id b' = b"
proof -
  note ca = client_acquire_cases [OF assms(2)]
  have "b \<in># all_places s"
    using ca(2) by (simp add: all_places_def)
  then obtain b' where "buf_id b' = b" "omap_at b None (buffers (sw s)) = (Some b', buffers (sw s))"
    using assms(1) by (elim swap_inv_known)
  then show "buffers w' = buffers (sw s)" and "\<exists>b'. r = Some b' \<and> buf_id b' = b"
    using ca(5) by auto
qed

lemma sleeper_must_wait:
  assumes "swap_reachable1 bs s" and "distinct (map buf_id bs)"
  shows "asleep s \<le> 1 \<and> (asleep s = 1 \<longrightarrow> client_must_wait (sw s))"
  using assms(1)
proof (induction rule: swap_reachable1.induct)
  case (start1 w)
  then show ?case by (simp add: swap_start_def)
next
  case (step1 s a t)
  have inv: "swap_inv bs s"
    using swap_reachable_inv [OF swap_reachable1_reachable [OF step1.hyps(1)] assms(2)] by simp
  from step1.hyps(2) show ?case
  proof (cases rule: swap_step.cases)
    case (compose r b w)
    have "client_must_wait (sw s) \<Longrightarrow> client_must_wait w"
      by (rule compositor_acquire_must_wait [OF compose(3) _ compositor_acquire_buffers(1) [OF inv compose(3)]])
    then show ?thesis
      using step1.IH compose(2) by simp
  qed (use step1 in \<open>auto simp: client_action_def client_acquire_Blocks\<close>)
qed

lemma compositor_acquire_possible:
  assumes "swap_inv bs s" and "compositor_held s = []"
  obtains r b w where "compositor_acquire (sw s) = (Returns (r, b), w)"
proof -
  have "size (all_places s) = length bs"
    using assms(1) by (simp add: swap_inv_def)
  then have "client_queue (sw s) \<noteq> [] \<or> compositor_queue (sw s) \<noteq> []"
    using assms by (auto simp: swap_inv_def all_places_def)
  then obtain r b where "fst (compositor_acquire (sw s)) = Returns (r, b)"
    using compositor_acquire_Returns [of "sw s"] by blast
  then show ?thesis
    using that by (metis prod.collapse)
qed

lemma client_acquire_possible:
  assumes "swap_inv bs s" and "length bs = 2 \<or> length bs = 3"
    and "client_queue (sw s) \<noteq> []" and "Suc (length (client_held s)) < length bs"
  shows "\<exists>r i w. client_acquire (sw s) = (Returns (r, i), w)"
  using client_must_wait_iff [OF assms(1,2)] assms(3,4)
  by (auto simp: client_acquire_def Let_def case_prod_beta)

lemma shutdown_defined_iff:
  assumes "swap_reachable bs s" and "distinct (map buf_id bs)"
  shows "fst (swapper_shutdown (sw s)) = Returns () \<longleftrightarrow>
    length (client_held s) + length (compositor_held s) < length bs"
proof -
  have "size (all_places s) = length bs"
    using swap_reachable_inv [OF assms] by (simp add: swap_inv_def)
  then have "length (client_queue (sw s)) + length (compositor_queue (sw s))
      + length (client_held s) + length (compositor_held s) = length bs"
    by (simp add: all_places_def)
  then show ?thesis
    by (cases "client_queue (sw s)"; cases "compositor_queue (sw s)") (auto simp: swapper_shutdown_def)
qed

lemma both_hold_reachable:
  assumes "length bs = 2" and "distinct (map buf_id bs)"
  shows "\<exists>s. swap_reachable bs s \<and> length (client_held s) = 1 \<and> length (compositor_held s) = 1
    \<and> client_queue (sw s) = [] \<and> compositor_queue (sw s) = []"
proof -
  obtain w where w: "new_swapper bs = Returns w" "client_queue w = map buf_id bs"
    using assms(1) by (simp add: new_swapper_eq)
  have s: "swap_reachable bs (swap_start w)"
    using w(1) by (rule swap_reachable.start)
  have "client_queue (sw (swap_start w)) \<noteq> []" "Suc (length (client_held (swap_start w))) < length bs"
    using w(2) assms(1) by (auto simp: swap_start_def)
  then obtain r i w1 where "client_acquire (sw (swap_start w)) = (Returns (r, i), w1)"
    using client_acquire_possible [of bs "swap_start w"] swap_reachable_inv [OF s assms(2)] by blast
  from swap_step.acquire [OF this] obtain s1 where
    "swap_step (swap_start w) (Client_acquire i) s1" and h1: "length (client_held s1) = 1" "compositor_held s1 = []"
    by (auto simp: swap_start_def)
  with s have s1: "swap_reachable bs s1" by (blast intro: swap_reachable.step)
  then obtain r' i' w2 where "compositor_acquire (sw s1) = (Returns (r', i'), w2)"
    using compositor_acquire_possible [of bs s1] swap_reachable_inv [OF s1 assms(2)] h1 by metis
  from swap_step.compose [OF this] obtain s2 where
    "swap_step s1 (Compositor_acquire i') s2" and h2: "length (client_held s2) = 1" "length (compositor_held s2) = 1"
    using h1 by auto
  with s1 have s2: "swap_reachable bs s2" by (blast intro: swap_reachable.step)
  have "size (all_places s2) = 2"
    using swap_reachable_inv [OF s2 assms(2)] assms(1) by (simp add: swap_inv_def)
  then show ?thesis
    using s2 h2 by (auto simp: all_places_def)
qed

section \<open>What the compositor shows\<close>

text \<open>
  The swapper of a surface that is not being destroyed, under one compositor that holds at most
  one of its buffers at a time; \<open>shown\<close> remembers the buffer it acquired last.
\<close>

inductive frame_run :: "buffer list \<Rightarrow> swap_system \<Rightarrow> buffer_id option \<Rightarrow> bool" for bs where
  first: "new_swapper bs = Returns w \<Longrightarrow> frame_run bs (swap_start w) None"
| frame: "frame_run bs s x \<Longrightarrow> compositor_held s = [] \<Longrightarrow> swap_step s (Compositor_acquire b) t
     \<Longrightarrow> frame_run bs t (Some b)"
| other: "frame_run bs s x \<Longrightarrow> swap_step s a t \<Longrightarrow> (\<And>b. a \<noteq> Compositor_acquire b) \<Longrightarrow> a \<noteq> Shutdown
     \<Longrightarrow> frame_run bs t x"

definition last_frame_kept :: "swap_system \<Rightarrow> buffer_id option \<Rightarrow> bool" where
  "last_frame_kept s x \<longleftrightarrow>
     (case x of None \<Rightarrow> compositor_held s = []
      | Some b \<Rightarrow> compositor_held s = [b]
          \<or> compositor_held s = []
            \<and> (compositor_queue (sw s) = [] \<longrightarrow> client_queue (sw s) \<noteq> [] \<and> last (client_queue (sw s)) = b))"

lemma frame_run_reachable: "frame_run bs s x \<Longrightarrow> swap_reachable bs s"
proof (induction rule: frame_run.induct)
  case (first w)
  then show ?case by (rule swap_reachable.start)
next
  case (frame s x b t)
  from frame.IH frame.hyps(3) show ?case by (rule swap_reachable.step)
next
  case (other s x a t)
  from other.IH other.hyps(2) show ?case by (rule swap_reachable.step)
qed

lemma client_acquire_leaves_two:
  assumes inv: "swap_inv bs s" and len: "length bs = 2 \<or> length bs = 3"
    and "client_acquire (sw s) = (Returns (r, b), w)"
    and idle: "compositor_queue (sw s) = []" "compositor_held s = []"
  shows "client_queue w \<noteq> []"
proof -
  note ca = client_acquire_cases [OF assms(3)]
  have "Suc (length (client_held s)) < length bs"
    using ca(1) client_must_wait_iff [OF inv len] inv by (auto simp: swap_inv_def)
  moreover have "size (all_places s) = length bs"
    using inv by (simp add: swap_inv_def)
  ultimately show ?thesis
    using ca(2) idle by (auto simp: all_places_def)
qed

lemma frame_run_last_frame:
  assumes "frame_run bs s x" and dist: "distinct (map buf_id bs)"
  shows "last_frame_kept s x"
  using assms(1)
proof (induction rule: frame_run.induct)
  case (first w)
  then show ?case by (simp add: last_frame_kept_def swap_start_def)
next
  case (frame s x b t)
  from frame.hyps(3) show ?case
    by (cases rule: swap_step.cases) (use frame.hyps(2) in \<open>simp_all add: last_frame_kept_def\<close>)
next
  case (other s x a t)
  have inv: "swap_inv bs s" and len: "length bs = 2 \<or> length bs = 3"
    using swap_reachable_inv [OF frame_run_reachable [OF other.hyps(1)] dist] by simp_all
  from other.hyps(2) show ?case
  proof (cases rule: swap_step.cases)
    case (acquire r b w)
    note ca = client_acquire_cases [OF acquire(3)]
    show ?thesis
    proof (cases "compositor_queue (sw s) = [] \<and> compositor_held s = []")
      case True
      then have "client_queue w \<noteq> []"
        using client_acquire_leaves_two [OF inv len acquire(3)] by simp
      then show ?thesis
        using other.IH acquire(2) ca(2,3) True by (auto simp: last_frame_kept_def split: option.splits)
    next
      case False
      then show ?thesis
        using other.IH acquire(2) ca(2,3) by (auto simp: last_frame_kept_def split: option.splits)
    qed
  qed (use other in \<open>auto simp: last_frame_kept_def client_acquire_Blocks client_release_def
         compositor_release_def modify_def split: option.splits\<close>)
qed

section \<open>The interface of one side of a swapper\<close>

text \<open>
  The client and the compositor use a swapper through the same contract: an acquired buffer
  leaves the pool of buffers that nobody holds, a call that does not return a buffer changes
  nothing, a released buffer is back in the pool.
\<close>

locale buffer_pool =
  fixes acquire :: "('s, 'h) proc"
    and release :: "'h \<Rightarrow> ('s, unit) proc"
    and key :: "'h \<Rightarrow> 'b"
    and pool :: "'s \<Rightarrow> 'b multiset"
  assumes acquire_pool: "acquire s = (Returns h, t) \<Longrightarrow> pool s = add_mset (key h) (pool t)"
    and acquire_stops: "acquire s = (x, t) \<Longrightarrow> (\<And>h. x \<noteq> Returns h) \<Longrightarrow> t = s"
    and release_pool: "pool (snd (release h s)) = add_mset (key h) (pool s)"
    and release_returns: "fst (release h s) = Returns ()"
begin

lemma scoped_use: "acquire s = (Returns h, t) \<Longrightarrow> pool (snd (release h t)) = pool s"
  by (simp add: acquire_pool release_pool)

lemma exchange:
  assumes "acquire (snd (release g s)) = (Returns h, t)"
  shows "add_mset (key h) (pool t) = add_mset (key g) (pool s)"
  using acquire_pool [OF assms] by (simp add: release_pool)

lemma exchange_stops:
  assumes "acquire (snd (release g s)) = (x, t)" and "\<And>h. x \<noteq> Returns h"
  shows "pool t = add_mset (key g) (pool s)"
  using acquire_stops [OF assms] by (simp add: release_pool)

lemma empty_pool_stops: "pool s = {#} \<Longrightarrow> acquire s \<noteq> (Returns h, t)"
  using acquire_pool [of s h t] by auto

end

text \<open>A pool that is a part of a larger state is one of the larger state.\<close>

locale zoomed_pool = buffer_pool acquire release key pool
  for acquire :: "('t, 'h) proc" and release :: "'h \<Rightarrow> ('t, unit) proc"
    and key :: "'h \<Rightarrow> 'b" and pool :: "'t \<Rightarrow> 'b multiset" +
  fixes part :: "'s \<Rightarrow> 't" and put :: "'t \<Rightarrow> 's \<Rightarrow> 's"
  assumes part_put: "part (put t s) = t"
    and put_part: "put (part s) s = s"
begin

lemma zoomed_acquire: "zoom part put acquire s = (x, u) \<longleftrightarrow> (\<exists>t. acquire (part s) = (x, t) \<and> u = put t s)"
  by (auto simp: zoom_def split: prod.splits)

end

sublocale zoomed_pool \<subseteq> zoomed: buffer_pool "zoom part put acquire" "\<lambda>h. zoom part put (release h)"
  key "\<lambda>s. pool (part s)"
proof
  fix s h u
  assume "zoom part put acquire s = (Returns h, u)"
  then show "pool (part s) = add_mset (key h) (pool (part u))"
    by (auto simp: zoomed_acquire part_put dest: acquire_pool)
next
  fix s u x
  assume *: "zoom part put acquire s = (x, u)" "\<And>h. x \<noteq> Returns h"
  then obtain t where "acquire (part s) = (x, t)" "u = put t s"
    by (auto simp: zoomed_acquire)
  with acquire_stops [of "part s" x t] *(2) show "u = s"
    by (simp add: put_part)
next
  fix h s
  show "pool (part (snd (zoom part put (release h) s))) = add_mset (key h) (pool (part s))"
    by (simp add: zoom_def case_prod_beta part_put release_pool)
  show "fst (zoom part put (release h) s) = Returns ()"
    by (simp add: zoom_def case_prod_beta release_returns)
qed

definition idle_buffers :: "swapper \<Rightarrow> buffer_id multiset" where
  "idle_buffers w = mset (client_queue w) + mset (compositor_queue w)"

interpretation client_side: buffer_pool client_acquire "\<lambda>h. client_release (snd h)" snd idle_buffers
proof
  fix w h w'
  assume "client_acquire w = (Returns h, w')"
  then show "idle_buffers w = add_mset (snd h) (idle_buffers w')"
    using client_acquire_cases(2,3) [of w "fst h" "snd h" w'] by (simp add: idle_buffers_def)
next
  fix w w' and x :: "(buffer option \<times> buffer_id) res"
  assume "client_acquire w = (x, w')" and "\<And>p. x \<noteq> Returns p"
  then show "w' = w"
    by (auto simp: client_acquire_def Let_def case_prod_beta split: if_splits)
qed (simp_all add: idle_buffers_def client_release_def modify_def)

interpretation compositor_side: buffer_pool compositor_acquire "\<lambda>h. compositor_release (snd h)" snd idle_buffers
proof
  fix w h w'
  assume "compositor_acquire w = (Returns h, w')"
  then have "compositor_acquire w = (Returns (fst h, snd h), w')" by simp
  then show "idle_buffers w = add_mset (snd h) (idle_buffers w')"
    by (cases rule: compositor_acquire_cases) (simp_all add: idle_buffers_def)
next
  fix w w' and x :: "(buffer option \<times> buffer_id) res"
  assume "compositor_acquire w = (x, w')" and "\<And>p. x \<noteq> Returns p"
  then show "w' = w"
    by (auto simp: compositor_acquire_def Let_def case_prod_beta split: if_splits)
qed (simp_all add: idle_buffers_def compositor_release_def modify_def)

section \<open>Properties\<close>

text \<open>Two buffers of a surface, for concrete instances.\<close>

definition sample_buffer :: "u32 \<Rightarrow> buffer" where
  "sample_buffer i = \<lparr>buf_id = i, buf_size = size_zero, buf_stride = 0, buf_pixel_format = argb_8888,
     buf_ipc_package = \<lparr>ipc_data = [], ipc_fds = [], ipc_stride = 0\<rparr>\<rparr>"

definition sample_swapper :: swapper where
  "sample_swapper = \<lparr>buffers = [(1, Some (sample_buffer 1)), (2, Some (sample_buffer 2))],
     client_queue = [1, 2], compositor_queue = [], in_use_by_client = 0\<rparr>"

lemma new_sample_swapper: "new_swapper [sample_buffer 1, sample_buffer 2] = Returns sample_swapper"
  by (simp add: new_swapper_eq sample_swapper_def sample_buffer_def)

text \<open>An executable schedule of the step relation: \<open>None\<close> when the action is not possible. The
  client does nothing while it is asleep, the compositor holds one buffer at a time.\<close>

fun swap_do :: "swap_system \<Rightarrow> swap_action \<Rightarrow> swap_system option" where
  "swap_do s (Client_acquire b) = (case client_acquire (sw s) of
     (Returns (r, b'), w) \<Rightarrow>
       if b' = b \<and> asleep s = 0 then Some (s\<lparr>sw := w, client_held := b # client_held s\<rparr>) else None
   | _ \<Rightarrow> None)"
| "swap_do s Client_wait =
     (if client_must_wait (sw s) \<and> asleep s = 0 then Some (s\<lparr>asleep := Suc (asleep s)\<rparr>) else None)"
| "swap_do s (Client_release b) =
     (if b \<in> set (client_held s) \<and> asleep s = 0
      then Some (s\<lparr>sw := snd (client_release b (sw s)), client_held := remove1 b (client_held s)\<rparr>) else None)"
| "swap_do s (Compositor_acquire b) = (case compositor_acquire (sw s) of
     (Returns (r, b'), w) \<Rightarrow>
       if b' = b \<and> compositor_held s = []
       then Some (s\<lparr>sw := w, compositor_held := b # compositor_held s\<rparr>) else None
   | _ \<Rightarrow> None)"
| "swap_do s (Compositor_release b) =
     (if b \<in> set (compositor_held s)
      then Some (s\<lparr>sw := snd (compositor_release b (sw s)),
                   compositor_held := remove1 b (compositor_held s), asleep := asleep s - 1\<rparr>) else None)"
| "swap_do s Shutdown = None"

fun swap_run :: "swap_system \<Rightarrow> swap_action list \<Rightarrow> swap_system option" where
  "swap_run s [] = Some s"
| "swap_run s (a # as) = (case swap_do s a of None \<Rightarrow> None | Some t \<Rightarrow> swap_run t as)"

lemma swap_do_step:
  assumes "swap_do s a = Some t"
  shows "swap_step s a t \<and> (client_action a \<longrightarrow> asleep s = 0) \<and> a \<noteq> Shutdown
    \<and> (\<forall>b. a = Compositor_acquire b \<longrightarrow> compositor_held s = [])"
proof (cases a)
  case (Client_acquire b)
  with assms show ?thesis
    by (auto split: prod.splits res.splits if_splits intro: swap_step.acquire)
next
  case Client_wait
  with assms swap_step.wait [of s "sw s"] show ?thesis
    by (auto simp: client_acquire_Blocks split: if_splits)
next
  case (Client_release b)
  with assms show ?thesis
    by (auto simp: client_release_def modify_def split: if_splits intro!: swap_step.release)
next
  case (Compositor_acquire b)
  with assms obtain r w where "compositor_acquire (sw s) = (Returns (r, b), w)" "compositor_held s = []"
      "t = s\<lparr>sw := w, compositor_held := b # compositor_held s\<rparr>"
    by (auto split: prod.splits res.splits if_splits)
  with swap_step.compose [of s r b w] Compositor_acquire show ?thesis
    by (simp add: client_action_def)
next
  case (Compositor_release b)
  with assms swap_step.uncompose [of b s "snd (compositor_release b (sw s))"] show ?thesis
    by (auto simp: client_action_def compositor_release_def modify_def split: if_splits)
next
  case Shutdown
  with assms show ?thesis by simp
qed

lemma swap_run_reachable1:
  "swap_reachable1 bs s \<Longrightarrow> swap_run s as = Some t \<Longrightarrow> swap_reachable1 bs t"
proof (induction as arbitrary: s)
  case (Cons a as)
  from Cons.prems(2) obtain u where u: "swap_do s a = Some u" "swap_run u as = Some t"
    by (auto split: option.splits)
  have "swap_reachable1 bs u"
    using swap_reachable1.step1 [OF Cons.prems(1)] swap_do_step [OF u(1)] by blast
  then show ?case
    using u(2) by (rule Cons.IH)
qed simp

lemma swap_run_frame_run:
  "frame_run bs s x \<Longrightarrow> swap_run s as = Some t \<Longrightarrow>
   \<exists>y. frame_run bs t y \<and> ((\<exists>b. Compositor_acquire b \<in> set as) \<or> x \<noteq> None \<longrightarrow> y \<noteq> None)"
proof (induction as arbitrary: s x)
  case (Cons a as)
  from Cons.prems(2) obtain u where u: "swap_do s a = Some u" "swap_run u as = Some t"
    by (auto split: option.splits)
  obtain x' where x': "frame_run bs u x'" "(\<exists>b. a = Compositor_acquire b) \<or> x \<noteq> None \<longrightarrow> x' \<noteq> None"
  proof (cases "\<exists>b. a = Compositor_acquire b")
    case True
    then obtain b where b: "a = Compositor_acquire b" by blast
    with swap_do_step [OF u(1)] have "frame_run bs u (Some b)"
      by (intro frame_run.frame [OF Cons.prems(1)]) auto
    then show ?thesis by (rule that) simp
  next
    case False
    then have "frame_run bs u x"
      using swap_do_step [OF u(1)] by (intro frame_run.other [OF Cons.prems(1)]) auto
    then show ?thesis using False by (intro that) auto
  qed
  from Cons.IH [OF x'(1) u(2)] x'(2) show ?case by auto
qed auto

lemma sample_start_reachable1: "swap_reachable1 [sample_buffer 1, sample_buffer 2] (swap_start sample_swapper)"
  by (rule swap_reachable1.start1) (rule new_sample_swapper)

lemmas sample_eval = swap_start_def sample_swapper_def client_acquire_def client_must_wait_def
  compositor_acquire_def client_release_def compositor_release_def modify_def omap_at_def

text \<open>After the client and the compositor have each acquired a buffer.\<close>

definition sample_busy :: swap_system where
  "sample_busy = \<lparr>sw = sample_swapper\<lparr>client_queue := [], in_use_by_client := 1\<rparr>,
     client_held = [1], compositor_held = [2], asleep = 0\<rparr>"

lemma sample_busy_run:
  "swap_run (swap_start sample_swapper) [Client_acquire 1, Compositor_acquire 2] = Some sample_busy"
  by (simp add: sample_eval sample_busy_def)

lemma sample_busy_reachable: "swap_reachable [sample_buffer 1, sample_buffer 2] sample_busy"
  using swap_run_reachable1 [OF sample_start_reachable1 sample_busy_run]
  by (rule swap_reachable1_reachable)

text \<open>After the client has posted both buffers and gone to sleep, and the compositor has
  taken the first.\<close>

definition sample_waiting :: swap_system where
  "sample_waiting = \<lparr>sw = sample_swapper\<lparr>client_queue := [], compositor_queue := [2]\<rparr>,
     client_held = [], compositor_held = [1], asleep = 1\<rparr>"

lemma sample_waiting_run:
  "swap_run (swap_start sample_swapper)
     [Client_acquire 1, Client_release 1, Client_acquire 2, Client_release 2, Client_wait,
      Compositor_acquire 1] = Some sample_waiting"
  by (simp add: sample_eval sample_waiting_def)

lemma sample_waiting_reachable1:
  "swap_reachable1 [sample_buffer 1, sample_buffer 2] sample_waiting"
  by (rule swap_run_reachable1 [OF sample_start_reachable1 sample_waiting_run])

lemma sample_waiting_step:
  "swap_step sample_waiting (Compositor_release 1)
     (sample_waiting\<lparr>sw := sample_swapper\<lparr>client_queue := [1], compositor_queue := [2]\<rparr>,
        compositor_held := [], asleep := 0\<rparr>)"
  using swap_do_step [of sample_waiting "Compositor_release 1"]
  by (simp add: sample_waiting_def sample_swapper_def compositor_release_def modify_def)

lemma sample_ids_distinct: "distinct (map buf_id [sample_buffer 1, sample_buffer 2])"
  by (simp add: sample_buffer_def)

text \<open>C1: In every state that any interleaving of client acquires and releases, compositor
  acquires and releases and shutdowns can reach, each buffer of the surface is in exactly one
  place (the client's queue, the compositor's queue, held by the client, held by the
  compositor), the counter \<^verbatim>\<open>in_use_by_client\<close> is the number of buffers the client holds, and
  the client does not hold all of them.\<close>

theorem swapper_ownership:
  assumes "swap_reachable bs s" and "distinct (map buf_id bs)"
  shows "distinct (client_queue (sw s) @ compositor_queue (sw s) @ client_held s @ compositor_held s)
    \<and> set (client_queue (sw s) @ compositor_queue (sw s) @ client_held s @ compositor_held s) = buf_id ` set bs
    \<and> unat (in_use_by_client (sw s)) = length (client_held s)
    \<and> length (client_held s) < length bs"
proof -
  have inv: "swap_inv bs s"
    using swap_reachable_inv [OF assms] by simp
  have "mset (client_queue (sw s) @ compositor_queue (sw s) @ client_held s @ compositor_held s)
      = mset (map buf_id bs)"
    using inv by (simp add: swap_inv_def all_places_def ac_simps)
  from mset_eq_setD [OF this] show ?thesis
    using swap_inv_distinct [OF inv assms(2)] inv by (simp add: swap_inv_def)
qed

theorem swapper_ownership_witness:
  "swap_reachable [sample_buffer 1, sample_buffer 2] sample_busy
   \<and> client_held sample_busy = [1] \<and> unat (in_use_by_client (sw sample_busy)) = 1"
  using sample_busy_reachable swapper_ownership [OF sample_busy_reachable sample_ids_distinct]
  by (simp add: sample_busy_def)

text \<open>C3: The compositor never has to wait and never reads an empty queue while it holds no
  buffer of the surface: in every such reachable state \<^verbatim>\<open>compositor_acquire\<close> returns a buffer
  that is not null and carries the returned id, whatever the clients have done.\<close>

theorem compositor_always_has_buffer:
  assumes "swap_reachable bs s" and "distinct (map buf_id bs)" and "compositor_held s = []"
  shows "\<exists>b w. compositor_acquire (sw s) = (Returns (Some b, buf_id b), w) \<and> b \<in> set bs"
proof -
  have inv: "swap_inv bs s"
    using swap_reachable_inv [OF assms(1,2)] by simp
  obtain r b w where w: "compositor_acquire (sw s) = (Returns (r, b), w)"
    using compositor_acquire_possible [OF inv assms(3)] .
  have "b \<in># all_places s"
    using w by (auto simp: all_places_def elim!: compositor_acquire_cases)
  then obtain b' where "b' \<in> set bs" "buf_id b' = b"
      "omap_at b None (buffers (sw s)) = (Some b', buffers (sw s))"
    using inv by (elim swap_inv_known)
  then show ?thesis
    using w by (auto elim!: compositor_acquire_cases)
qed

theorem compositor_always_has_buffer_witness:
  "\<exists>b w. compositor_acquire sample_swapper = (Returns (Some b, buf_id b), w)
     \<and> b \<in> set [sample_buffer 1, sample_buffer 2]"
  using compositor_always_has_buffer
    [OF swap_reachable.start [OF new_sample_swapper] sample_ids_distinct]
  by (simp add: swap_start_def)


text \<open>C2: The swapper implements the ownership-transfer contract: every step of every reachable
  state is a step of the abstract ownership system with the same action (the client takes a
  free buffer only while one stays for the compositor, frames are shown in the order they were
  posted, without a posted frame a free buffer is shown).\<close>

theorem swapper_refines_ownership:
  assumes "swap_reachable bs s" and "distinct (map buf_id bs)" and "swap_step s a t"
  shows "own_step (length bs) (abs_swap s) a (abs_swap t)"
  using swap_reachable_inv [OF assms(1,2)] abs_swap_step [OF assms(3)] assms(2) by blast

theorem swapper_refines_ownership_witness:
  "own_step 2 \<lparr>own_free = {}, own_posted = [2], own_client = {}, own_compositor = {1}\<rparr>
     (Compositor_release 1) \<lparr>own_free = {1}, own_posted = [2], own_client = {}, own_compositor = {}\<rparr>"
  using swapper_refines_ownership
    [OF swap_reachable1_reachable [OF sample_waiting_reachable1] sample_ids_distinct sample_waiting_step]
  by (simp add: abs_swap_def sample_waiting_def sample_swapper_def numeral_2_eq_2)

text \<open>C4: With one client thread no wakeup is lost although \<^verbatim>\<open>client_release\<close> does not signal: a
  sleeping client always has a reason to wait, and once the compositor releases a buffer a
  client that holds fewer than all but one of the buffers gets a buffer without blocking.\<close>

theorem no_lost_wakeup:
  assumes "swap_reachable1 bs s" and "distinct (map buf_id bs)"
  shows "(asleep s \<noteq> 0 \<longrightarrow> client_must_wait (sw s))
    \<and> (swap_step s (Compositor_release b) t \<and> Suc (length (client_held s)) < length bs
       \<longrightarrow> asleep t = 0 \<and> (\<exists>r i w. client_acquire (sw t) = (Returns (r, i), w)))"
proof (intro conjI impI)
  show "asleep s \<noteq> 0 \<Longrightarrow> client_must_wait (sw s)"
    using sleeper_must_wait [OF assms] by auto
next
  assume *: "swap_step s (Compositor_release b) t \<and> Suc (length (client_held s)) < length bs"
  have inv: "swap_inv bs s" and len: "length bs = 2 \<or> length bs = 3"
    using swap_reachable_inv [OF swap_reachable1_reachable [OF assms(1)] assms(2)] by simp_all
  have "swap_inv bs t"
    using swap_inv_step * inv len by blast
  from * have "client_held t = client_held s" "client_queue (sw t) \<noteq> []" "asleep t = asleep s - 1"
    by (auto elim!: swap_stepE simp: compositor_release_def modify_def)
  then show "asleep t = 0" and "\<exists>r i w. client_acquire (sw t) = (Returns (r, i), w)"
    using sleeper_must_wait [OF assms] client_acquire_possible [OF \<open>swap_inv bs t\<close> len] * by auto
qed

theorem no_lost_wakeup_witness:
  "asleep sample_waiting = 1 \<and> client_must_wait (sw sample_waiting)
   \<and> (\<exists>r i w. client_acquire (sample_swapper\<lparr>client_queue := [1], compositor_queue := [2]\<rparr>) = (Returns (r, i), w))"
  using no_lost_wakeup [OF sample_waiting_reachable1 sample_ids_distinct, of 1
      "sample_waiting\<lparr>sw := sample_swapper\<lparr>client_queue := [1], compositor_queue := [2]\<rparr>,
        compositor_held := [], asleep := 0\<rparr>"] sample_waiting_step
  by (simp add: sample_waiting_def)

text \<open>C5: While no new frame has been posted, the compositor is given the frame it showed last,
  and not an older one: the client cannot take it back, because it may not hold all buffers.\<close>

theorem last_frame_redisplayed:
  assumes "frame_run bs s (Some b)" and "distinct (map buf_id bs)"
    and "compositor_held s = []" and "compositor_queue (sw s) = []"
  shows "\<exists>r w. compositor_acquire (sw s) = (Returns (Some r, b), w) \<and> buf_id r = b"
proof -
  have inv: "swap_inv bs s"
    using swap_reachable_inv [OF frame_run_reachable [OF assms(1)] assms(2)] by simp
  have l: "client_queue (sw s) \<noteq> []" "last (client_queue (sw s)) = b"
    using frame_run_last_frame [OF assms(1,2)] assms(3,4) by (auto simp: last_frame_kept_def)
  then obtain r w where "compositor_acquire (sw s) = (Returns (r, b), w)"
    using assms(4) by (auto simp: compositor_acquire_def Let_def case_prod_beta)
  then show ?thesis
    using compositor_acquire_buffers(2) [OF inv] by blast
qed

lemma sample_shown:
  obtains x where "frame_run [sample_buffer 1, sample_buffer 2]
     \<lparr>sw = sample_swapper\<lparr>client_queue := [1, 2]\<rparr>, client_held = [], compositor_held = [], asleep = 0\<rparr> (Some x)"
proof -
  have "swap_run (swap_start sample_swapper) [Compositor_acquire 2, Compositor_release 2]
      = Some \<lparr>sw = sample_swapper\<lparr>client_queue := [1, 2]\<rparr>, client_held = [], compositor_held = [], asleep = 0\<rparr>"
    by (simp add: sample_eval)
  from swap_run_frame_run [OF frame_run.first [OF new_sample_swapper] this] show ?thesis
    using that by auto
qed

theorem last_frame_redisplayed_witness:
  "\<exists>x r w. compositor_acquire (sample_swapper\<lparr>client_queue := [1, 2]\<rparr>) = (Returns (Some r, x), w) \<and> buf_id r = x"
proof -
  obtain x where "frame_run [sample_buffer 1, sample_buffer 2]
     \<lparr>sw = sample_swapper\<lparr>client_queue := [1, 2]\<rparr>, client_held = [], compositor_held = [], asleep = 0\<rparr> (Some x)"
    by (rule sample_shown)
  from last_frame_redisplayed [OF this sample_ids_distinct]
  have "\<exists>r w. compositor_acquire (sample_swapper\<lparr>client_queue := [1, 2]\<rparr>) = (Returns (Some r, x), w) \<and> buf_id r = x"
    by (simp add: sample_swapper_def)
  then show ?thesis by blast
qed

text \<open>C7: \<^verbatim>\<open>shutdown\<close> is defined in a reachable state exactly when the client and the compositor
  together do not hold every buffer; with the two buffers of the default configuration a state
  in which each holds one is reachable, and there \<^verbatim>\<open>shutdown\<close> reads the front of an empty queue.\<close>

theorem shutdown_undefined_reachable:
  assumes "length bs = 2" and "distinct (map buf_id bs)"
  shows "(\<exists>s. swap_reachable bs s \<and> length (client_held s) = 1 \<and> length (compositor_held s) = 1
            \<and> fst (swapper_shutdown (sw s)) = Undefined ''front() of an empty compositor_queue'')
    \<and> (\<forall>s. swap_reachable bs s \<longrightarrow>
         (fst (swapper_shutdown (sw s)) = Returns () \<longleftrightarrow>
            length (client_held s) + length (compositor_held s) < 2))"
proof (intro conjI allI impI)
  show "\<exists>s. swap_reachable bs s \<and> length (client_held s) = 1 \<and> length (compositor_held s) = 1
      \<and> fst (swapper_shutdown (sw s)) = Undefined ''front() of an empty compositor_queue''"
    using both_hold_reachable [OF assms] by (simp add: swapper_shutdown_Undefined)
  show "fst (swapper_shutdown (sw s)) = Returns () \<longleftrightarrow> length (client_held s) + length (compositor_held s) < 2"
    if "swap_reachable bs s" for s
    using shutdown_defined_iff [OF that assms(2)] assms(1) by simp
qed

theorem shutdown_undefined_reachable_witness:
  "\<exists>s. swap_reachable [sample_buffer 1, sample_buffer 2] s
     \<and> fst (swapper_shutdown (sw s)) = Undefined ''front() of an empty compositor_queue''"
proof -
  have "length [sample_buffer 1, sample_buffer 2] = 2" by simp
  from conjunct1 [OF shutdown_undefined_reachable [OF this sample_ids_distinct]] show ?thesis by blast
qed

text \<open>C6: After a shutdown that is defined, a client that holds fewer than all but one of the
  buffers is no longer blocked: nobody sleeps and the next \<^verbatim>\<open>client_acquire\<close> returns a buffer.\<close>

theorem shutdown_unblocks_client:
  assumes "swap_reachable bs s" and "distinct (map buf_id bs)" and "swap_step s Shutdown t"
    and "Suc (length (client_held s)) < length bs"
  shows "asleep t = 0 \<and> (\<exists>r i w. client_acquire (sw t) = (Returns (r, i), w))"
proof -
  have inv: "swap_inv bs s" and len: "length bs = 2 \<or> length bs = 3"
    using swap_reachable_inv [OF assms(1,2)] by simp_all
  have inv': "swap_inv bs t"
    using assms(3) inv len by (rule swap_inv_step)
  have "client_held t = client_held s" "client_queue (sw t) \<noteq> []" "asleep t = 0"
    using assms(3) by (auto elim!: swap_stepE swapper_shutdown_cases)
  then show ?thesis
    using client_acquire_possible [OF inv' len] assms(4) by simp
qed

theorem shutdown_unblocks_client_witness:
  "swap_step sample_waiting Shutdown
     (sample_waiting\<lparr>sw := sample_swapper\<lparr>client_queue := [2]\<rparr>, asleep := 0\<rparr>)
   \<and> (\<exists>r i w. client_acquire (sample_swapper\<lparr>client_queue := [2]\<rparr>) = (Returns (r, i), w))"
proof -
  have step: "swap_step sample_waiting Shutdown
     (sample_waiting\<lparr>sw := sample_swapper\<lparr>client_queue := [2]\<rparr>, asleep := 0\<rparr>)"
    by (rule swap_step.shut) (simp add: sample_waiting_def swapper_shutdown_def sample_swapper_def)
  from shutdown_unblocks_client
    [OF swap_reachable1_reachable [OF sample_waiting_reachable1] sample_ids_distinct this]
  show ?thesis using step by (simp add: sample_waiting_def)
qed

end
