(* ===== verification/Buffer_Bundle.thy ===== *)
theory Buffer_Bundle
  imports Buffer_Swapper
begin

text \<open>
  How the rest of the server uses a swapper: \<^verbatim>\<open>mc::SwapperFactory\<close> allocates the buffers and
  builds it, \<^verbatim>\<open>mc::BufferBundleManager\<close> wraps it with the size and pixel format of its buffers
  into a \<^verbatim>\<open>mc::BufferBundleSurfaces\<close>, and \<^verbatim>\<open>mc::TemporaryClientBuffer\<close> and
  \<^verbatim>\<open>mc::TemporaryCompositorBuffer\<close> acquire in the constructor and release in the destructor.
  The allocator \<^verbatim>\<open>mc::GraphicBufferAllocator\<close> is an interface: an argument of the definitions.
\<close>

type_synonym 'g buffer_allocator = "buffer_properties \<Rightarrow> ('g, buffer) proc"

section \<open>Creating a swapper\<close>

text \<open>The loop that fills \<^verbatim>\<open>buffers\<close>; an exception of the allocator leaves it.\<close>

fun alloc_buffers :: "'g buffer_allocator \<Rightarrow> nat \<Rightarrow> buffer_properties \<Rightarrow> buffer list \<Rightarrow> ('g, buffer list) proc" where
  "alloc_buffers alloc_buffer 0 requested bufs = ret bufs"
| "alloc_buffers alloc_buffer (Suc n) requested bufs =
     sbind (alloc_buffer requested) (\<lambda>b. alloc_buffers alloc_buffer n requested (bufs @ [b]))"

definition default_number_of_buffers :: int where
  "default_number_of_buffers = 2"

definition create_swapper ::
  "'g buffer_allocator \<Rightarrow> int \<Rightarrow> buffer_properties \<Rightarrow> ('g, buffer_properties \<times> swapper) proc" where
  "create_swapper alloc_buffer number_of_buffers requested =
     sbind (alloc_buffers alloc_buffer (nat number_of_buffers) requested []) (\<lambda>bufs.
       if bufs = [] then undef ''buffers[0] of an empty vector''
       else
         let actual = \<lparr>bp_size = buf_size (hd bufs), bp_format = buf_pixel_format (hd bufs),
                       bp_usage = bp_usage requested\<rparr>
         in sbind (lift_res (new_swapper bufs)) (\<lambda>w. ret (actual, w)))"

section \<open>Temporary buffers\<close>

text \<open>
  The members of \<^verbatim>\<open>TemporaryClientBuffer\<close> and \<^verbatim>\<open>TemporaryCompositorBuffer\<close>. The weak pointer
  to the swapper is the argument of the destructors, \<^term>\<open>None\<close> when the swapper is gone.
\<close>

record temporary_buffer =
  tmp_buffer :: "buffer option"
  tmp_buffer_id :: buffer_id

definition new_temporary_client_buffer :: "(swapper, temporary_buffer) proc" where
  "new_temporary_client_buffer =
     sbind client_acquire (\<lambda>(reference, i). ret \<lparr>tmp_buffer = reference, tmp_buffer_id = i\<rparr>)"

definition new_temporary_compositor_buffer :: "(swapper, temporary_buffer) proc" where
  "new_temporary_compositor_buffer =
     sbind compositor_acquire (\<lambda>(reference, i). ret \<lparr>tmp_buffer = reference, tmp_buffer_id = i\<rparr>)"

definition drop_temporary_client_buffer :: "temporary_buffer \<Rightarrow> (swapper option, unit) proc" where
  "drop_temporary_client_buffer t allocating_swapper =
     (case allocating_swapper of
        None \<Rightarrow> (Returns (), None)
      | Some w \<Rightarrow> (case client_release (tmp_buffer_id t) w of (r, w') \<Rightarrow> (r, Some w')))"

definition drop_temporary_compositor_buffer :: "temporary_buffer \<Rightarrow> (swapper option, unit) proc" where
  "drop_temporary_compositor_buffer t allocating_swapper =
     (case allocating_swapper of
        None \<Rightarrow> (Returns (), None)
      | Some w \<Rightarrow> (case compositor_release (tmp_buffer_id t) w of (r, w') \<Rightarrow> (r, Some w')))"

text \<open>The forwarding members dereference the shared pointer.\<close>

definition tmp_forward :: "(buffer \<Rightarrow> 'a) \<Rightarrow> temporary_buffer \<Rightarrow> 'a res" where
  "tmp_forward f t = (case tmp_buffer t of None \<Rightarrow> Undefined ''null buffer'' | Some b \<Rightarrow> Returns (f b))"

definition tmp_size :: "temporary_buffer \<Rightarrow> geom_size res" where
  "tmp_size = tmp_forward buf_size"

definition tmp_stride :: "temporary_buffer \<Rightarrow> dimension res" where
  "tmp_stride = tmp_forward buf_stride"

definition tmp_pixel_format :: "temporary_buffer \<Rightarrow> pixel_format res" where
  "tmp_pixel_format = tmp_forward buf_pixel_format"

definition tmp_id :: "temporary_buffer \<Rightarrow> buffer_id res" where
  "tmp_id = tmp_forward buf_id"

definition tmp_get_ipc_package :: "temporary_buffer \<Rightarrow> ipc_package res" where
  "tmp_get_ipc_package = tmp_forward buf_ipc_package"

section \<open>Buffer bundles\<close>

text \<open>The shared pointer to the swapper has no owner but the bundle, so the bundle holds the
  swapper itself.\<close>

record buffer_bundle =
  bundle_swapper :: swapper
  bundle_size_value :: geom_size
  bundle_pixel_format :: pixel_format

definition new_buffer_bundle :: "swapper \<Rightarrow> buffer_properties \<Rightarrow> buffer_bundle" where
  "new_buffer_bundle w props =
     \<lparr>bundle_swapper = w, bundle_size_value = bp_size props, bundle_pixel_format = bp_format props\<rparr>"

definition new_buffer_bundle_default :: "swapper \<Rightarrow> buffer_bundle" where
  "new_buffer_bundle_default w =
     \<lparr>bundle_swapper = w, bundle_size_value = size_zero, bundle_pixel_format = abgr_8888\<rparr>"

abbreviation on_swapper :: "(swapper, 'a) proc \<Rightarrow> (buffer_bundle, 'a) proc" where
  "on_swapper \<equiv> zoom bundle_swapper (\<lambda>w b. b\<lparr>bundle_swapper := w\<rparr>)"

definition lock_back_buffer :: "(buffer_bundle, temporary_buffer) proc" where
  "lock_back_buffer = on_swapper new_temporary_compositor_buffer"

definition secure_client_buffer :: "(buffer_bundle, temporary_buffer) proc" where
  "secure_client_buffer = on_swapper new_temporary_client_buffer"

definition get_bundle_pixel_format :: "buffer_bundle \<Rightarrow> pixel_format" where
  "get_bundle_pixel_format b = bundle_pixel_format b"

definition bundle_size :: "buffer_bundle \<Rightarrow> geom_size" where
  "bundle_size b = bundle_size_value b"

definition bundle_shutdown :: "(buffer_bundle, unit) proc" where
  "bundle_shutdown = on_swapper swapper_shutdown"

definition create_buffer_bundle ::
  "'g buffer_allocator \<Rightarrow> int \<Rightarrow> buffer_properties \<Rightarrow> ('g, buffer_bundle) proc" where
  "create_buffer_bundle alloc_buffer number_of_buffers props =
     sbind (create_swapper alloc_buffer number_of_buffers props) (\<lambda>(actual, w).
       ret (new_buffer_bundle w actual))"

text \<open>The destructors against the swapper that a bundle keeps alive.\<close>

definition bundle_drop_client :: "temporary_buffer \<Rightarrow> (buffer_bundle, unit) proc" where
  "bundle_drop_client t b =
     (case drop_temporary_client_buffer t (Some (bundle_swapper b)) of
        (r, Some w) \<Rightarrow> (r, b\<lparr>bundle_swapper := w\<rparr>) | (r, None) \<Rightarrow> (r, b))"

definition bundle_drop_compositor :: "temporary_buffer \<Rightarrow> (buffer_bundle, unit) proc" where
  "bundle_drop_compositor t b =
     (case drop_temporary_compositor_buffer t (Some (bundle_swapper b)) of
        (r, Some w) \<Rightarrow> (r, b\<lparr>bundle_swapper := w\<rparr>) | (r, None) \<Rightarrow> (r, b))"

section \<open>Facts\<close>

lemma bundle_drop_client_eq: "bundle_drop_client t = on_swapper (client_release (tmp_buffer_id t))"
  by (rule ext) (simp add: bundle_drop_client_def drop_temporary_client_buffer_def zoom_def
      case_prod_beta)

lemma bundle_drop_compositor_eq:
  "bundle_drop_compositor t = on_swapper (compositor_release (tmp_buffer_id t))"
  by (rule ext) (simp add: bundle_drop_compositor_def drop_temporary_compositor_buffer_def zoom_def
      case_prod_beta)

lemma new_temporary_client_buffer_iff:
  "new_temporary_client_buffer w = (x, w') \<longleftrightarrow>
     (case x of Returns t \<Rightarrow> client_acquire w = (Returns (tmp_buffer t, tmp_buffer_id t), w')
      | Throws e \<Rightarrow> client_acquire w = (Throws e, w')
      | Blocks \<Rightarrow> client_acquire w = (Blocks, w')
      | Undefined m \<Rightarrow> client_acquire w = (Undefined m, w'))"
  by (cases "client_acquire w"; cases "fst (client_acquire w)")
    (auto simp: new_temporary_client_buffer_def proc_simps split: res.splits)

lemma new_temporary_compositor_buffer_iff:
  "new_temporary_compositor_buffer w = (x, w') \<longleftrightarrow>
     (case x of Returns t \<Rightarrow> compositor_acquire w = (Returns (tmp_buffer t, tmp_buffer_id t), w')
      | Throws e \<Rightarrow> compositor_acquire w = (Throws e, w')
      | Blocks \<Rightarrow> compositor_acquire w = (Blocks, w')
      | Undefined m \<Rightarrow> compositor_acquire w = (Undefined m, w'))"
  by (cases "compositor_acquire w"; cases "fst (compositor_acquire w)")
    (auto simp: new_temporary_compositor_buffer_def proc_simps split: res.splits)

abbreviation put_swapper :: "swapper \<Rightarrow> buffer_bundle \<Rightarrow> buffer_bundle" where
  "put_swapper w b \<equiv> b\<lparr>bundle_swapper := w\<rparr>"

interpretation client_bundle: zoomed_pool new_temporary_client_buffer
  "\<lambda>t. client_release (tmp_buffer_id t)" tmp_buffer_id idle_buffers bundle_swapper put_swapper
proof
  fix w t w'
  assume "new_temporary_client_buffer w = (Returns t, w')"
  then show "idle_buffers w = add_mset (tmp_buffer_id t) (idle_buffers w')"
    by (auto simp: new_temporary_client_buffer_iff dest: client_side.acquire_pool)
next
  fix w w' x
  assume "new_temporary_client_buffer w = (x, w')" and "\<And>t. x \<noteq> Returns t"
  then show "w' = w"
    by (auto simp: new_temporary_client_buffer_iff split: res.splits dest: client_side.acquire_stops)
qed (use client_side.release_pool [of "(None, _)"] client_side.release_returns [of "(None, _)"] in simp_all)

interpretation compositor_bundle: zoomed_pool new_temporary_compositor_buffer
  "\<lambda>t. compositor_release (tmp_buffer_id t)" tmp_buffer_id idle_buffers bundle_swapper put_swapper
proof
  fix w t w'
  assume "new_temporary_compositor_buffer w = (Returns t, w')"
  then show "idle_buffers w = add_mset (tmp_buffer_id t) (idle_buffers w')"
    by (auto simp: new_temporary_compositor_buffer_iff dest: compositor_side.acquire_pool)
next
  fix w w' x
  assume "new_temporary_compositor_buffer w = (x, w')" and "\<And>t. x \<noteq> Returns t"
  then show "w' = w"
    by (auto simp: new_temporary_compositor_buffer_iff split: res.splits dest: compositor_side.acquire_stops)
qed (use compositor_side.release_pool [of "(None, _)"] compositor_side.release_returns [of "(None, _)"] in simp_all)

lemma alloc_buffers_length:
  "alloc_buffers alloc n req bufs g = (Returns bs, g') \<Longrightarrow> length bs = length bufs + n"
  by (induction n arbitrary: bufs g) (auto simp: ret_def sbind_Returns)

lemma create_buffer_bundle_eq:
  assumes "alloc_buffers alloc (nat n) req [] g = (Returns bs, g')"
  shows "create_buffer_bundle alloc n req g =
    (if n \<le> 0 then (Undefined ''buffers[0] of an empty vector'', g')
     else if n = 2 \<or> n = 3
       then (Returns (new_buffer_bundle
               \<lparr>buffers = fold (\<lambda>b. omap_set (buf_id b) (Some b)) bs [], client_queue = map buf_id bs,
                compositor_queue = [], in_use_by_client = 0\<rparr>
               \<lparr>bp_size = buf_size (hd bs), bp_format = buf_pixel_format (hd bs), bp_usage = bp_usage req\<rparr>), g')
     else (Throws (logic_error ''BufferSwapperMulti is only validated for 2 or 3 buffers''), g'))"
  using alloc_buffers_length [OF assms] assms
  by (auto simp: create_buffer_bundle_def create_swapper_def new_swapper_eq Let_def proc_simps
      simp flip: length_0_conv)

section \<open>Properties\<close>

text \<open>C8: What \<^verbatim>\<open>create_buffer_bundle\<close> does for every \<^verbatim>\<open>number_of_buffers\<close> whose buffers the allocator
  delivers, with different ids: for 2 or 3 it returns a bundle with the size and pixel format of
  the first buffer, whose swapper is a freshly started one over exactly these buffers; any other
  positive number is refused with a \<^verbatim>\<open>logic_error\<close>; zero or a negative number is not refused, the
  swapper factory reads \<^verbatim>\<open>buffers[0]\<close> of an empty vector before the number is looked at.\<close>

theorem create_buffer_bundle_ok:
  assumes "alloc_buffers alloc (nat n) req [] g = (Returns bs, g')" and "distinct (map buf_id bs)"
  shows "if n = 2 \<or> n = 3
    then (\<exists>bundle. create_buffer_bundle alloc n req g = (Returns bundle, g')
            \<and> bundle_size bundle = buf_size (hd bs)
            \<and> get_bundle_pixel_format bundle = buf_pixel_format (hd bs)
            \<and> swap_reachable bs (swap_start (bundle_swapper bundle)))
    else create_buffer_bundle alloc n req g
           = (if n \<le> 0 then Undefined ''buffers[0] of an empty vector''
              else Throws (logic_error ''BufferSwapperMulti is only validated for 2 or 3 buffers''), g')"
  using alloc_buffers_length [OF assms(1)] assms(2)
  by (auto simp: create_buffer_bundle_eq [OF assms(1)] new_buffer_bundle_def bundle_size_def
      get_bundle_pixel_format_def new_swapper_eq intro!: swap_reachable.start)

text \<open>An allocator for concrete instances: buffers of the requested size with ids from a counter.\<close>

definition sample_alloc :: "u32 buffer_allocator" where
  "sample_alloc props c =
     (Returns ((sample_buffer c)\<lparr>buf_size := bp_size props, buf_pixel_format := bp_format props\<rparr>), c + 1)"

theorem create_buffer_bundle_ok_witness:
  "(\<exists>bundle. create_buffer_bundle sample_alloc 2 default_buffer_properties 1 = (Returns bundle, 3)
      \<and> bundle_size bundle = size_zero \<and> size (idle_buffers (bundle_swapper bundle)) = 2)
   \<and> create_buffer_bundle sample_alloc 1 default_buffer_properties 1
     = (Throws (logic_error ''BufferSwapperMulti is only validated for 2 or 3 buffers''), 2)
   \<and> create_buffer_bundle sample_alloc 0 default_buffer_properties 1
     = (Undefined ''buffers[0] of an empty vector'', 1)"
proof (intro conjI)
  let ?b = "\<lambda>i. (sample_buffer i)\<lparr>buf_size := size_zero, buf_pixel_format := pf_invalid\<rparr>"
  have "alloc_buffers sample_alloc (nat 2) default_buffer_properties [] 1 = (Returns [?b 1, ?b 2], 3)"
    by (simp add: numeral_2_eq_2 sample_alloc_def default_buffer_properties_def proc_simps)
  from create_buffer_bundle_ok [OF this] create_buffer_bundle_eq [OF this]
  show "\<exists>bundle. create_buffer_bundle sample_alloc 2 default_buffer_properties 1 = (Returns bundle, 3)
      \<and> bundle_size bundle = size_zero \<and> size (idle_buffers (bundle_swapper bundle)) = 2"
    by (auto simp: sample_buffer_def new_buffer_bundle_def idle_buffers_def)
  have "alloc_buffers sample_alloc (nat 1) default_buffer_properties [] 1 = (Returns [?b 1], 2)"
    by (simp add: sample_alloc_def default_buffer_properties_def proc_simps)
  from create_buffer_bundle_ok [OF this]
  show "create_buffer_bundle sample_alloc 1 default_buffer_properties 1
     = (Throws (logic_error ''BufferSwapperMulti is only validated for 2 or 3 buffers''), 2)" by simp
  have "alloc_buffers sample_alloc (nat 0) default_buffer_properties [] 1 = (Returns [], 1)"
    by (simp add: proc_simps)
  from create_buffer_bundle_ok [OF this]
  show "create_buffer_bundle sample_alloc 0 default_buffer_properties 1
     = (Undefined ''buffers[0] of an empty vector'', 1)" by simp
qed

text \<open>C9: A region that the compositor locks and drops again leaves the bundle with the same
  idle buffers: the destructor of the temporary buffer gives back exactly what its constructor
  took, and a constructor that does not return has taken nothing.\<close>

theorem lock_back_buffer_scoped:
  "case lock_back_buffer bundle of
     (Returns t, bundle') \<Rightarrow>
       (\<exists>bundle''. bundle_drop_compositor t bundle' = (Returns (), bundle'')
         \<and> idle_buffers (bundle_swapper bundle'') = idle_buffers (bundle_swapper bundle)
         \<and> tmp_buffer_id t \<in># idle_buffers (bundle_swapper bundle))
   | (_, bundle') \<Rightarrow> bundle' = bundle"
proof (cases "lock_back_buffer bundle")
  case (Pair x bundle')
  then have l: "on_swapper new_temporary_compositor_buffer bundle = (x, bundle')"
    by (simp add: lock_back_buffer_def)
  show ?thesis
  proof (cases "\<exists>t. x = Returns t")
    case True
    then obtain t where x: "x = Returns t" by blast
    note ap = compositor_bundle.zoomed.acquire_pool [OF l [unfolded x]]
    note su = compositor_bundle.zoomed.scoped_use [OF l [unfolded x]]
    obtain bundle'' where "bundle_drop_compositor t bundle' = (Returns (), bundle'')"
      using compositor_bundle.zoomed.release_returns [of t bundle']
      by (metis bundle_drop_compositor_eq prod.collapse)
    then show ?thesis
      using Pair x ap su by (simp add: bundle_drop_compositor_eq)
  next
    case False
    then have "bundle' = bundle"
      using compositor_bundle.zoomed.acquire_stops [OF l] by blast
    then show ?thesis
      using Pair False by (auto split: res.splits)
  qed
qed

end
