(* ===== verification/Gbm_Buffers.thy ===== *)
theory Gbm_Buffers
  imports Buffer_Bundle
begin

text \<open>
  The buffers of the GBM platform (\<^verbatim>\<open>graphics/gbm/gbm_buffer.cpp\<close>,
  \<^verbatim>\<open>graphics/gbm/gbm_buffer_allocator.cpp\<close>): pixel format conversion, the constructor of
  \<^verbatim>\<open>GBMBuffer\<close> on top of \<^verbatim>\<open>BufferBasic\<close>, and the allocator. libgbm and the kernel's flink call
  are parameters, collected in a record: the constants of \<^verbatim>\<open>gbm.h\<close>, what
  \<^verbatim>\<open>gbm_bo_create\<close> answers at its \<open>n\<close>-th call, and what the accessors of a buffer object return.
\<close>

section \<open>libgbm\<close>

record gbm_bo =
  bo_width :: u32
  bo_height :: u32
  bo_stride :: u32
  bo_format :: u32
  bo_flink :: "int + u32"  \<comment> \<open>\<^verbatim>\<open>DRM_IOCTL_GEM_FLINK\<close>: \<^verbatim>\<open>errno\<close> or the name\<close>

record gbm_lib =
  GBM_BO_FORMAT_ARGB8888 :: u32
  GBM_FORMAT_ARGB8888 :: u32
  GBM_BO_FORMAT_XRGB8888 :: u32
  GBM_FORMAT_XRGB8888 :: u32
  GBM_BO_USE_WRITE :: u32
  GBM_BO_USE_RENDERING :: u32
  gbm_bo_create :: "nat \<Rightarrow> u32 \<Rightarrow> u32 \<Rightarrow> u32 \<Rightarrow> u32 \<Rightarrow> gbm_bo option"
  buffer_initializer :: "buffer \<Rightarrow> unit res"

text \<open>The four format constants of \<^verbatim>\<open>gbm.h\<close> are different, and none is \<^verbatim>\<open>0xffffffff\<close>.\<close>

definition gbm_formats_distinct :: "gbm_lib \<Rightarrow> bool" where
  "gbm_formats_distinct lib \<longleftrightarrow>
     distinct [GBM_BO_FORMAT_ARGB8888 lib, GBM_FORMAT_ARGB8888 lib, GBM_BO_FORMAT_XRGB8888 lib,
               GBM_FORMAT_XRGB8888 lib, 0xffffffff]"

section \<open>Formats and buffers\<close>

definition gbm_format_to_mir_format :: "gbm_lib \<Rightarrow> u32 \<Rightarrow> pixel_format" where
  "gbm_format_to_mir_format lib format =
     (if format = GBM_BO_FORMAT_ARGB8888 lib \<or> format = GBM_FORMAT_ARGB8888 lib then argb_8888
      else if format = GBM_BO_FORMAT_XRGB8888 lib \<or> format = GBM_FORMAT_XRGB8888 lib then xrgb_8888
      else pf_invalid)"

definition mir_format_to_gbm_format :: "gbm_lib \<Rightarrow> pixel_format \<Rightarrow> u32" where
  "mir_format_to_gbm_format lib format =
     (if format = argb_8888 then GBM_FORMAT_ARGB8888 lib
      else if format = xrgb_8888 then GBM_FORMAT_XRGB8888 lib
      else 0xffffffff)"

text \<open>The members of \<^verbatim>\<open>GBMBuffer\<close>, from its buffer object and its flink name; the id is the
  one \<^verbatim>\<open>BufferBasic\<close> drew.\<close>

definition gbm_buffer_size :: "gbm_bo \<Rightarrow> geom_size" where
  "gbm_buffer_size bo = \<lparr>width = bo_width bo, height = bo_height bo\<rparr>"

definition gbm_buffer_stride :: "gbm_bo \<Rightarrow> dimension" where
  "gbm_buffer_stride bo = bo_stride bo"

definition gbm_buffer_pixel_format :: "gbm_lib \<Rightarrow> gbm_bo \<Rightarrow> pixel_format" where
  "gbm_buffer_pixel_format lib bo = gbm_format_to_mir_format lib (bo_format bo)"

definition gbm_buffer_ipc_package :: "gbm_bo \<Rightarrow> u32 \<Rightarrow> ipc_package" where
  "gbm_buffer_ipc_package bo gem_flink_name =
     \<lparr>ipc_data = [sint gem_flink_name], ipc_fds = [], ipc_stride = sint (gbm_buffer_stride bo)\<rparr>"

section \<open>The allocator\<close>

text \<open>The global id counter of \<^verbatim>\<open>buffer_basic.cpp\<close> and the number of \<^verbatim>\<open>gbm_bo_create\<close> calls so far.\<close>

record gbm_allocator =
  next_buffer_id :: u32
  bo_calls :: nat

definition new_gbm_buffer :: "gbm_lib \<Rightarrow> gbm_bo \<Rightarrow> (gbm_allocator, buffer) proc" where
  "new_gbm_buffer lib bo g =
     (let (i, c) = generate_next_buffer_id (next_buffer_id g);
          g' = g\<lparr>next_buffer_id := c\<rparr>
      in case bo_flink bo of
           Inl errno \<Rightarrow> (Throws (errno_error ''Failed to get GEM flink name from gbm bo'' errno), g')
         | Inr name \<Rightarrow>
             (Returns \<lparr>buf_id = i, buf_size = gbm_buffer_size bo, buf_stride = gbm_buffer_stride bo,
                buf_pixel_format = gbm_buffer_pixel_format lib bo,
                buf_ipc_package = gbm_buffer_ipc_package bo name\<rparr>, g'))"

definition gbm_bo_flags :: "gbm_lib \<Rightarrow> buffer_usage \<Rightarrow> u32" where
  "gbm_bo_flags lib usage =
     (if usage = usage_software then or 0 (GBM_BO_USE_WRITE lib) else or 0 (GBM_BO_USE_RENDERING lib))"

definition gbm_alloc_buffer :: "gbm_lib \<Rightarrow> gbm_allocator buffer_allocator" where
  "gbm_alloc_buffer lib props =
     sbind (\<lambda>g. (Returns (gbm_bo_create lib (bo_calls g) (width (bp_size props)) (height (bp_size props))
                    (mir_format_to_gbm_format lib (bp_format props)) (gbm_bo_flags lib (bp_usage props))),
                 g\<lparr>bo_calls := Suc (bo_calls g)\<rparr>))
       (\<lambda>bo_raw. case bo_raw of
          None \<Rightarrow> throw (runtime_error ''Failed to create GBM buffer object'')
        | Some bo \<Rightarrow> sbind (new_gbm_buffer lib bo) (\<lambda>buffer.
            seq (lift_res (buffer_initializer lib buffer)) (ret buffer)))"

definition gbm_supported_pixel_formats :: "pixel_format list" where
  "gbm_supported_pixel_formats = [argb_8888, xrgb_8888]"

section \<open>Facts\<close>

lemma gbm_alloc_buffer_id:
  assumes "gbm_alloc_buffer lib props g = (Returns b, g')"
  shows "generate_next_buffer_id (next_buffer_id g) = (buf_id b, next_buffer_id g')"
  using assms
  by (auto simp: gbm_alloc_buffer_def new_gbm_buffer_def proc_simps Let_def case_prod_beta
      split: option.splits res.splits sum.splits prod.splits)

lemma gbm_alloc_buffers_ids:
  "alloc_buffers (gbm_alloc_buffer lib) n props bufs g = (Returns bs, g') \<Longrightarrow>
   map buf_id bs = map buf_id bufs @ fst (generate_buffer_ids n (next_buffer_id g))"
proof (induction n arbitrary: bufs g)
  case (Suc n)
  then obtain b g1 where b: "gbm_alloc_buffer lib props g = (Returns b, g1)"
      and r: "alloc_buffers (gbm_alloc_buffer lib) n props (bufs @ [b]) g1 = (Returns bs, g')"
    by (auto simp: sbind_Returns)
  show ?case
    using Suc.IH [OF r] gbm_alloc_buffer_id [OF b] by (simp add: Let_def case_prod_beta)
qed (simp add: ret_def)

section \<open>Properties\<close>

text \<open>C38: The two formats that the GBM platform offers survive the conversion to a GBM format
  and back; every other format is turned into a value that converts to the invalid format.\<close>

theorem gbm_format_roundtrip:
  assumes "gbm_formats_distinct lib"
  shows "gbm_format_to_mir_format lib (mir_format_to_gbm_format lib pf)
    = (if pf \<in> set gbm_supported_pixel_formats then pf else pf_invalid)"
  using assms
  by (auto simp: gbm_formats_distinct_def gbm_format_to_mir_format_def mir_format_to_gbm_format_def
      gbm_supported_pixel_formats_def)

definition sample_gbm :: gbm_lib where
  "sample_gbm = \<lparr>GBM_BO_FORMAT_ARGB8888 = 1, GBM_FORMAT_ARGB8888 = 0x34325241, GBM_BO_FORMAT_XRGB8888 = 0,
     GBM_FORMAT_XRGB8888 = 0x34325258, GBM_BO_USE_WRITE = 8, GBM_BO_USE_RENDERING = 4,
     gbm_bo_create = (\<lambda>n w h f flags. Some \<lparr>bo_width = w, bo_height = h, bo_stride = 4 * w, bo_format = f,
        bo_flink = Inr (of_nat n)\<rparr>), buffer_initializer = (\<lambda>_. Returns ())\<rparr>"

theorem gbm_format_roundtrip_witness:
  "gbm_formats_distinct sample_gbm
   \<and> gbm_format_to_mir_format sample_gbm (mir_format_to_gbm_format sample_gbm argb_8888) = argb_8888"
proof -
  have d: "gbm_formats_distinct sample_gbm"
    by (simp add: gbm_formats_distinct_def sample_gbm_def)
  from gbm_format_roundtrip [OF d, of argb_8888] d show ?thesis
    by (simp add: gbm_supported_pixel_formats_def)
qed

text \<open>C37: Every bundle that is created with the GBM allocator, from any value of the global id
  counter, starts the ownership protocol of its swapper over buffers with pairwise different
  ids, and it has the size and format that the first buffer object reports.\<close>

theorem gbm_bundle_starts_protocol:
  assumes "create_buffer_bundle (gbm_alloc_buffer lib) n props g = (Returns bundle, g')"
  shows "\<exists>bs. length bs = nat n \<and> distinct (map buf_id bs)
    \<and> swap_reachable bs (swap_start (bundle_swapper bundle))
    \<and> bundle_size bundle = buf_size (hd bs) \<and> get_bundle_pixel_format bundle = buf_pixel_format (hd bs)"
proof -
  from assms obtain bs g1 where bs: "alloc_buffers (gbm_alloc_buffer lib) (nat n) props [] g = (Returns bs, g1)"
    by (auto simp: create_buffer_bundle_def create_swapper_def sbind_Returns)
  have n: "n = 2 \<or> n = 3"
    using assms by (simp add: create_buffer_bundle_eq [OF bs] split: if_splits)
  have len: "length bs = nat n"
    using alloc_buffers_length [OF bs] by simp
  have "distinct (map buf_id bs)"
    using gbm_alloc_buffers_ids [OF bs] generate_buffer_ids_distinct [of "nat n" "next_buffer_id g"] n
    by (auto simp: id_cycle_def)
  moreover have "new_swapper bs = Returns (bundle_swapper bundle)" "bundle_size bundle = buf_size (hd bs)"
      "get_bundle_pixel_format bundle = buf_pixel_format (hd bs)"
    using assms n len
    by (auto simp: create_buffer_bundle_eq [OF bs] new_swapper_eq new_buffer_bundle_def bundle_size_def
        get_bundle_pixel_format_def)
  ultimately show ?thesis
    using len by (blast intro: swap_reachable.start)
qed

theorem gbm_bundle_starts_protocol_witness:
  "\<exists>bundle g' bs. create_buffer_bundle (gbm_alloc_buffer sample_gbm) 2
        \<lparr>bp_size = \<lparr>width = 640, height = 480\<rparr>, bp_format = argb_8888, bp_usage = usage_hardware\<rparr>
        \<lparr>next_buffer_id = 0xffffffff, bo_calls = 0\<rparr> = (Returns bundle, g')
     \<and> distinct (map buf_id bs) \<and> swap_reachable bs (swap_start (bundle_swapper bundle))"
proof -
  obtain bd g' where "create_buffer_bundle (gbm_alloc_buffer sample_gbm) 2
        \<lparr>bp_size = \<lparr>width = 640, height = 480\<rparr>, bp_format = argb_8888, bp_usage = usage_hardware\<rparr>
        \<lparr>next_buffer_id = 0xffffffff, bo_calls = 0\<rparr> = (Returns bd, g')"
    by (simp add: create_buffer_bundle_def create_swapper_def gbm_alloc_buffer_def new_gbm_buffer_def
        sample_gbm_def proc_simps Let_def case_prod_beta numeral_2_eq_2 new_swapper_eq)
  with gbm_bundle_starts_protocol [OF this] show ?thesis by blast
qed

end
