(* ===== verification/Creation_Parameters.thy ===== *)
theory Creation_Parameters
  imports Buffers
begin

text \<open>
  \<^verbatim>\<open>mf::SurfaceCreationParameters\<close> (\<^verbatim>\<open>frontend/surface_creation_parameters.cpp\<close>): the request
  that travels from the session mediator through the shell to the surface stack, its chained
  setters and its comparison.
\<close>

record surface_creation_parameters =
  param_name :: string
  param_size :: geom_size
  param_buffer_usage :: buffer_usage
  param_pixel_format :: pixel_format

definition a_surface :: surface_creation_parameters where
  "a_surface = \<lparr>param_name = [], param_size = size_zero, param_buffer_usage = usage_undefined,
                param_pixel_format = pf_invalid\<rparr>"

definition of_name :: "string \<Rightarrow> surface_creation_parameters \<Rightarrow> surface_creation_parameters" where
  "of_name new_name p = p\<lparr>param_name := new_name\<rparr>"

definition of_size :: "geom_size \<Rightarrow> surface_creation_parameters \<Rightarrow> surface_creation_parameters" where
  "of_size new_size p = p\<lparr>param_size := new_size\<rparr>"

definition of_width_height :: "u32 \<Rightarrow> u32 \<Rightarrow> surface_creation_parameters \<Rightarrow> surface_creation_parameters" where
  "of_width_height w h p = of_size \<lparr>width = w, height = h\<rparr> p"

definition of_buffer_usage :: "buffer_usage \<Rightarrow> surface_creation_parameters \<Rightarrow> surface_creation_parameters" where
  "of_buffer_usage new_usage p = p\<lparr>param_buffer_usage := new_usage\<rparr>"

definition of_pixel_format :: "pixel_format \<Rightarrow> surface_creation_parameters \<Rightarrow> surface_creation_parameters" where
  "of_pixel_format new_format p = p\<lparr>param_pixel_format := new_format\<rparr>"

definition params_eq :: "surface_creation_parameters \<Rightarrow> surface_creation_parameters \<Rightarrow> bool" where
  "params_eq lhs rhs \<longleftrightarrow>
     size_eq (param_size lhs) (param_size rhs) \<and> param_buffer_usage lhs = param_buffer_usage rhs
     \<and> param_pixel_format lhs = param_pixel_format rhs"

definition params_ne :: "surface_creation_parameters \<Rightarrow> surface_creation_parameters \<Rightarrow> bool" where
  "params_ne lhs rhs \<longleftrightarrow> \<not> params_eq lhs rhs"

lemmas params_setters = of_name_def of_size_def of_width_height_def of_buffer_usage_def of_pixel_format_def

text \<open>The comparison is equality up to the name, which it does not look at.\<close>

lemma params_eq_iff: "params_eq p q \<longleftrightarrow> of_name [] p = of_name [] q"
  by (cases p; cases q) (auto simp: params_eq_def of_name_def)

end
