(* ===== verification/Surface_Stack.thy ===== *)
theory Surface_Stack
  imports Complex_Main Gbm_Buffers Creation_Parameters
begin

text \<open>
  The model side of the server's surfaces: \<^verbatim>\<open>ms::Surface\<close> (\<^verbatim>\<open>surfaces/surface.cpp\<close>),
  \<^verbatim>\<open>ms::SurfaceStack\<close> (\<^verbatim>\<open>surfaces/surface_stack.cpp\<close>) and \<^verbatim>\<open>ms::SurfaceController\<close>. The stack owns
  the surfaces; everybody else holds weak pointers, which are the numbers by which the stack
  lists its surfaces: locking one is looking it up. The change callback is a function on the
  state of whoever listens.
\<close>

section \<open>Surfaces\<close>

text \<open>Floats are only stored and passed on here, so \<^typ>\<open>real\<close> carries them; a \<^verbatim>\<open>glm::mat4\<close> is
  the list of its entries.\<close>

type_synonym mat4 = "real list"
type_synonym vec3 = "real \<times> real \<times> real"

record surface =
  surface_name :: string
  surface_bundle :: buffer_bundle
  client_buffer_resource :: "temporary_buffer option"
  top_left_point :: geom_point
  transformation_matrix :: mat4
  alpha_value :: real
  is_hidden :: bool

text \<open>\<open>mat4_default\<close> is what \<^verbatim>\<open>glm::mat4()\<close> makes.\<close>

definition new_surface :: "mat4 \<Rightarrow> string \<Rightarrow> buffer_bundle \<Rightarrow> surface" where
  "new_surface mat4_default name bundle =
     \<lparr>surface_name = name, surface_bundle = bundle, client_buffer_resource = None,
      top_left_point = point_zero, transformation_matrix = mat4_default, alpha_value = 1, is_hidden = False\<rparr>"

abbreviation on_bundle :: "(buffer_bundle, 'a) proc \<Rightarrow> (surface, 'a) proc" where
  "on_bundle \<equiv> zoom surface_bundle (\<lambda>b s. s\<lparr>surface_bundle := b\<rparr>)"

definition surface_shutdown :: "(surface, unit) proc" where
  "surface_shutdown = on_bundle bundle_shutdown"

text \<open>\<^verbatim>\<open>client_buffer_resource.reset()\<close>: the surface holds the only lasting reference, so the
  temporary buffer is destroyed, while the bundle is alive.\<close>

definition reset_client_buffer :: "(surface, unit) proc" where
  "reset_client_buffer s =
     (case client_buffer_resource s of
        None \<Rightarrow> (Returns (), s)
      | Some t \<Rightarrow> on_bundle (bundle_drop_client t) (s\<lparr>client_buffer_resource := None\<rparr>))"

text \<open>The destructor, then the members in reverse order of declaration: the client buffer
  before the bundle.\<close>

definition destroy_surface_object :: "(surface, unit) proc" where
  "destroy_surface_object = seq surface_shutdown reset_client_buffer"

text \<open>The operations that notify run on the surface and the state \<open>'c\<close> that the callback changes.\<close>

abbreviation on_self :: "('s, 'a) proc \<Rightarrow> ('s \<times> 'c, 'a) proc" where
  "on_self \<equiv> zoom fst (\<lambda>s p. (s, snd p))"

definition notify :: "('c \<Rightarrow> 'c) \<Rightarrow> ('s \<times> 'c, unit) proc" where
  "notify notify_change = modify (\<lambda>p. (fst p, notify_change (snd p)))"

definition move_to :: "('c \<Rightarrow> 'c) \<Rightarrow> geom_point \<Rightarrow> (surface \<times> 'c, unit) proc" where
  "move_to notify_change p =
     seq (on_self (modify (\<lambda>s. s\<lparr>top_left_point := p\<rparr>))) (notify notify_change)"

text \<open>\<open>glm_rotate degrees axis\<close> is \<^verbatim>\<open>glm::rotate(glm::mat4{1.0f}, degrees, axis)\<close>.\<close>

definition set_rotation ::
  "(real \<Rightarrow> vec3 \<Rightarrow> mat4) \<Rightarrow> ('c \<Rightarrow> 'c) \<Rightarrow> real \<Rightarrow> vec3 \<Rightarrow> (surface \<times> 'c, unit) proc" where
  "set_rotation glm_rotate notify_change degrees axis =
     seq (on_self (modify (\<lambda>s. s\<lparr>transformation_matrix := glm_rotate degrees axis\<rparr>))) (notify notify_change)"

definition set_alpha :: "('c \<Rightarrow> 'c) \<Rightarrow> real \<Rightarrow> (surface \<times> 'c, unit) proc" where
  "set_alpha notify_change a =
     seq (on_self (modify (\<lambda>s. s\<lparr>alpha_value := a\<rparr>))) (notify notify_change)"

definition surface_size :: "surface \<Rightarrow> geom_size" where
  "surface_size s = bundle_size (surface_bundle s)"

definition graphic_region :: "(surface, temporary_buffer) proc" where
  "graphic_region = on_bundle lock_back_buffer"

definition set_hidden :: "('c \<Rightarrow> 'c) \<Rightarrow> bool \<Rightarrow> (surface \<times> 'c, unit) proc" where
  "set_hidden notify_change hide =
     seq (on_self (modify (\<lambda>s. s\<lparr>is_hidden := hide\<rparr>))) (notify notify_change)"

definition surface_pixel_format :: "surface \<Rightarrow> pixel_format" where
  "surface_pixel_format s = get_bundle_pixel_format (surface_bundle s)"

definition secure_client_buffer_resource :: "(surface, unit) proc" where
  "secure_client_buffer_resource =
     sbind (on_bundle secure_client_buffer) (\<lambda>t. modify (\<lambda>s. s\<lparr>client_buffer_resource := Some t\<rparr>))"

definition advance_client_buffer :: "('c \<Rightarrow> 'c) \<Rightarrow> (surface \<times> 'c, unit) proc" where
  "advance_client_buffer notify_change =
     seq (on_self reset_client_buffer)
       (seq (on_self secure_client_buffer_resource) (notify notify_change))"

definition surface_client_buffer :: "surface \<Rightarrow> temporary_buffer option" where
  "surface_client_buffer s = client_buffer_resource s"

section \<open>The stack\<close>

type_synonym surface_ref = nat

record ('g, 'w) surface_stack =
  surfaces :: "(surface_ref \<times> surface) list"
  next_surface :: surface_ref
  stack_allocator :: 'g
  notify_change :: "'w \<Rightarrow> 'w"
  listener :: 'w

text \<open>What the stack is built over: the allocator with the number of buffers per surface, and
  glm's default matrix.\<close>

record 'g stack_env =
  env_alloc :: "'g buffer_allocator"
  env_number_of_buffers :: int
  env_mat4 :: mat4

definition new_surface_stack :: "'g \<Rightarrow> 'w \<Rightarrow> ('g, 'w) surface_stack" where
  "new_surface_stack g w =
     \<lparr>surfaces = [], next_surface = 0, stack_allocator = g, notify_change = (\<lambda>x. x), listener = w\<rparr>"

definition emit_change_notification :: "('g, 'w) surface_stack \<Rightarrow> ('g, 'w) surface_stack" where
  "emit_change_notification s = s\<lparr>listener := notify_change s (listener s)\<rparr>"

definition set_change_callback :: "('w \<Rightarrow> 'w) \<Rightarrow> (('g, 'w) surface_stack, unit) proc" where
  "set_change_callback f = modify (\<lambda>s. s\<lparr>notify_change := f\<rparr>)"

text \<open>\<^verbatim>\<open>surface.lock()\<close>\<close>

definition lock_surface :: "surface_ref \<Rightarrow> ('g, 'w) surface_stack \<Rightarrow> surface option" where
  "lock_surface r s = map_of (surfaces s) r"

definition put_surface :: "surface_ref \<Rightarrow> surface \<Rightarrow> ('g, 'w) surface_stack \<Rightarrow> ('g, 'w) surface_stack" where
  "put_surface r sf s = s\<lparr>surfaces := map (\<lambda>p. if fst p = r then (r, sf) else p) (surfaces s)\<rparr>"

text \<open>A call of a surface that has been locked; its callback is \<^verbatim>\<open>emit_change_notification\<close> of
  this stack.\<close>

definition on_surface ::
  "surface_ref \<Rightarrow> surface \<Rightarrow> (surface \<times> ('g, 'w) surface_stack, 'a) proc \<Rightarrow> (('g, 'w) surface_stack, 'a) proc" where
  "on_surface r sf m s = (case m (sf, s) of (x, sf', s') \<Rightarrow> (x, put_surface r sf' s'))"

text \<open>\<^verbatim>\<open>for_each_if\<close>: from the back of the vector to the front; the operator has a state of its own.\<close>

fun visit_surfaces ::
  "(surface \<Rightarrow> bool) \<Rightarrow> (surface_ref \<Rightarrow> (surface \<times> 'o, unit) proc) \<Rightarrow> (surface_ref \<times> surface) list
   \<Rightarrow> ((surface_ref \<times> surface) list \<times> 'o, unit) proc" where
  "visit_surfaces selector renderable_operator [] st = (Returns (), st)"
| "visit_surfaces selector renderable_operator (p # ps) st =
     (if selector (snd p) then
        (case renderable_operator (fst p) (snd p, snd st) of
           (Returns _, sf, ops) \<Rightarrow>
             visit_surfaces selector renderable_operator ps (((fst p, sf) # fst st), ops)
         | (Throws e, sf, ops) \<Rightarrow> (Throws e, rev ps @ (fst p, sf) # fst st, ops)
         | (Blocks, sf, ops) \<Rightarrow> (Blocks, rev ps @ (fst p, sf) # fst st, ops)
         | (Undefined w, sf, ops) \<Rightarrow> (Undefined w, rev ps @ (fst p, sf) # fst st, ops))
      else visit_surfaces selector renderable_operator ps (p # fst st, snd st))"

definition for_each_if ::
  "(surface \<Rightarrow> bool) \<Rightarrow> (surface_ref \<Rightarrow> (surface \<times> 'o, unit) proc) \<Rightarrow> (('g, 'w) surface_stack \<times> 'o, unit) proc" where
  "for_each_if selector renderable_operator st =
     (case visit_surfaces selector renderable_operator (rev (surfaces (fst st))) ([], snd st) of
        (x, ss, ops) \<Rightarrow> (x, (fst st)\<lparr>surfaces := ss\<rparr>, ops))"

definition create_surface ::
  "'g stack_env \<Rightarrow> surface_creation_parameters \<Rightarrow> (('g, 'w) surface_stack, surface_ref) proc" where
  "create_surface env params =
     (let props = \<lparr>bp_size = param_size params, bp_format = param_pixel_format params,
                   bp_usage = param_buffer_usage params\<rparr>
      in sbind (zoom stack_allocator (\<lambda>g s. s\<lparr>stack_allocator := g\<rparr>)
                  (create_buffer_bundle (env_alloc env) (env_number_of_buffers env) props)) (\<lambda>bundle.
         \<lambda>s. (Returns (next_surface s),
              emit_change_notification
                (s\<lparr>surfaces := surfaces s @ [(next_surface s, new_surface (env_mat4 env) (param_name params) bundle)],
                   next_surface := Suc (next_surface s)\<rparr>))))"

definition destroy_surface :: "surface_ref \<Rightarrow> (('g, 'w) surface_stack, unit) proc" where
  "destroy_surface r =
     seq (\<lambda>s. case lock_surface r s of
              None \<Rightarrow> (Returns (), s)
            | Some sf \<Rightarrow> (fst (destroy_surface_object sf),
                          s\<lparr>surfaces := filter (\<lambda>p. fst p \<noteq> r) (surfaces s)\<rparr>))
         (modify emit_change_notification)"

section \<open>The controller\<close>

definition controller_create_surface ::
  "'g stack_env \<Rightarrow> surface_creation_parameters \<Rightarrow> (('g, 'w) surface_stack, surface_ref) proc" where
  "controller_create_surface env params = create_surface env params"

definition controller_destroy_surface :: "surface_ref \<Rightarrow> (('g, 'w) surface_stack, unit) proc" where
  "controller_destroy_surface r = destroy_surface r"

section \<open>The buffers of a surface\<close>

text \<open>
  A surface together with the regions of it that the compositor has locked is a state of the
  swapper protocol: the client holds what \<^verbatim>\<open>client_buffer_resource\<close> keeps for it.
\<close>

definition client_ids :: "surface \<Rightarrow> buffer_id list" where
  "client_ids sf = (case client_buffer_resource sf of None \<Rightarrow> [] | Some t \<Rightarrow> [tmp_buffer_id t])"

definition surface_system :: "surface \<Rightarrow> buffer_id list \<Rightarrow> swap_system" where
  "surface_system sf regions =
     \<lparr>sw = bundle_swapper (surface_bundle sf), client_held = client_ids sf, compositor_held = regions, asleep = 0\<rparr>"

definition holds_buffer :: "temporary_buffer \<Rightarrow> bool" where
  "holds_buffer t \<longleftrightarrow> (\<exists>b. tmp_buffer t = Some b \<and> buf_id b = tmp_buffer_id t)"

definition surface_ok :: "buffer list \<Rightarrow> surface \<Rightarrow> buffer_id list \<Rightarrow> bool" where
  "surface_ok bs sf regions \<longleftrightarrow>
     (length bs = 2 \<or> length bs = 3) \<and> distinct (map buf_id bs)
     \<and> swap_inv bs (surface_system sf regions)
     \<and> (\<forall>t. client_buffer_resource sf = Some t \<longrightarrow> holds_buffer t)"

lemma surface_system_simps [simp]:
  "sw (surface_system sf regions) = bundle_swapper (surface_bundle sf)"
  "client_held (surface_system sf regions) = client_ids sf"
  "compositor_held (surface_system sf regions) = regions"
  by (simp_all add: surface_system_def)

lemma swap_inv_asleep [simp]: "swap_inv bs (s\<lparr>asleep := n\<rparr>) = swap_inv bs s"
  by (simp add: swap_inv_def all_places_def)

definition buffer_count :: "surface \<Rightarrow> nat" where
  "buffer_count sf = length (buffers (bundle_swapper (surface_bundle sf)))"

text \<open>What a compositor leaves alone.\<close>

definition profile :: "surface \<Rightarrow> nat \<times> temporary_buffer option \<times> bool" where
  "profile sf = (buffer_count sf, client_buffer_resource sf, is_hidden sf)"

lemma surface_ok_count: "surface_ok bs sf regions \<Longrightarrow> buffer_count sf = length bs"
  by (simp add: surface_ok_def swap_inv_def buffers_known_def buffer_count_def)

text \<open>A step of the protocol on the surface's swapper keeps the surface in order.\<close>

lemma surface_ok_step:
  assumes "surface_ok bs sf regions" and "swap_step (surface_system sf regions) a u"
    and "surface_system sf' regions' = u\<lparr>asleep := 0\<rparr>"
    and "\<And>t. client_buffer_resource sf' = Some t \<Longrightarrow> holds_buffer t"
  shows "surface_ok bs sf' regions'"
  using swap_inv_step [OF assms(2), of bs] assms by (simp add: surface_ok_def)

lemma client_ids_length: "length (client_ids sf) \<le> 1"
  by (simp add: client_ids_def split: option.splits)

lemma surface_ok_cong:
  "surface_bundle sf' = surface_bundle sf \<Longrightarrow> client_buffer_resource sf' = client_buffer_resource sf \<Longrightarrow>
   surface_ok bs sf' regions = surface_ok bs sf regions"
  by (simp add: surface_ok_def surface_system_def client_ids_def)

lemma surface_shutdown_ok:
  assumes "surface_ok bs sf regions" and "surface_shutdown sf = (Returns (), sf')"
  shows "surface_ok bs sf' regions"
proof -
  let ?w = "bundle_swapper (surface_bundle sf)"
  obtain w where w: "swapper_shutdown ?w = (Returns (), w)"
      and sf': "sf' = sf\<lparr>surface_bundle := (surface_bundle sf)\<lparr>bundle_swapper := w\<rparr>\<rparr>"
    using assms(2) by (cases "swapper_shutdown ?w") (auto simp: surface_shutdown_def bundle_shutdown_def zoom_def)
  have "swap_step (surface_system sf regions) Shutdown ((surface_system sf regions)\<lparr>sw := w, asleep := 0\<rparr>)"
    by (rule swap_step.shut) (simp add: w)
  then show ?thesis
    by (rule surface_ok_step [OF assms(1)])
      (use assms(1) in \<open>simp_all add: sf' surface_system_def client_ids_def surface_ok_def\<close>)
qed

subsection \<open>The client's side\<close>

lemma reset_client_buffer_ok:
  assumes "surface_ok bs sf regions"
  obtains sf' where "reset_client_buffer sf = (Returns (), sf')" and "surface_ok bs sf' regions"
    and "sf' = sf\<lparr>client_buffer_resource := None, surface_bundle := surface_bundle sf'\<rparr>"
    and "bundle_size (surface_bundle sf') = bundle_size (surface_bundle sf)"
    and "get_bundle_pixel_format (surface_bundle sf') = get_bundle_pixel_format (surface_bundle sf)"
    and "client_queue (bundle_swapper (surface_bundle sf')) = client_queue (bundle_swapper (surface_bundle sf))"
proof (cases "client_buffer_resource sf")
  case None
  then show ?thesis
    using that [of sf] assms by (simp add: reset_client_buffer_def)
next
  case (Some t)
  let ?w = "bundle_swapper (surface_bundle sf)"
  obtain w' where cr: "client_release (tmp_buffer_id t) ?w = (Returns (), w')"
      and q: "client_queue w' = client_queue ?w"
    by (simp add: client_release_def modify_def)
  let ?sf = "sf\<lparr>client_buffer_resource := None, surface_bundle := (surface_bundle sf)\<lparr>bundle_swapper := w'\<rparr>\<rparr>"
  have "swap_step (surface_system sf regions) (Client_release (tmp_buffer_id t))
      ((surface_system sf regions)\<lparr>sw := w', client_held := remove1 (tmp_buffer_id t) (client_held (surface_system sf regions))\<rparr>)"
    by (rule swap_step.release) (simp_all add: cr client_ids_def Some)
  then have "surface_ok bs ?sf regions"
    by (rule surface_ok_step [OF assms]) (simp_all add: surface_system_def client_ids_def Some)
  moreover have "reset_client_buffer sf = (Returns (), ?sf)"
    by (simp add: reset_client_buffer_def Some bundle_drop_client_eq zoom_def cr)
  ultimately show ?thesis
    by (intro that [of ?sf]) (simp_all add: bundle_size_def get_bundle_pixel_format_def q)
qed

lemma secure_client_buffer_resource_cases:
  assumes "surface_ok bs sf regions" and "client_buffer_resource sf = None"
  obtains (got) t sf' where "secure_client_buffer_resource sf = (Returns (), sf')"
      and "client_queue (bundle_swapper (surface_bundle sf)) \<noteq> []"
      and "client_buffer_resource sf' = Some t" and "surface_ok bs sf' regions"
      and "surface_size sf' = surface_size sf" and "surface_pixel_format sf' = surface_pixel_format sf"
      and "is_hidden sf' = is_hidden sf"
  | (waits) "secure_client_buffer_resource sf = (Blocks, sf)"
      and "client_queue (bundle_swapper (surface_bundle sf)) = []"
proof (cases "client_must_wait (bundle_swapper (surface_bundle sf))")
  case True
  let ?w = "bundle_swapper (surface_bundle sf)"
  have "client_queue ?w = []"
    using True client_must_wait_iff [of bs "surface_system sf regions"] assms
    by (auto simp: surface_ok_def client_ids_def)
  moreover have "secure_client_buffer_resource sf = (Blocks, sf)"
    using True by (simp add: secure_client_buffer_resource_def secure_client_buffer_def
        new_temporary_client_buffer_def proc_simps client_acquire_def)
  ultimately show ?thesis by (intro waits)
next
  case False
  let ?w = "bundle_swapper (surface_bundle sf)"
  obtain r i w' where ca: "client_acquire ?w = (Returns (r, i), w')"
    using False by (simp add: client_acquire_def Let_def case_prod_beta)
  let ?t = "\<lparr>tmp_buffer = r, tmp_buffer_id = i\<rparr>"
  let ?sf = "sf\<lparr>client_buffer_resource := Some ?t, surface_bundle := (surface_bundle sf)\<lparr>bundle_swapper := w'\<rparr>\<rparr>"
  have s: "secure_client_buffer_resource sf = (Returns (), ?sf)"
    by (simp add: secure_client_buffer_resource_def secure_client_buffer_def
        new_temporary_client_buffer_def proc_simps ca)
  have "swap_step (surface_system sf regions) (Client_acquire i)
      ((surface_system sf regions)\<lparr>sw := w', client_held := i # client_held (surface_system sf regions)\<rparr>)"
    by (rule swap_step.acquire) (simp add: ca)
  moreover have "holds_buffer ?t"
    using client_acquire_buffers(2) [of bs "surface_system sf regions" r i w'] assms(1) ca
    by (auto simp: surface_ok_def holds_buffer_def)
  ultimately have "surface_ok bs ?sf regions"
    using assms by (auto intro!: surface_ok_step [OF assms(1)] simp: surface_system_def client_ids_def)
  then show ?thesis
    using s client_acquire_cases(2) [OF ca]
    by (intro got [of ?sf ?t]) (simp_all add: surface_size_def surface_pixel_format_def bundle_size_def
        get_bundle_pixel_format_def)
qed

lemma advance_client_buffer_cases:
  assumes "surface_ok bs sf regions"
  obtains (got) t sf' where "advance_client_buffer f (sf, c) = (Returns (), (sf', f c))"
      and "client_queue (bundle_swapper (surface_bundle sf)) \<noteq> []"
      and "client_buffer_resource sf' = Some t" and "surface_ok bs sf' regions"
      and "surface_size sf' = surface_size sf" and "surface_pixel_format sf' = surface_pixel_format sf"
      and "is_hidden sf' = is_hidden sf"
  | (waits) sf' where "advance_client_buffer f (sf, c) = (Blocks, (sf', c))"
      and "client_queue (bundle_swapper (surface_bundle sf)) = []"
      and "client_buffer_resource sf' = None" and "surface_ok bs sf' regions"
      and "surface_size sf' = surface_size sf" and "surface_pixel_format sf' = surface_pixel_format sf"
      and "is_hidden sf' = is_hidden sf"
proof -
  obtain sf1 where r: "reset_client_buffer sf = (Returns (), sf1)" and ok: "surface_ok bs sf1 regions"
    and none: "client_buffer_resource sf1 = None"
    and same: "is_hidden sf1 = is_hidden sf" "surface_size sf1 = surface_size sf" "surface_pixel_format sf1 = surface_pixel_format sf"
      "client_queue (bundle_swapper (surface_bundle sf1)) = client_queue (bundle_swapper (surface_bundle sf))"
  proof (rule reset_client_buffer_ok [OF assms])
    fix sf'
    assume "reset_client_buffer sf = (Returns (), sf')" "surface_ok bs sf' regions"
      and eq: "sf' = sf\<lparr>client_buffer_resource := None, surface_bundle := surface_bundle sf'\<rparr>"
      and "bundle_size (surface_bundle sf') = bundle_size (surface_bundle sf)"
      "get_bundle_pixel_format (surface_bundle sf') = get_bundle_pixel_format (surface_bundle sf)"
      "client_queue (bundle_swapper (surface_bundle sf')) = client_queue (bundle_swapper (surface_bundle sf))"
    moreover have "client_buffer_resource sf' = None" "is_hidden sf' = is_hidden sf"
      by (subst eq, simp)+
    ultimately show thesis
      by (intro that [of sf']) (simp_all add: surface_size_def surface_pixel_format_def)
  qed
  from ok none show ?thesis
  proof (cases rule: secure_client_buffer_resource_cases)
    case (got t sf')
    then show ?thesis
      using r same by (intro that(1) [of sf' t]) (simp_all add: advance_client_buffer_def notify_def proc_simps)
  next
    case waits
    then show ?thesis
      using r same ok none by (intro that(2) [of sf1]) (simp_all add: advance_client_buffer_def proc_simps)
  qed
qed

subsection \<open>The compositor's side\<close>

lemma graphic_region_ok:
  assumes "surface_ok bs sf []"
  obtains t sf' where "graphic_region sf = (Returns t, sf')" and "holds_buffer t"
    and "sf' = sf\<lparr>surface_bundle := surface_bundle sf'\<rparr>"
    and "surface_ok bs sf' [tmp_buffer_id t]"
    and "surface_size sf' = surface_size sf" and "surface_pixel_format sf' = surface_pixel_format sf"
proof -
  have inv: "swap_inv bs (surface_system sf [])"
    using assms by (simp add: surface_ok_def)
  obtain r i w' where "compositor_acquire (sw (surface_system sf [])) = (Returns (r, i), w')"
    by (rule compositor_acquire_possible [OF inv]) simp_all
  then have ca: "compositor_acquire (bundle_swapper (surface_bundle sf)) = (Returns (r, i), w')"
    by simp
  let ?t = "\<lparr>tmp_buffer = r, tmp_buffer_id = i\<rparr>"
  let ?sf = "sf\<lparr>surface_bundle := (surface_bundle sf)\<lparr>bundle_swapper := w'\<rparr>\<rparr>"
  have "graphic_region sf = (Returns ?t, ?sf)"
    by (simp add: graphic_region_def lock_back_buffer_def new_temporary_compositor_buffer_def proc_simps ca)
  moreover have "holds_buffer ?t"
    using compositor_acquire_buffers(2) [OF inv, of r i w'] ca by (simp add: holds_buffer_def)
  moreover have "swap_step (surface_system sf []) (Compositor_acquire i)
      ((surface_system sf [])\<lparr>sw := w', compositor_held := i # compositor_held (surface_system sf [])\<rparr>)"
    by (rule swap_step.compose) (simp add: ca)
  then have "surface_ok bs ?sf [i]"
    by (rule surface_ok_step [OF assms])
      (use assms in \<open>simp_all add: surface_system_def client_ids_def surface_ok_def\<close>)
  ultimately show ?thesis
    by (intro that [of ?t ?sf]) (simp_all add: surface_size_def surface_pixel_format_def bundle_size_def
        get_bundle_pixel_format_def)
qed

lemma drop_region_ok:
  assumes "surface_ok bs sf regions" and "tmp_buffer_id t \<in> set regions"
  obtains sf' where "on_bundle (bundle_drop_compositor t) sf = (Returns (), sf')"
    and "sf' = sf\<lparr>surface_bundle := surface_bundle sf'\<rparr>"
    and "surface_ok bs sf' (remove1 (tmp_buffer_id t) regions)"
    and "surface_size sf' = surface_size sf" and "surface_pixel_format sf' = surface_pixel_format sf"
proof -
  let ?w = "bundle_swapper (surface_bundle sf)"
  obtain w' where cr: "compositor_release (tmp_buffer_id t) ?w = (Returns (), w')"
    by (simp add: compositor_release_def modify_def)
  let ?sf = "sf\<lparr>surface_bundle := (surface_bundle sf)\<lparr>bundle_swapper := w'\<rparr>\<rparr>"
  have "swap_step (surface_system sf regions) (Compositor_release (tmp_buffer_id t))
      ((surface_system sf regions)\<lparr>sw := w',
         compositor_held := remove1 (tmp_buffer_id t) (compositor_held (surface_system sf regions)),
         asleep := asleep (surface_system sf regions) - 1\<rparr>)"
    by (rule swap_step.uncompose) (simp_all add: cr assms(2))
  then have "surface_ok bs ?sf (remove1 (tmp_buffer_id t) regions)"
    by (rule surface_ok_step [OF assms(1)])
      (use assms(1) in \<open>simp_all add: surface_system_def client_ids_def surface_ok_def\<close>)
  moreover have "on_bundle (bundle_drop_compositor t) sf = (Returns (), ?sf)"
    by (simp add: bundle_drop_compositor_eq zoom_def cr)
  ultimately show ?thesis
    by (intro that [of ?sf]) (simp_all add: surface_size_def surface_pixel_format_def bundle_size_def
        get_bundle_pixel_format_def)
qed

subsection \<open>Creation and destruction\<close>

lemma new_surface_ok:
  assumes "swap_inv bs (swap_start (bundle_swapper bd))" and "length bs = 2 \<or> length bs = 3"
    and "distinct (map buf_id bs)"
  shows "surface_ok bs (new_surface m name bd) []"
proof -
  have "surface_system (new_surface m name bd) [] = swap_start (bundle_swapper bd)"
    by (simp add: surface_system_def new_surface_def swap_start_def client_ids_def)
  then show ?thesis
    using assms by (simp add: surface_ok_def new_surface_def)
qed

text \<open>The destructor is undefined exactly when client and compositor hold all buffers.\<close>

lemma destroy_surface_object_outcome:
  assumes "surface_ok bs sf regions"
  shows "fst (destroy_surface_object sf) =
    (if length (client_ids sf) + length regions = length bs
     then Undefined ''front() of an empty compositor_queue'' else Returns ())"
proof -
  let ?w = "bundle_swapper (surface_bundle sf)"
  have "size (all_places (surface_system sf regions)) = length bs"
    using assms by (simp add: surface_ok_def swap_inv_def)
  then have len: "length (client_queue ?w) + length (compositor_queue ?w) + length (client_ids sf)
      + length regions = length bs"
    by (simp add: all_places_def)
  have "fst (reset_client_buffer sf') = Returns ()" for sf'
    by (simp add: reset_client_buffer_def bundle_drop_client_eq zoom_def client_release_def modify_def
        split: option.splits)
  then show ?thesis
    using len
    by (cases "client_queue ?w"; cases "compositor_queue ?w")
      (auto simp: destroy_surface_object_def surface_shutdown_def bundle_shutdown_def swapper_shutdown_def
        proc_simps)
qed

section \<open>The buffers of all surfaces\<close>

text \<open>
  \<open>held\<close> lists the regions that compositor threads have locked and not yet dropped, with the
  surface each belongs to.
\<close>

type_synonym held_regions = "(surface_ref \<times> temporary_buffer) list"

definition regions_of :: "surface_ref \<Rightarrow> held_regions \<Rightarrow> buffer_id list" where
  "regions_of r held = map (\<lambda>p. tmp_buffer_id (snd p)) (filter (\<lambda>p. fst p = r) held)"

definition stack_ok :: "('g, 'w) surface_stack \<Rightarrow> held_regions \<Rightarrow> bool" where
  "stack_ok s held \<longleftrightarrow>
     distinct (map fst (surfaces s))
     \<and> (\<forall>r sf. (r, sf) \<in> set (surfaces s) \<longrightarrow> r < next_surface s \<and> (\<exists>bs. surface_ok bs sf (regions_of r held)))
     \<and> (\<forall>p \<in> set held. fst p < next_surface s)"

text \<open>What is asked of an allocator: the few buffers of one surface have different ids.\<close>

definition distinct_ids_alloc :: "'g buffer_allocator \<Rightarrow> bool" where
  "distinct_ids_alloc alloc \<longleftrightarrow>
     (\<forall>n req g bs g'. n \<le> 3 \<longrightarrow> alloc_buffers alloc n req [] g = (Returns bs, g') \<longrightarrow> distinct (map buf_id bs))"

lemma gbm_distinct_ids: "distinct_ids_alloc (gbm_alloc_buffer lib)"
proof -
  have "distinct (map buf_id bs)"
    if "n \<le> 3" "alloc_buffers (gbm_alloc_buffer lib) n req [] g = (Returns bs, g')" for n req g bs g'
    using gbm_alloc_buffers_ids [OF that(2)] generate_buffer_ids_distinct [of n "next_buffer_id g"] that(1)
    by (simp add: id_cycle_def)
  then show ?thesis by (simp add: distinct_ids_alloc_def)
qed

lemma stack_ok_cong:
  "surfaces s' = surfaces s \<Longrightarrow> next_surface s' = next_surface s \<Longrightarrow> stack_ok s' held = stack_ok s held"
  by (simp add: stack_ok_def)

lemma emit_change_notification_simps [simp]:
  "surfaces (emit_change_notification s) = surfaces s"
  "next_surface (emit_change_notification s) = next_surface s"
  "stack_allocator (emit_change_notification s) = stack_allocator s"
  "notify_change (emit_change_notification s) = notify_change s"
  "listener (emit_change_notification s) = notify_change s (listener s)"
  "lock_surface r (emit_change_notification s) = lock_surface r s"
  by (simp_all add: emit_change_notification_def lock_surface_def)

lemma stack_ok_emit [simp]: "stack_ok (emit_change_notification s) held = stack_ok s held"
  by (rule stack_ok_cong) simp_all

lemma put_surface_simps [simp]:
  "map fst (surfaces (put_surface r sf s)) = map fst (surfaces s)"
  "next_surface (put_surface r sf s) = next_surface s"
  "stack_allocator (put_surface r sf s) = stack_allocator s"
  "notify_change (put_surface r sf s) = notify_change s"
  "listener (put_surface r sf s) = listener s"
  by (simp_all add: put_surface_def comp_def)

lemma lock_put_surface:
  "lock_surface r' (put_surface r sf s) =
     (if r' = r \<and> lock_surface r s \<noteq> None then Some sf else lock_surface r' s)"
proof -
  have "map_of (map (\<lambda>p. if fst p = r then (r, sf) else p) xs) r' =
      (if r' = r \<and> map_of xs r \<noteq> None then Some sf else map_of xs r')" for xs
    by (induction xs) auto
  then show ?thesis by (simp add: lock_surface_def put_surface_def)
qed

lemma lock_surface_ok:
  assumes "stack_ok s held" and "lock_surface r s = Some sf"
  obtains bs where "surface_ok bs sf (regions_of r held)"
proof -
  have "(r, sf) \<in> set (surfaces s)"
    using assms(2) by (simp add: lock_surface_def map_of_SomeD)
  then show ?thesis
    using assms(1) that unfolding stack_ok_def by blast
qed

text \<open>The calls that others make on a surface they have locked.\<close>

inductive surface_call :: "(surface \<times> ('g, 'w) surface_stack, unit) proc \<Rightarrow> bool" where
  "surface_call (advance_client_buffer emit_change_notification)"
| "surface_call (move_to emit_change_notification p)"
| "surface_call (set_rotation glm_rotate emit_change_notification degrees axis)"
| "surface_call (set_alpha emit_change_notification a)"
| "surface_call (set_hidden emit_change_notification hide)"
| "surface_call (on_self surface_shutdown)"

lemma surface_call_effect:
  assumes "surface_call m" and "m (sf, s) = (x, (sf', s'))" and "\<And>w. x \<noteq> Undefined w"
  shows "(s' = s \<or> s' = emit_change_notification s) \<and> (\<forall>bs regions. surface_ok bs sf regions \<longrightarrow> surface_ok bs sf' regions)"
  using assms
proof (induction rule: surface_call.induct)
  case 1
  have "(s' = s \<or> s' = emit_change_notification s) \<and> surface_ok bs sf' regions"
    if "surface_ok bs sf regions" for bs regions
    using that by (cases rule: advance_client_buffer_cases [where f = emit_change_notification and c = s])
      (use 1 in auto)
  moreover have "s' = s \<or> s' = emit_change_notification s"
    using 1(1) by (auto simp: advance_client_buffer_def notify_def proc_simps split: prod.splits res.splits)
  ultimately show ?case by blast
next
  case 6
  have "\<exists>u. x = Returns u"
    using 6 by (auto simp: zoom_def surface_shutdown_def bundle_shutdown_def swapper_shutdown_def split: prod.splits if_splits)
  then show ?case
    using 6(1) by (auto simp: zoom_def [of fst] split: prod.splits intro: surface_shutdown_ok)
qed (auto simp: move_to_def set_rotation_def set_alpha_def set_hidden_def notify_def proc_simps
    intro: surface_ok_cong [THEN iffD1, rotated 2])

text \<open>A change of one surface, and of its locked regions only, keeps the rest in order.\<close>

lemma stack_ok_put:
  assumes "stack_ok s held" and "lock_surface r s = Some sf"
    and "\<And>bs. surface_ok bs sf (regions_of r held) \<Longrightarrow> surface_ok bs sf' (regions_of r held')"
    and "\<And>r'. r' \<noteq> r \<Longrightarrow> regions_of r' held' = regions_of r' held"
    and "\<And>p. p \<in> set held' \<Longrightarrow> fst p = r \<or> p \<in> set held"
  shows "stack_ok (put_surface r sf' s) held'"
proof -
  have r: "(r, sf) \<in> set (surfaces s)"
    using assms(2) by (simp add: lock_surface_def map_of_SomeD)
  have "r' < next_surface s \<and> (\<exists>bs. surface_ok bs sf'' (regions_of r' held'))"
    if "(r', sf'') \<in> set (surfaces (put_surface r sf' s))" for r' sf''
  proof -
    have "r' = r \<and> sf'' = sf' \<or> r' \<noteq> r \<and> (r', sf'') \<in> set (surfaces s)"
      using that by (auto simp: put_surface_def split: if_splits)
    then show ?thesis
    proof (elim disjE conjE)
      assume "r' = r" "sf'' = sf'"
      then show ?thesis
        using assms(1,3) r unfolding stack_ok_def by blast
    next
      assume "r' \<noteq> r" "(r', sf'') \<in> set (surfaces s)"
      then show ?thesis
        using assms(1,4) unfolding stack_ok_def by metis
    qed
  qed
  moreover have "fst p < next_surface s" if "p \<in> set held'" for p
    using assms(5) [OF that] assms(1) r by (auto simp: stack_ok_def)
  ultimately show ?thesis
    using assms(1) by (simp add: stack_ok_def)
qed

lemma stack_ok_new: "stack_ok (new_surface_stack g w) []"
  by (simp add: stack_ok_def new_surface_stack_def)

subsection \<open>Creating and destroying surfaces\<close>

lemma create_surface_cases:
  assumes "create_surface env params s = (x, s')"
  obtains (created) bd g' where "x = Returns (next_surface s)"
      and "create_buffer_bundle (env_alloc env) (env_number_of_buffers env)
             \<lparr>bp_size = param_size params, bp_format = param_pixel_format params,
              bp_usage = param_buffer_usage params\<rparr> (stack_allocator s) = (Returns bd, g')"
      and "s' = emit_change_notification (s\<lparr>stack_allocator := g',
             surfaces := surfaces s @ [(next_surface s, new_surface (env_mat4 env) (param_name params) bd)],
             next_surface := Suc (next_surface s)\<rparr>)"
  | (failed) g' where "\<And>r. x \<noteq> Returns r" and "s' = s\<lparr>stack_allocator := g'\<rparr>"
  using assms
  by (cases "create_buffer_bundle (env_alloc env) (env_number_of_buffers env)
       \<lparr>bp_size = param_size params, bp_format = param_pixel_format params,
        bp_usage = param_buffer_usage params\<rparr> (stack_allocator s)")
    (auto simp: create_surface_def proc_simps Let_def split: res.splits)

lemma create_buffer_bundle_protocol:
  assumes "create_buffer_bundle alloc n props g = (Returns bd, g')" and "distinct_ids_alloc alloc"
  obtains bs where "length bs = nat n" and "length bs = 2 \<or> length bs = 3" and "distinct (map buf_id bs)"
    and "swap_inv bs (swap_start (bundle_swapper bd))" and "client_queue (bundle_swapper bd) = map buf_id bs"
    and "bundle_size bd = buf_size (hd bs)" and "get_bundle_pixel_format bd = buf_pixel_format (hd bs)"
proof -
  from assms(1) obtain bs g1 where bs: "alloc_buffers alloc (nat n) props [] g = (Returns bs, g1)"
    by (auto simp: create_buffer_bundle_def create_swapper_def sbind_Returns)
  have n: "n = 2 \<or> n = 3"
    using assms(1) by (simp add: create_buffer_bundle_eq [OF bs] split: if_splits)
  have len: "length bs = nat n"
    using alloc_buffers_length [OF bs] by simp
  have d: "distinct (map buf_id bs)"
  proof -
    have "nat n \<le> 3" using n by auto
    then show ?thesis using assms(2) bs unfolding distinct_ids_alloc_def by blast
  qed
  have new: "new_swapper bs = Returns (bundle_swapper bd)" and "bundle_size bd = buf_size (hd bs)"
      "get_bundle_pixel_format bd = buf_pixel_format (hd bs)" "client_queue (bundle_swapper bd) = map buf_id bs"
    using assms(1) n len
    by (auto simp: create_buffer_bundle_eq [OF bs] new_swapper_eq new_buffer_bundle_def bundle_size_def
        get_bundle_pixel_format_def)
  then show ?thesis
    using that [of bs] len n d swap_inv_start [OF new d] by auto
qed

lemma regions_of_fresh: "(\<And>p. p \<in> set held \<Longrightarrow> fst p < n) \<Longrightarrow> regions_of n held = []"
  by (force simp: regions_of_def filter_empty_conv)

lemma create_surface_stack_ok:
  assumes "stack_ok s held" and "distinct_ids_alloc (env_alloc env)"
    and "create_surface env params s = (x, s')"
  shows "stack_ok s' held"
  using assms(3)
proof (cases rule: create_surface_cases)
  case (created bd g')
  obtain bs where "length bs = 2 \<or> length bs = 3" "distinct (map buf_id bs)"
      "swap_inv bs (swap_start (bundle_swapper bd))"
    by (rule create_buffer_bundle_protocol [OF created(2) assms(2)])
  then have "surface_ok bs (new_surface (env_mat4 env) (param_name params) bd) []"
    by (intro new_surface_ok)
  moreover have "regions_of (next_surface s) held = []"
    using assms(1) by (intro regions_of_fresh) (simp add: stack_ok_def)
  ultimately show ?thesis
    using assms(1) unfolding created(3) stack_ok_emit
    by (auto simp: stack_ok_def intro: less_SucI) (metis less_irrefl)
next
  case (failed g')
  then show ?thesis
    using assms(1) stack_ok_cong [of s' s held] by simp
qed

lemma destroy_surface_eq:
  "destroy_surface r s =
     (case lock_surface r s of
        None \<Rightarrow> (Returns (), emit_change_notification s)
      | Some sf \<Rightarrow>
          (let s' = s\<lparr>surfaces := filter (\<lambda>p. fst p \<noteq> r) (surfaces s)\<rparr>
           in case fst (destroy_surface_object sf) of
                Returns _ \<Rightarrow> (Returns (), emit_change_notification s')
              | Throws e \<Rightarrow> (Throws e, s') | Blocks \<Rightarrow> (Blocks, s') | Undefined m \<Rightarrow> (Undefined m, s')))"
  by (simp add: destroy_surface_def proc_simps Let_def split: option.splits res.splits)

lemma destroy_surface_surfaces:
  "surfaces (snd (destroy_surface r s)) = filter (\<lambda>p. fst p \<noteq> r) (surfaces s)"
  "next_surface (snd (destroy_surface r s)) = next_surface s"
proof -
  have "filter (\<lambda>p. fst p \<noteq> r) xs = xs" if "map_of xs r = None" for xs :: "(nat \<times> surface) list"
    using that by (induction xs) (auto split: if_splits)
  then show "surfaces (snd (destroy_surface r s)) = filter (\<lambda>p. fst p \<noteq> r) (surfaces s)"
      "next_surface (snd (destroy_surface r s)) = next_surface s"
    by (simp_all add: destroy_surface_eq lock_surface_def Let_def split: option.splits res.splits)
qed

lemma destroy_surface_stack_ok:
  assumes "stack_ok s held"
  shows "stack_ok (snd (destroy_surface r s)) held"
  using assms by (auto simp: stack_ok_def destroy_surface_surfaces distinct_map_filter)

section \<open>The interface of a surface builder\<close>

text \<open>
  What the shell relies on (\<^verbatim>\<open>ms::SurfaceStackModel\<close>, \<^verbatim>\<open>msh::SurfaceBuilder\<close>): a created surface is
  new and alive, a destroyed one is no longer alive, and no call touches the others.
\<close>

locale surface_builder =
  fixes build :: "'p \<Rightarrow> ('s, 'r) proc"
    and destroy :: "'r \<Rightarrow> ('s, unit) proc"
    and alive :: "'s \<Rightarrow> 'r \<Rightarrow> bool"
    and wf :: "'s \<Rightarrow> bool"
  assumes build_Returns: "wf s \<Longrightarrow> build p s = (Returns r, t) \<Longrightarrow> wf t \<and> \<not> alive s r \<and> alive t = (alive s)(r := True)"
    and build_stops: "wf s \<Longrightarrow> build p s = (x, t) \<Longrightarrow> (\<And>r. x \<noteq> Returns r) \<Longrightarrow> wf t \<and> alive t = alive s"
    and destroy_alive: "wf s \<Longrightarrow> destroy r s = (y, t) \<Longrightarrow> wf t \<and> alive t = (alive s)(r := False)"
begin

lemma build_destroy:
  assumes "wf s" and "build p s = (Returns r, t)" and "destroy r t = (x, u)"
  shows "alive u = alive s"
  using build_Returns [OF assms(1,2)] destroy_alive [of t r x u] assms(3) by (auto simp: fun_eq_iff)

lemma destroy_all:
  assumes "wf s" and "for_each destroy rs s = (Returns (), t)"
  shows "wf t \<and> alive t = (\<lambda>r. alive s r \<and> r \<notin> set rs)"
  using assms
proof (induction rs arbitrary: s)
  case Nil
  then show ?case by (simp add: ret_def)
next
  case (Cons r rs)
  then obtain u where u: "destroy r s = (Returns (), u)" "for_each destroy rs u = (Returns (), t)"
    by (auto simp: seq_Returns)
  from destroy_alive [OF Cons.prems(1) u(1)] have "wf u" "alive u = (alive s)(r := False)" by simp_all
  then show ?case
    using Cons.IH [OF _ u(2)] by (auto simp: fun_eq_iff)
qed

lemma wf_build: "wf s \<Longrightarrow> build p s = (x, t) \<Longrightarrow> wf t"
  using build_Returns build_stops by (cases x) (metis res.distinct)+

end

definition refs_ok :: "('g, 'w) surface_stack \<Rightarrow> bool" where
  "refs_ok s \<longleftrightarrow> distinct (map fst (surfaces s)) \<and> (\<forall>r \<in> fst ` set (surfaces s). r < next_surface s)"

definition surface_alive :: "('g, 'w) surface_stack \<Rightarrow> surface_ref \<Rightarrow> bool" where
  "surface_alive s r \<longleftrightarrow> lock_surface r s \<noteq> None"

lemma surface_alive_iff: "surface_alive s r \<longleftrightarrow> r \<in> fst ` set (surfaces s)"
  by (auto simp: surface_alive_def lock_surface_def map_of_eq_None_iff)

lemma stack_ok_refs_ok: "stack_ok s held \<Longrightarrow> refs_ok s"
  by (auto simp: stack_ok_def refs_ok_def)

interpretation stack_builder: surface_builder "create_surface env" destroy_surface surface_alive refs_ok
  for env :: "'g stack_env"
proof
  fix s t :: "('g, 'w) surface_stack" and p r
  assume s: "refs_ok s" and "create_surface env p s = (Returns r, t)"
  from this(2) show "refs_ok t \<and> \<not> surface_alive s r \<and> surface_alive t = (surface_alive s)(r := True)"
  proof (cases rule: create_surface_cases)
    case (created bd g')
    have "next_surface s \<notin> fst ` set (surfaces s)"
      using s by (auto simp: refs_ok_def)
    then show ?thesis
      using created s by (auto simp: refs_ok_def surface_alive_iff fun_eq_iff intro: less_SucI)
  qed blast
next
  fix s t :: "('g, 'w) surface_stack" and p x
  assume s: "refs_ok s" "create_surface env p s = (x, t)" "\<And>r. x \<noteq> Returns r"
  from s(2) show "refs_ok t \<and> surface_alive t = surface_alive s"
    by (cases rule: create_surface_cases) (use s in \<open>simp_all add: refs_ok_def surface_alive_iff fun_eq_iff\<close>)
next
  fix s t :: "('g, 'w) surface_stack" and r x
  assume s: "refs_ok s" "destroy_surface r s = (x, t)"
  then have "surfaces t = filter (\<lambda>p. fst p \<noteq> r) (surfaces s)" "next_surface t = next_surface s"
    using destroy_surface_surfaces [of r s] by simp_all
  then show "refs_ok t \<and> surface_alive t = (surface_alive s)(r := False)"
    using s(1) by (force simp: refs_ok_def surface_alive_iff fun_eq_iff distinct_map_filter)
qed

section \<open>Properties\<close>

text \<open>C11: A surface that the stack creates is a new one on top of the stack with the size and
  pixel format of the bundle that was allocated for it; it is visible, opaque, at the origin and
  has no client buffer yet; the other surfaces are as before and the change callback has run once.
  When the allocation fails the stack is as before and nobody is notified.\<close>

theorem create_surface_effect:
  assumes "create_surface env params s = (x, s')" and "refs_ok s"
  shows "case x of
     Returns r \<Rightarrow> \<not> surface_alive s r
       \<and> (\<exists>sf. surfaces s' = surfaces s @ [(r, sf)] \<and> lock_surface r s' = Some sf
            \<and> surface_name sf = param_name params \<and> \<not> is_hidden sf \<and> alpha_value sf = 1
            \<and> top_left_point sf = point_zero \<and> surface_client_buffer sf = None
            \<and> (\<exists>bd g'. create_buffer_bundle (env_alloc env) (env_number_of_buffers env)
                  \<lparr>bp_size = param_size params, bp_format = param_pixel_format params,
                   bp_usage = param_buffer_usage params\<rparr> (stack_allocator s) = (Returns bd, g')
                \<and> surface_size sf = bundle_size bd \<and> surface_pixel_format sf = get_bundle_pixel_format bd))
       \<and> listener s' = notify_change s (listener s)
   | _ \<Rightarrow> surfaces s' = surfaces s \<and> listener s' = listener s"
  using assms(1)
proof (cases rule: create_surface_cases)
  case (created bd g')
  have "next_surface s \<notin> fst ` set (surfaces s)"
    using assms(2) by (auto simp: refs_ok_def)
  then have "map_of (surfaces s) (next_surface s) = None"
    by (simp add: map_of_eq_None_iff)
  then show ?thesis
    using created
    by (auto simp: surface_alive_def lock_surface_def new_surface_def surface_client_buffer_def surface_size_def
        surface_pixel_format_def map_add_def)
next
  case (failed g')
  then show ?thesis by (auto split: res.splits)
qed

definition sample_env :: "gbm_allocator stack_env" where
  "sample_env = \<lparr>env_alloc = gbm_alloc_buffer sample_gbm, env_number_of_buffers = default_number_of_buffers,
     env_mat4 = []\<rparr>"

definition sample_params :: surface_creation_parameters where
  "sample_params = of_name ''s'' (of_size \<lparr>width = 64, height = 48\<rparr> (of_pixel_format argb_8888 a_surface))"

definition sample_stack :: "(gbm_allocator, nat) surface_stack" where
  "sample_stack = (new_surface_stack \<lparr>next_buffer_id = 1, bo_calls = 0\<rparr> 0)\<lparr>notify_change := Suc\<rparr>"

lemma sample_create:
  obtains s' where "create_surface sample_env sample_params sample_stack = (Returns 0, s')"
  by (simp add: create_surface_def create_buffer_bundle_def create_swapper_def gbm_alloc_buffer_def
      new_gbm_buffer_def sample_gbm_def sample_env_def sample_params_def params_setters sample_stack_def
      new_surface_stack_def default_number_of_buffers_def proc_simps Let_def case_prod_beta numeral_2_eq_2
      new_swapper_eq)

lemma sample_stack_ok: "stack_ok sample_stack []"
  by (simp add: sample_stack_def stack_ok_def new_surface_stack_def)

theorem create_surface_effect_witness:
  "\<exists>s'. create_surface sample_env sample_params sample_stack = (Returns 0, s')
     \<and> refs_ok sample_stack \<and> map fst (surfaces s') = [0] \<and> listener s' = 1"
proof -
  obtain s' where c: "create_surface sample_env sample_params sample_stack = (Returns 0, s')"
    by (rule sample_create)
  from create_surface_effect [OF this stack_ok_refs_ok [OF sample_stack_ok]] c stack_ok_refs_ok [OF sample_stack_ok]
  show ?thesis by (auto simp: sample_stack_def new_surface_stack_def)
qed

text \<open>C10: For a surface whose buffers are in order, \<^verbatim>\<open>advance_client_buffer\<close> never fails: it
  either gives the client a buffer that is not null and notifies, or it waits, which happens only
  when no buffer is free; either way the old client buffer has been handed to the compositor side,
  the protocol state stays in order, and size and format do not change.\<close>

theorem advance_client_buffer_ok:
  assumes "surface_ok bs sf regions" and "advance_client_buffer f (sf, c) = (x, (sf', c'))"
  shows "surface_ok bs sf' regions \<and> surface_size sf' = surface_size sf
    \<and> surface_pixel_format sf' = surface_pixel_format sf
    \<and> (if client_queue (bundle_swapper (surface_bundle sf)) = []
       then x = Blocks \<and> c' = c \<and> surface_client_buffer sf' = None
       else x = Returns () \<and> c' = f c
            \<and> (\<exists>t. surface_client_buffer sf' = Some t \<and> holds_buffer t))"
  using assms(1)
  by (cases rule: advance_client_buffer_cases [where f = f and c = c])
    (use assms(2) in \<open>auto simp: surface_client_buffer_def surface_ok_def\<close>)

theorem advance_client_buffer_ok_witness:
  "\<exists>sf bs sf' t. surface_ok bs sf [] \<and> advance_client_buffer Suc (sf, 0 :: nat) = (Returns (), (sf', 1))
     \<and> surface_client_buffer sf' = Some t \<and> holds_buffer t"
proof -
  let ?bs = "[sample_buffer 1, sample_buffer 2]"
  let ?sf = "new_surface [] [] (new_buffer_bundle sample_swapper default_buffer_properties)"
  have "surface_ok ?bs ?sf []"
    using swap_inv_start [OF new_sample_swapper sample_ids_distinct] sample_ids_distinct
    by (intro new_surface_ok) (simp_all add: new_buffer_bundle_def)
  moreover obtain x sf' c' where "advance_client_buffer Suc (?sf, 0 :: nat) = (x, (sf', c'))"
    by (metis prod.collapse)
  moreover have "client_queue (bundle_swapper (surface_bundle ?sf)) \<noteq> []"
    by (simp add: new_surface_def new_buffer_bundle_def sample_swapper_def)
  ultimately show ?thesis
    using advance_client_buffer_ok [of ?bs ?sf "[]" Suc 0 x sf' c'] by force
qed

text \<open>C12: \<^verbatim>\<open>destroy_surface\<close> takes the surface off the stack, so that every weak pointer to it is
  expired, and leaves all others alone; for a surface that is already gone it does nothing but
  notify. If the buffers are in order it is undefined exactly when the client and the compositor
  hold all buffers of the surface.\<close>

theorem destroy_surface_effect:
  assumes "stack_ok s held" and "destroy_surface r s = (x, s')"
  shows "\<not> surface_alive s' r \<and> (\<forall>r'. r' \<noteq> r \<longrightarrow> lock_surface r' s' = lock_surface r' s)
    \<and> (case lock_surface r s of
         None \<Rightarrow> x = Returns () \<and> s' = emit_change_notification s
       | Some sf \<Rightarrow> (\<exists>bs. surface_ok bs sf (regions_of r held)
           \<and> (if length (client_ids sf) + length (regions_of r held) = length bs
              then x = Undefined ''front() of an empty compositor_queue''
              else x = Returns () \<and> listener s' = notify_change s (listener s))))"
proof -
  have sfs: "surfaces s' = filter (\<lambda>p. fst p \<noteq> r) (surfaces s)"
    using destroy_surface_surfaces(1) [of r s] assms(2) by simp
  have m: "map_of (filter (\<lambda>p. fst p \<noteq> r) xs) r' = (if r' = r then None else map_of xs r')"
    for xs :: "(surface_ref \<times> surface) list" and r'
    by (induction xs) auto
  have "case lock_surface r s of
         None \<Rightarrow> x = Returns () \<and> s' = emit_change_notification s
       | Some sf \<Rightarrow> (\<exists>bs. surface_ok bs sf (regions_of r held)
           \<and> (if length (client_ids sf) + length (regions_of r held) = length bs
              then x = Undefined ''front() of an empty compositor_queue''
              else x = Returns () \<and> listener s' = notify_change s (listener s)))"
  proof (cases "lock_surface r s")
    case None
    then show ?thesis using assms(2) by (simp add: destroy_surface_eq)
  next
    case (Some sf)
    obtain bs where ok: "surface_ok bs sf (regions_of r held)"
      using lock_surface_ok [OF assms(1) Some] .
    from destroy_surface_object_outcome [OF ok] show ?thesis
      using assms(2) ok Some
      by (auto simp: destroy_surface_eq Let_def intro!: exI [of _ bs] split: if_splits)
  qed
  then show ?thesis
    by (simp add: surface_alive_def lock_surface_def sfs m)
qed

theorem destroy_surface_effect_witness:
  "\<exists>s1 s2. create_surface sample_env sample_params sample_stack = (Returns 0, s1) \<and> stack_ok s1 []
     \<and> surface_alive s1 0 \<and> destroy_surface 0 s1 = (Returns (), s2) \<and> \<not> surface_alive s2 0"
proof -
  obtain s1 where c: "create_surface sample_env sample_params sample_stack = (Returns 0, s1)"
    by (rule sample_create)
  have ok: "stack_ok s1 []"
    using create_surface_stack_ok [OF sample_stack_ok _ c] gbm_distinct_ids by (simp add: sample_env_def)
  have alive: "surface_alive s1 0"
    using stack_builder.build_Returns [OF stack_ok_refs_ok [OF sample_stack_ok] c] by simp
  obtain bd where "lock_surface 0 s1 = Some (new_surface [] ''s'' bd)"
    using c by (cases rule: create_surface_cases)
      (auto simp: lock_surface_def sample_stack_def new_surface_stack_def sample_env_def sample_params_def params_setters)
  then have "client_ids (the (lock_surface 0 s1)) = []" "lock_surface 0 s1 \<noteq> None"
    by (simp_all add: client_ids_def new_surface_def)
  moreover obtain x s2 where d: "destroy_surface 0 s1 = (x, s2)" by fastforce
  ultimately have "x = Returns () \<and> \<not> surface_alive s2 0"
    using destroy_surface_effect [OF ok d]
    by (auto simp: regions_of_def surface_ok_def split: if_splits)
  with c ok alive d show ?thesis by blast
qed

end
