(* ===== verification/Compositing.thy ===== *)
theory Compositing
  imports Surface_Stack "HOL-Library.Sublist"
begin

text \<open>
  One frame on one display buffer: \<^verbatim>\<open>mc::DefaultCompositingStrategy::render\<close> with
  \<^verbatim>\<open>mc::RenderingOperator\<close> and the buffer handling of \<^verbatim>\<open>mg::GLRenderer::render\<close>. A frame locks a
  region of every visible surface, posts, and drops the regions when the rendering operator goes
  out of scope. Between the locking and the dropping other threads run: the second half is the
  step relation of the stack's clients and one compositor. Composing is one step there: the code
  holds the stack's mutex for the whole pass, and a call of a client on a surface that falls into the
  pass acts on that surface's buffers alone, before or after the compositor has visited it.
\<close>

section \<open>Rendering a frame\<close>

text \<open>The selector takes the view area and does not look at it yet.\<close>

definition visible_in_region :: "geom_rectangle \<Rightarrow> surface \<Rightarrow> bool" where
  "visible_in_region enclosing_region sf \<longleftrightarrow> \<not> is_hidden sf"

text \<open>
  \<open>bind\<close> is \<^verbatim>\<open>bind_to_texture\<close> of the platform's buffer. The region is saved in \<^verbatim>\<open>resources\<close> after
  it has been bound; when binding fails the only reference to it goes away with the stack frame.
\<close>

definition gl_render ::
  "(buffer \<Rightarrow> unit res) \<Rightarrow> surface_ref \<Rightarrow> (surface \<times> held_regions, unit) proc" where
  "gl_render bind r =
     sbind (on_self graphic_region) (\<lambda>region. \<lambda>(sf, resources).
       let dropped = (snd (on_bundle (bundle_drop_compositor region) sf), resources)
       in case tmp_buffer region of
            None \<Rightarrow> (Undefined ''null buffer'', (sf, resources))
          | Some b \<Rightarrow>
              (case bind b of
                 Returns _ \<Rightarrow> (Returns (), (sf, resources @ [(r, region)]))
               | Throws e \<Rightarrow> (Throws e, dropped)
               | Blocks \<Rightarrow> (Blocks, (sf, resources))
               | Undefined w \<Rightarrow> (Undefined w, (sf, resources))))"

text \<open>The display buffer is an interface (\<^verbatim>\<open>mg::DisplayBuffer\<close>) over a state of its own.\<close>

record 'd display_buffer =
  db_view_area :: geom_rectangle
  db_make_current :: "('d, unit) proc"
  db_clear :: "('d, unit) proc"
  db_post_update :: "('d, unit) proc"

text \<open>Dropping a saved region: the weak pointer to the swapper locks while the surface lives.\<close>

definition drop_region :: "surface_ref \<times> temporary_buffer \<Rightarrow> ('g, 'w) surface_stack \<Rightarrow> ('g, 'w) surface_stack" where
  "drop_region p s =
     (case lock_surface (fst p) s of
        None \<Rightarrow> s
      | Some sf \<Rightarrow> put_surface (fst p) (snd (on_bundle (bundle_drop_compositor (snd p)) sf)) s)"

definition drop_regions :: "held_regions \<Rightarrow> ('g, 'w) surface_stack \<Rightarrow> ('g, 'w) surface_stack" where
  "drop_regions resources s = fold drop_region resources s"

definition render_scene ::
  "'d display_buffer \<Rightarrow> (buffer \<Rightarrow> unit res) \<Rightarrow> (('g, 'w) surface_stack \<times> held_regions, unit) proc" where
  "render_scene db bind = for_each_if (visible_in_region (db_view_area db)) (gl_render bind)"

abbreviation on_display :: "('d, 'a) proc \<Rightarrow> ('s \<times> 'd, 'a) proc" where
  "on_display \<equiv> zoom snd (\<lambda>d p. (fst p, d))"

definition render ::
  "'d display_buffer \<Rightarrow> (buffer \<Rightarrow> unit res) \<Rightarrow> (('g, 'w) surface_stack \<times> 'd, unit) proc" where
  "render db bind st =
     (case seq (on_display (db_make_current db))
             (seq (on_display (db_clear db))
               (seq (on_self (render_scene db bind)) (on_display (db_post_update db))))
             ((fst st, []), snd st) of
        (x, ((s, resources), d)) \<Rightarrow> (x, (drop_regions resources s, d)))"

section \<open>Locking the regions of a frame\<close>

lemma regions_of_append [simp]: "regions_of r (xs @ ys) = regions_of r xs @ regions_of r ys"
  by (simp add: regions_of_def)

lemma regions_of_single [simp]: "regions_of r [(q, t)] = (if q = r then [tmp_buffer_id t] else [])"
  by (simp add: regions_of_def)

lemma regions_of_Nil [simp]: "regions_of r [] = []"
  by (simp add: regions_of_def)

lemma regions_of_other: "r \<notin> fst ` set held \<Longrightarrow> regions_of r held = []"
  by (induction held) (auto simp: regions_of_def)

lemma gl_render_cases:
  assumes "surface_ok bs sf []" and "\<forall>b. bind b = Returns () \<or> (\<exists>e. bind b = Throws e)"
  obtains (bound) t sf' where "gl_render bind r (sf, res) = (Returns (), (sf', res @ [(r, t)]))"
      and "holds_buffer t" and "surface_ok bs sf' [tmp_buffer_id t]" and "profile sf' = profile sf"
  | (failed) e b sf' where "gl_render bind r (sf, res) = (Throws e, (sf', res))" and "bind b = Throws e"
      and "surface_ok bs sf' []" and "profile sf' = profile sf"
proof -
  obtain t sf' where g: "graphic_region sf = (Returns t, sf')" "holds_buffer t"
      "surface_ok bs sf' [tmp_buffer_id t]" and eq: "sf' = sf\<lparr>surface_bundle := surface_bundle sf'\<rparr>"
    using graphic_region_ok [OF assms(1)] by metis
  have "is_hidden sf' = is_hidden sf" "client_buffer_resource sf' = client_buffer_resource sf"
    by (subst eq, simp)+
  then have h: "profile sf' = profile sf"
    using surface_ok_count [OF g(3)] surface_ok_count [OF assms(1)] by (simp add: profile_def)
  obtain b where b: "tmp_buffer t = Some b"
    using g(2) by (auto simp: holds_buffer_def)
  show ?thesis
  proof (cases "bind b")
    case (Returns u)
    with g h b show ?thesis
      by (intro bound [of sf' t]) (auto simp: gl_render_def proc_simps Let_def)
  next
    case (Throws e)
    obtain sf'' where d: "on_bundle (bundle_drop_compositor t) sf' = (Returns (), sf'')"
        "surface_ok bs sf'' []" and eq': "sf'' = sf'\<lparr>surface_bundle := surface_bundle sf''\<rparr>"
      using drop_region_ok [OF g(3), of t] by auto
    have "is_hidden sf'' = is_hidden sf'" "client_buffer_resource sf'' = client_buffer_resource sf'"
      by (subst eq', simp)+
    then have "profile sf'' = profile sf'"
      using surface_ok_count [OF g(3)] surface_ok_count [OF d(2)] by (simp add: profile_def)
    with d g h b Throws show ?thesis
      by (intro failed [of e sf'' b]) (auto simp: gl_render_def sbind_def zoom_def Let_def)
  qed (use assms(2) in \<open>metis res.distinct\<close>)+
qed

text \<open>The surfaces after the visit, with the regions that have been locked.\<close>

definition visited :: "held_regions \<Rightarrow> surface_ref \<times> surface \<Rightarrow> surface_ref \<times> surface \<Rightarrow> bool" where
  "visited res p p' \<longleftrightarrow> fst p' = fst p \<and> profile (snd p') = profile (snd p)
     \<and> (\<exists>bs. surface_ok bs (snd p') (regions_of (fst p) res))"

definition visit_outcome ::
  "(buffer \<Rightarrow> unit res) \<Rightarrow> (surface_ref \<times> surface) list \<Rightarrow> unit res \<Rightarrow> (surface_ref \<times> surface) list
   \<Rightarrow> held_regions \<Rightarrow> bool" where
  "visit_outcome bind ps x ps' res \<longleftrightarrow>
     list_all2 (visited res) ps ps' \<and> (\<forall>p \<in> set res. holds_buffer (snd p))
     \<and> fst ` set res \<subseteq> fst ` set ps
     \<and> (x = Returns () \<and> map fst res = map fst (filter (\<lambda>p. \<not> is_hidden (snd p)) ps)
        \<or> (\<exists>b e. bind b = Throws e \<and> x = Throws e
             \<and> strict_prefix (map fst res) (map fst (filter (\<lambda>p. \<not> is_hidden (snd p)) ps))))"

lemma visited_Cons_other: "visited res q q' \<Longrightarrow> fst q \<noteq> r \<Longrightarrow> visited ((r, t) # res) q q'"
  by (simp add: visited_def regions_of_def)

lemma visited_unlocked: "surface_ok bs sf [] \<Longrightarrow> r \<notin> fst ` set res \<Longrightarrow> visited res (r, sf) (r, sf)"
  by (auto simp: visited_def regions_of_other)

lemma visit_outcome_skip:
  assumes "visit_outcome bind ps x ps' res" and "surface_ok bs sf []" and "is_hidden sf"
    and "r \<notin> fst ` set ps"
  shows "visit_outcome bind ((r, sf) # ps) x ((r, sf) # ps') res"
  using assms visited_unlocked [OF assms(2), of r res] by (auto simp: visit_outcome_def)

lemma visit_outcome_lock:
  assumes "visit_outcome bind ps x ps' res" and "surface_ok bs sf' [tmp_buffer_id t]" and "holds_buffer t"
    and "\<not> is_hidden sf" and "profile sf' = profile sf" and "r \<notin> fst ` set ps"
  shows "visit_outcome bind ((r, sf) # ps) x ((r, sf') # ps') ((r, t) # res)"
proof -
  have "r \<notin> fst ` set res" using assms(1,6) by (auto simp: visit_outcome_def)
  then have "regions_of r ((r, t) # res) = [tmp_buffer_id t]"
    using regions_of_other [of r res] by (simp add: regions_of_def)
  moreover have "list_all2 (visited ((r, t) # res)) ps ps'"
    using assms(1,6) by (auto simp: visit_outcome_def intro!: visited_Cons_other elim!: list.rel_mono_strong)
  ultimately show ?thesis
    using assms by (auto simp: visit_outcome_def visited_def)
qed

lemma visit_outcome_fail:
  assumes "\<And>p. p \<in> set ps \<Longrightarrow> \<exists>bs. surface_ok bs (snd p) []" and "surface_ok bs sf' []"
    and "profile sf' = profile sf" and "bind b = Throws e" and "\<not> is_hidden sf"
  shows "visit_outcome bind ((r, sf) # ps) (Throws e) ((r, sf') # ps) []"
  using assms by (auto simp: visit_outcome_def visited_def list_all2_same)

lemma visit_surfaces_ok:
  assumes "\<And>p. p \<in> set ps \<Longrightarrow> \<exists>bs. surface_ok bs (snd p) []" and "distinct (map fst ps)"
    and bind: "\<forall>b. bind b = Returns () \<or> (\<exists>e. bind b = Throws e)"
  shows "\<exists>x ps' res'. visit_surfaces (visible_in_region area) (gl_render bind) ps (done, res)
      = (x, (rev ps' @ done, res @ res')) \<and> visit_outcome bind ps x ps' res'"
  using assms(1,2)
proof (induction ps arbitrary: "done" res)
  case Nil
  then show ?case by (simp add: visit_outcome_def)
next
  case (Cons p ps)
  obtain r sf where p: "p = (r, sf)" by fastforce
  obtain bs where ok: "surface_ok bs sf []"
    using Cons.prems(1) [of p] p by auto
  have fresh: "r \<notin> fst ` set ps" and dist: "distinct (map fst ps)"
    using Cons.prems(2) p by auto
  have visible: "visible_in_region area sf \<longleftrightarrow> \<not> is_hidden sf"
    by (simp add: visible_in_region_def)
  note IH = Cons.IH [OF Cons.prems(1) dist]
  show ?case
  proof (cases "is_hidden sf")
    case True
    obtain x ps' res' where v: "visit_surfaces (visible_in_region area) (gl_render bind) ps (p # done, res)
          = (x, (rev ps' @ p # done, res @ res'))" "visit_outcome bind ps x ps' res'"
      using IH [of "p # done" res] by auto
    show ?thesis
      using v visit_outcome_skip [OF v(2) ok True fresh] True p visible
      by (intro exI [of _ x] exI [of _ "p # ps'"] exI [of _ res']) simp
  next
    case False
    from ok bind show ?thesis
    proof (cases rule: gl_render_cases [where r = r and res = res])
      case (bound t sf')
      obtain x ps' res' where v: "visit_surfaces (visible_in_region area) (gl_render bind) ps
            ((r, sf') # done, res @ [(r, t)]) = (x, (rev ps' @ (r, sf') # done, (res @ [(r, t)]) @ res'))"
          "visit_outcome bind ps x ps' res'"
        using IH [of "(r, sf') # done" "res @ [(r, t)]"] by auto
      show ?thesis
        using v visit_outcome_lock [OF v(2) bound(3,2), of sf r] bound False p visible fresh
        by (intro exI [of _ x] exI [of _ "(r, sf') # ps'"] exI [of _ "(r, t) # res'"]) simp
    next
      case (failed e b sf')
      show ?thesis
        using visit_outcome_fail [of ps bs sf' sf bind b e r] Cons.prems(1) failed False p visible
        by (intro exI [of _ "Throws e"] exI [of _ "(r, sf') # ps"] exI [of _ "[]"]) simp
    qed
  qed
qed

section \<open>A frame on a stack in order\<close>

lemma render_scene_outcome:
  assumes "stack_ok s []" and "\<forall>b. bind b = Returns () \<or> (\<exists>e. bind b = Throws e)"
  obtains x ss res where "render_scene db bind (s, []) = (x, (s\<lparr>surfaces := ss\<rparr>, res))"
    and "stack_ok (s\<lparr>surfaces := ss\<rparr>) res" and "map fst ss = map fst (surfaces s)"
    and "map (\<lambda>p. (fst p, profile (snd p))) ss = map (\<lambda>p. (fst p, profile (snd p))) (surfaces s)"
    and "\<forall>p \<in> set res. holds_buffer (snd p)"
    and "x = Returns () \<and> map fst res = map fst (filter (\<lambda>p. \<not> is_hidden (snd p)) (rev (surfaces s)))
         \<or> (\<exists>b e. bind b = Throws e \<and> x = Throws e
              \<and> strict_prefix (map fst res) (map fst (filter (\<lambda>p. \<not> is_hidden (snd p)) (rev (surfaces s)))))"
proof -
  have ok: "\<exists>bs. surface_ok bs (snd p) []" if "p \<in> set (rev (surfaces s))" for p
    using assms(1) that by (cases p) (auto simp: stack_ok_def)
  have "distinct (map fst (rev (surfaces s)))"
    using assms(1) by (simp add: stack_ok_def rev_map [symmetric])
  from visit_surfaces_ok [OF ok this assms(2), of "db_view_area db" "[]" "[]"]
  obtain x ps' res where v: "visit_surfaces (visible_in_region (db_view_area db)) (gl_render bind)
        (rev (surfaces s)) ([], []) = (x, (rev ps', res))" and o: "visit_outcome bind (rev (surfaces s)) x ps' res"
    by auto
  have l: "list_all2 (visited res) (rev (surfaces s)) ps'"
    using o by (simp add: visit_outcome_def)
  then have fsts: "map fst ps' = map fst (rev (surfaces s))"
      and counts: "map (\<lambda>p. (fst p, profile (snd p))) ps'
        = map (\<lambda>p. (fst p, profile (snd p))) (rev (surfaces s))"
    by (auto simp: visited_def list_all2_conv_all_nth intro!: nth_equalityI)
  have "stack_ok (s\<lparr>surfaces := rev ps'\<rparr>) res"
  proof -
    have "r < next_surface s \<and> (\<exists>bs. surface_ok bs sf (regions_of r res))" if m: "(r, sf) \<in> set ps'" for r sf
    proof -
      obtain i where i: "i < length ps'" "ps' ! i = (r, sf)"
        using m by (auto simp: in_set_conv_nth)
      then have vi: "visited res (rev (surfaces s) ! i) (r, sf)" and i': "i < length (rev (surfaces s))"
        using l by (auto simp: list_all2_conv_all_nth)
      obtain q sf0 where q: "rev (surfaces s) ! i = (q, sf0)" by fastforce
      then have "(q, sf0) \<in> set (surfaces s)"
        using nth_mem [OF i'] by simp
      moreover have "q = r" "\<exists>bs. surface_ok bs sf (regions_of r res)"
        using vi by (auto simp: visited_def q)
      ultimately show ?thesis
        using assms(1) unfolding stack_ok_def by blast
    qed
    moreover have "fst p < next_surface s" if "p \<in> set res" for p
      using o that assms(1) by (fastforce simp: visit_outcome_def stack_ok_def)
    ultimately show ?thesis
      using fsts assms(1) by (simp add: stack_ok_def rev_map [symmetric])
  qed
  then show ?thesis
    using v o fsts counts
    by (intro that [of x "rev ps'" res])
      (auto simp: render_scene_def for_each_if_def visit_outcome_def rev_map [symmetric])
qed

lemma render_scene_stack_ok:
  assumes "stack_ok s []" and "\<forall>b. bind b = Returns () \<or> (\<exists>e. bind b = Throws e)"
    and "render_scene db bind (s, []) = (x, (s', res))"
  shows "stack_ok s' res"
  by (rule render_scene_outcome [OF assms(1,2), of db]) (use assms(3) in simp)

lemma drop_region_surface_ok:
  assumes "surface_ok bs sf (tmp_buffer_id t # regions)"
  shows "surface_ok bs (snd (on_bundle (bundle_drop_compositor t) sf)) regions"
  by (rule drop_region_ok [OF assms, of t]) simp_all

lemma drop_region_stack_ok:
  assumes "stack_ok s (p # held)"
  shows "stack_ok (drop_region p s) held"
proof (cases "lock_surface (fst p) s")
  case None
  have "regions_of r held = regions_of r (p # held)" if "r \<noteq> fst p" for r
    using that by (simp add: regions_of_def)
  moreover have "r \<noteq> fst p" if "(r, sf) \<in> set (surfaces s)" for r sf
    using None that by (auto simp: lock_surface_def map_of_eq_None_iff intro: rev_image_eqI)
  ultimately have "stack_ok s held"
    using assms unfolding stack_ok_def by (metis list.set_intros(2))
  then show ?thesis using None by (simp add: drop_region_def)
next
  case (Some sf)
  have reg: "regions_of (fst p) (p # held) = tmp_buffer_id (snd p) # regions_of (fst p) held"
    by (simp add: regions_of_def)
  obtain bs where ok: "surface_ok bs sf (regions_of (fst p) (p # held))"
    using lock_surface_ok [OF assms Some] .
  have "surface_ok bs (snd (on_bundle (bundle_drop_compositor (snd p)) sf)) (regions_of (fst p) held)"
    if "surface_ok bs sf (regions_of (fst p) (p # held))" for bs
    using that unfolding reg by (rule drop_region_surface_ok)
  then have "stack_ok (put_surface (fst p) (snd (on_bundle (bundle_drop_compositor (snd p)) sf)) s) held"
    by (rule stack_ok_put [OF assms Some]) (auto simp: regions_of_def)
  then show ?thesis using Some by (simp add: drop_region_def)
qed

lemma drop_regions_stack_ok: "stack_ok s res \<Longrightarrow> stack_ok (drop_regions res s) []"
  by (induction res arbitrary: s) (simp_all add: drop_regions_def drop_region_stack_ok)

section \<open>Clients and one compositor\<close>

text \<open>
  The stack with the frame that the compositor has composed and not yet finished, under the
  calls of sessions on the stack and on its surfaces, in any order.
\<close>

record ('g, 'w) scene =
  scene_stack :: "('g, 'w) surface_stack"
  scene_frame :: "held_regions option"

inductive scene_step ::
  "'g stack_env \<Rightarrow> 'd display_buffer \<Rightarrow> (buffer \<Rightarrow> unit res) \<Rightarrow> ('g, 'w) scene \<Rightarrow> ('g, 'w) scene \<Rightarrow> bool"
  for env db bind where
  create: "create_surface env params (scene_stack c) = (x, s) \<Longrightarrow> scene_step env db bind c (c\<lparr>scene_stack := s\<rparr>)"
| destroy: "destroy_surface r (scene_stack c) = (Returns (), s) \<Longrightarrow> scene_step env db bind c (c\<lparr>scene_stack := s\<rparr>)"
| call: "lock_surface r (scene_stack c) = Some sf \<Longrightarrow> surface_call m \<Longrightarrow>
     on_surface r sf m (scene_stack c) = (x, s) \<Longrightarrow> (\<And>w. x \<noteq> Undefined w) \<Longrightarrow>
     scene_step env db bind c (c\<lparr>scene_stack := s\<rparr>)"
| listen: "set_change_callback f (scene_stack c) = (Returns (), s) \<Longrightarrow>
     scene_step env db bind c (c\<lparr>scene_stack := s\<rparr>)"
| compose: "scene_frame c = None \<Longrightarrow> render_scene db bind (scene_stack c, []) = (Returns (), (s, res)) \<Longrightarrow>
     scene_step env db bind c (c\<lparr>scene_stack := s, scene_frame := Some res\<rparr>)"
| give_up: "scene_frame c = None \<Longrightarrow> render_scene db bind (scene_stack c, []) = (Throws e, (s, res)) \<Longrightarrow>
     scene_step env db bind c (c\<lparr>scene_stack := drop_regions res s\<rparr>)"
| finish: "scene_frame c = Some res \<Longrightarrow>
     scene_step env db bind c (c\<lparr>scene_stack := drop_regions res (scene_stack c), scene_frame := None\<rparr>)"

inductive scene_reachable ::
  "'g stack_env \<Rightarrow> 'd display_buffer \<Rightarrow> (buffer \<Rightarrow> unit res) \<Rightarrow> ('g, 'w) scene \<Rightarrow> bool"
  for env db bind where
  start: "scene_reachable env db bind \<lparr>scene_stack = new_surface_stack g w, scene_frame = None\<rparr>"
| step: "scene_reachable env db bind c \<Longrightarrow> scene_step env db bind c c' \<Longrightarrow> scene_reachable env db bind c'"

abbreviation frame_regions :: "('g, 'w) scene \<Rightarrow> held_regions" where
  "frame_regions c \<equiv> (case scene_frame c of None \<Rightarrow> [] | Some res \<Rightarrow> res)"

lemma surface_call_stack_ok:
  assumes "stack_ok s held" and "lock_surface r s = Some sf" and "surface_call m"
    and "on_surface r sf m s = (x, s')" and "\<And>w. x \<noteq> Undefined w"
  shows "stack_ok s' held"
proof -
  obtain sf' s1 where m: "m (sf, s) = (x, (sf', s1))" and s': "s' = put_surface r sf' s1"
    using assms(4) by (auto simp: on_surface_def split: prod.splits)
  note e = surface_call_effect [OF assms(3) m assms(5)]
  have "stack_ok s1 held" "lock_surface r s1 = Some sf"
    using e assms(1,2) by auto
  then show ?thesis
    unfolding s' using e by (auto intro: stack_ok_put)
qed

lemma scene_reachable_ok:
  assumes "scene_reachable env db bind c" and "distinct_ids_alloc (env_alloc env)"
    and "\<forall>b. bind b = Returns () \<or> (\<exists>e. bind b = Throws e)"
  shows "stack_ok (scene_stack c) (frame_regions c)"
  using assms(1)
proof (induction rule: scene_reachable.induct)
  case (start g w)
  show ?case by (simp add: stack_ok_new)
next
  case (step c c')
  from step.hyps(2) step.IH show ?case
  proof (induction rule: scene_step.induct)
    case (create params c x s)
    then show ?case using create_surface_stack_ok [OF _ assms(2)] by auto
  next
    case (destroy r c s)
    then show ?case using destroy_surface_stack_ok [of "scene_stack c" "frame_regions c" r] by auto
  next
    case (call r c sf m x s)
    then show ?case using surface_call_stack_ok [of "scene_stack c" "frame_regions c" r sf m x s] by auto
  next
    case (listen f c s)
    then show ?case using stack_ok_cong [of s "scene_stack c"] by (auto simp: set_change_callback_def modify_def)
  next
    case (compose c s res)
    then show ?case
      using render_scene_stack_ok [OF _ assms(3) compose(2)] by simp
  next
    case (give_up c e s res)
    then have "stack_ok s res"
      using render_scene_stack_ok [OF _ assms(3) give_up(2)] by simp
    then show ?case using give_up(1) by (simp add: drop_regions_stack_ok)
  next
    case (finish c res)
    then show ?case by (simp add: drop_regions_stack_ok)
  qed
qed

lemma drop_regions_refs: "map fst (surfaces (drop_regions res s)) = map fst (surfaces s)"
proof (induction res arbitrary: s)
  case (Cons p res)
  have "map fst (surfaces (drop_region p s)) = map fst (surfaces s)"
    by (simp add: drop_region_def split: option.splits)
  then show ?case using Cons.IH [of "drop_region p s"] by (simp add: drop_regions_def)
qed (simp add: drop_regions_def)

lemma render_scene_locked:
  assumes "stack_ok s []" and "render_scene db bind (s, []) = (Returns (), (s', res))"
    and "\<forall>b. bind b = Returns () \<or> (\<exists>e. bind b = Throws e)"
    and "lock_surface r s = Some sf" and "\<not> is_hidden sf"
  shows "length (regions_of r res) = 1"
proof (rule render_scene_outcome [OF assms(1,3), of db])
  fix x ss res'
  assume "render_scene db bind (s, []) = (x, (s\<lparr>surfaces := ss\<rparr>, res'))"
    and o: "x = Returns () \<and> map fst res' = map fst (filter (\<lambda>p. \<not> is_hidden (snd p)) (rev (surfaces s)))
         \<or> (\<exists>b e. bind b = Throws e \<and> x = Throws e
              \<and> strict_prefix (map fst res') (map fst (filter (\<lambda>p. \<not> is_hidden (snd p)) (rev (surfaces s)))))"
  then have "res' = res" "x = Returns ()" using assms(2) by simp_all
  with o have m: "map fst res = map fst (filter (\<lambda>p. \<not> is_hidden (snd p)) (rev (surfaces s)))"
    by simp
  have d: "distinct (map fst (surfaces s))"
    using assms(1) by (simp add: stack_ok_def)
  then have "distinct (map fst res)"
    unfolding m by (simp add: distinct_map_filter rev_map [symmetric] flip: rev_filter)
  moreover have "r \<in> set (map fst res)"
    unfolding m using assms(4,5) by (force simp: lock_surface_def dest: map_of_SomeD)
  ultimately show ?thesis
    by (induction res) (force simp: regions_of_def filter_empty_conv)+
qed

section \<open>A surface with all its buffers in use\<close>

lemma map_of_map_snd: "map_of (map (\<lambda>p. (fst p, f (snd p))) xs) k = map_option f (map_of xs k)"
  by (induction xs) auto

lemma scene_created:
  assumes "create_surface env params (new_surface_stack g w) = (Returns r, s)"
  shows "scene_reachable env db bind \<lparr>scene_stack = s, scene_frame = None\<rparr>"
proof -
  let ?c = "\<lparr>scene_stack = new_surface_stack g w, scene_frame = None\<rparr>"
  have "scene_step env db bind ?c (?c\<lparr>scene_stack := s\<rparr>)"
    using assms by (intro scene_step.create [of env params _ "Returns r"]) simp
  from scene_reachable.step [OF scene_reachable.start this] show ?thesis by simp
qed

lemma created_surface:
  assumes "create_surface env params (new_surface_stack g w) = (Returns r, s)"
    and "distinct_ids_alloc (env_alloc env)"
  obtains sf bs where "lock_surface r s = Some sf" and "surface_ok bs sf []" and "\<not> is_hidden sf"
    and "length bs = nat (env_number_of_buffers env)"
    and "client_queue (bundle_swapper (surface_bundle sf)) \<noteq> []"
  using assms(1)
proof (cases rule: create_surface_cases)
  case (created bd g')
  obtain bs where bs: "length bs = nat (env_number_of_buffers env)" "length bs = 2 \<or> length bs = 3"
      "distinct (map buf_id bs)" "swap_inv bs (swap_start (bundle_swapper bd))"
      "client_queue (bundle_swapper bd) = map buf_id bs"
    by (rule create_buffer_bundle_protocol [OF created(2) assms(2)])
  then have "surface_ok bs (new_surface (env_mat4 env) (param_name params) bd) []"
    by (intro new_surface_ok)
  then show ?thesis
    using created bs
    by (intro that [of "new_surface (env_mat4 env) (param_name params) bd" bs])
      (auto simp: lock_surface_def new_surface_stack_def new_surface_def)
qed blast

lemma busy_scene:
  fixes s :: "('g, 'w) surface_stack"
  assumes "create_surface env params (new_surface_stack g w) = (Returns r, s)"
    and ids: "distinct_ids_alloc (env_alloc env)" and bind: "\<forall>b. bind b = Returns ()"
  obtains c :: "('g, 'w) scene" and sf bs where "scene_reachable env db bind c" and "scene_frame c \<noteq> None"
    and "lock_surface r (scene_stack c) = Some sf" and "surface_ok bs sf (regions_of r (frame_regions c))"
    and "length bs = nat (env_number_of_buffers env)" and "length (client_ids sf) = 1"
    and "length (regions_of r (frame_regions c)) = 1"
proof -
  let ?c0 = "\<lparr>scene_stack = s, scene_frame = None\<rparr>"
  have bind': "\<forall>b. bind b = Returns () \<or> (\<exists>e. bind b = Throws e)"
    using bind by simp
  have c0: "scene_reachable env db bind ?c0"
    by (rule scene_created) (rule assms(1))
  obtain sf bs where sf: "lock_surface r s = Some sf" "surface_ok bs sf []" "\<not> is_hidden sf"
      "length bs = nat (env_number_of_buffers env)" "client_queue (bundle_swapper (surface_bundle sf)) \<noteq> []"
    using created_surface [OF assms(1) ids] .
  obtain t sf1 where adv: "advance_client_buffer emit_change_notification (sf, s)
        = (Returns (), (sf1, emit_change_notification s))" and t: "client_buffer_resource sf1 = Some t"
      and ok1: "surface_ok bs sf1 []" and nh: "\<not> is_hidden sf1"
    using sf(2) by (cases rule: advance_client_buffer_cases [where f = emit_change_notification and c = s])
      (use sf(3,5) in auto)
  let ?s1 = "put_surface r sf1 (emit_change_notification s)"
  have "on_surface r sf (advance_client_buffer emit_change_notification) s = (Returns (), ?s1)"
    by (simp add: on_surface_def adv)
  then have "scene_step env db bind ?c0 (?c0\<lparr>scene_stack := ?s1\<rparr>)"
    using sf(1)
    by (intro scene_step.call [of r _ sf "advance_client_buffer emit_change_notification" "Returns ()"])
      (simp_all add: surface_call.intros)
  with c0 have c1: "scene_reachable env db bind (?c0\<lparr>scene_stack := ?s1\<rparr>)"
    by (rule scene_reachable.step)
  have so: "stack_ok ?s1 []"
    using scene_reachable_ok [OF c1 ids bind'] by simp
  have l1: "lock_surface r ?s1 = Some sf1"
    by (simp add: lock_put_surface sf(1))
  obtain ss res where rs: "render_scene db bind (?s1, []) = (Returns (), (?s1\<lparr>surfaces := ss\<rparr>, res))"
    and pr: "map (\<lambda>p. (fst p, profile (snd p))) ss = map (\<lambda>p. (fst p, profile (snd p))) (surfaces ?s1)"
    by (rule render_scene_outcome [OF so bind', of db]) (use bind in auto)
  let ?c2 = "?c0\<lparr>scene_stack := ?s1\<lparr>surfaces := ss\<rparr>, scene_frame := Some res\<rparr>"
  have "scene_step env db bind (?c0\<lparr>scene_stack := ?s1\<rparr>) ?c2"
    using scene_step.compose [of "?c0\<lparr>scene_stack := ?s1\<rparr>" db bind "?s1\<lparr>surfaces := ss\<rparr>" res env] rs by simp
  with c1 have c2: "scene_reachable env db bind ?c2"
    by (rule scene_reachable.step)
  have "map_option profile (map_of ss r) = map_option profile (map_of (surfaces ?s1) r)"
    using arg_cong [OF pr, of "\<lambda>m. map_of m r"] by (simp add: map_of_map_snd)
  then obtain sf2 where l2: "lock_surface r (scene_stack ?c2) = Some sf2" and p2: "profile sf2 = profile sf1"
    using l1 by (auto simp: lock_surface_def)
  obtain bs2 where ok2: "surface_ok bs2 sf2 (regions_of r res)"
    using lock_surface_ok [OF scene_reachable_ok [OF c2 ids bind'] l2] by auto
  have "length bs2 = length bs" "length (client_ids sf2) = 1"
    using surface_ok_count [OF ok2] surface_ok_count [OF ok1] p2 t by (simp_all add: profile_def client_ids_def)
  then show ?thesis
    using that [OF c2 _ l2, of bs2] ok2 sf(4) render_scene_locked [OF so rs bind' l1 nh] by simp
qed

section \<open>Properties\<close>

text \<open>C13: In every state that sessions and one compositor can reach together, in any order of
  their calls and between any two phases of a frame, each surface of the stack has its buffers in
  order: each buffer is in one place, and the compositor's regions and the client's buffer account
  for what is not queued.\<close>

theorem scene_buffers_in_order:
  assumes "scene_reachable env db bind c" and "distinct_ids_alloc (env_alloc env)"
    and "\<forall>b. bind b = Returns () \<or> (\<exists>e. bind b = Throws e)"
  shows "stack_ok (scene_stack c) (frame_regions c)"
  using assms by (rule scene_reachable_ok)

definition sample_db :: "unit display_buffer" where
  "sample_db = \<lparr>db_view_area = \<lparr>top_left = point_zero, rect_size = \<lparr>width = 64, height = 48\<rparr>\<rparr>,
     db_make_current = ret (), db_clear = ret (), db_post_update = ret ()\<rparr>"

abbreviation sample_scene_start :: "(gbm_allocator, nat) scene" where
  "sample_scene_start \<equiv>
     \<lparr>scene_stack = new_surface_stack \<lparr>next_buffer_id = 1, bo_calls = 0\<rparr> 0, scene_frame = None\<rparr>"

abbreviation binds :: "buffer \<Rightarrow> unit res" where
  "binds \<equiv> \<lambda>_. Returns ()"

lemma sample_distinct_ids: "distinct_ids_alloc (env_alloc sample_env)"
  using gbm_distinct_ids by (simp add: sample_env_def)

lemma sample_create_start:
  obtains s where "create_surface sample_env sample_params (scene_stack sample_scene_start) = (Returns 0, s)"
  by (simp add: create_surface_def create_buffer_bundle_def create_swapper_def gbm_alloc_buffer_def
      new_gbm_buffer_def sample_gbm_def sample_env_def sample_params_def params_setters
      new_surface_stack_def default_number_of_buffers_def proc_simps Let_def case_prod_beta numeral_2_eq_2
      new_swapper_eq)

theorem scene_buffers_in_order_witness:
  "\<exists>c :: (gbm_allocator, nat) scene. scene_reachable sample_env sample_db binds c \<and> scene_frame c \<noteq> None \<and> surface_alive (scene_stack c) 0
     \<and> stack_ok (scene_stack c) (frame_regions c)"
proof -
  obtain s1 where c: "create_surface sample_env sample_params (scene_stack sample_scene_start) = (Returns 0, s1)"
    by (rule sample_create_start)
  show ?thesis
  proof (rule busy_scene [OF c [simplified] sample_distinct_ids, where bind = binds and db = sample_db])
    fix cf :: "(gbm_allocator, nat) scene" and sf
    assume "scene_reachable sample_env sample_db binds cf" "scene_frame cf \<noteq> None"
      "lock_surface 0 (scene_stack cf) = Some sf"
    with scene_buffers_in_order [OF this(1) sample_distinct_ids] show ?thesis
      by (auto simp: surface_alive_def)
  qed simp
qed

text \<open>Two surfaces, and a platform that cannot make an image from the buffer with a given id.\<close>

definition sample_two :: "(gbm_allocator, nat) surface_stack" where
  "sample_two = snd (seq (create_surface sample_env sample_params) (create_surface sample_env sample_params)
     (scene_stack sample_scene_start))"

definition fails_for :: "buffer_id \<Rightarrow> buffer \<Rightarrow> unit res" where
  "fails_for i b =
     (if buf_id b = i then Throws (runtime_error ''Failed to create EGLImage from GBM bo'') else Returns ())"

lemma fails_for_cases: "\<forall>b. fails_for i b = Returns () \<or> (\<exists>e. fails_for i b = Throws e)"
  by (simp add: fails_for_def)

lemma sample_two_refs: "map fst (surfaces sample_two) = [0, 1]"
  by code_simp

lemma sample_two_reachable: "scene_reachable sample_env db bind \<lparr>scene_stack = sample_two, scene_frame = None\<rparr>"
proof -
  obtain s1 where s1: "create_surface sample_env sample_params (scene_stack sample_scene_start) = (Returns 0, s1)"
    by (rule sample_create_start)
  let ?c = "\<lparr>scene_stack = s1, scene_frame = None\<rparr>"
  obtain x s2 where s2: "create_surface sample_env sample_params (scene_stack ?c) = (x, s2)"
    by fastforce
  have "scene_reachable sample_env db bind (?c\<lparr>scene_stack := s2\<rparr>)"
    using scene_created [OF s1 [simplified]] scene_step.create [OF s2] by (rule scene_reachable.step)
  then show ?thesis
    using s1 s2 by (simp add: sample_two_def seq_def sbind_def)
qed

lemma sample_two_ok: "stack_ok sample_two []"
  using scene_reachable_ok [OF sample_two_reachable [where db = sample_db and bind = binds] sample_distinct_ids] by simp

lemma sample_two_frame:
  "(case render_scene sample_db binds (sample_two, []) of
      (x, s, res) \<Rightarrow> (x, map (\<lambda>p. (fst p, tmp_buffer_id (snd p))) res)) = (Returns (), [(1, 4), (0, 2)])"
  by code_simp

lemma sample_two_frame_fails:
  "(case render_scene sample_db (fails_for 2) (sample_two, []) of
      (x, s, res) \<Rightarrow> (x, map (\<lambda>p. (fst p, tmp_buffer_id (snd p))) res))
   = (Throws (runtime_error ''Failed to create EGLImage from GBM bo''), [(1, 4)])"
  by code_simp

lemma sample_two_render_fails:
  "fst (render sample_db (fails_for 2) (sample_two, ()))
   = Throws (runtime_error ''Failed to create EGLImage from GBM bo'')"
  by code_simp

text \<open>C14: A compositor that has no frame in progress composes the next one without waiting and
  without undefined behaviour, whatever the clients have done. It goes through the visible surfaces
  and no hidden one, from the newest to the oldest, and each region that it locks has a buffer.
  Either it gets through all of them, or binding the buffer of one of them as a texture throws; then
  it ends with that exception and has locked exactly the regions of the surfaces before that one.\<close>

theorem frame_complete_or_binding_throws:
  assumes "scene_reachable env db bind c" and "distinct_ids_alloc (env_alloc env)"
    and "\<forall>b. bind b = Returns () \<or> (\<exists>e. bind b = Throws e)" and "scene_frame c = None"
  shows "\<exists>x s res. render_scene db bind (scene_stack c, []) = (x, (s, res))
    \<and> (\<forall>p \<in> set res. holds_buffer (snd p))
    \<and> (x = Returns ()
         \<and> map fst res = map fst (filter (\<lambda>p. \<not> is_hidden (snd p)) (rev (surfaces (scene_stack c))))
       \<or> (\<exists>b e. bind b = Throws e \<and> x = Throws e
         \<and> strict_prefix (map fst res) (map fst (filter (\<lambda>p. \<not> is_hidden (snd p)) (rev (surfaces (scene_stack c)))))))"
proof -
  have "stack_ok (scene_stack c) []"
    using scene_reachable_ok [OF assms(1,2,3)] assms(4) by simp
  from this assms(3) show ?thesis
    by (rule render_scene_outcome [where db = db]) blast
qed

theorem frame_complete_or_binding_throws_witness:
  "(\<exists>s res. scene_reachable sample_env sample_db binds \<lparr>scene_stack = sample_two, scene_frame = None\<rparr>
      \<and> render_scene sample_db binds (sample_two, []) = (Returns (), (s, res))
      \<and> map fst res = [1, 0] \<and> list_all (\<lambda>p. holds_buffer (snd p)) res)
   \<and> (\<exists>s res. scene_reachable sample_env sample_db (fails_for 2) \<lparr>scene_stack = sample_two, scene_frame = None\<rparr>
      \<and> render_scene sample_db (fails_for 2) (sample_two, [])
        = (Throws (runtime_error ''Failed to create EGLImage from GBM bo''), (s, res))
      \<and> map fst res = [1] \<and> list_all (\<lambda>p. holds_buffer (snd p)) res)"
proof (intro conjI)
  let ?c = "\<lparr>scene_stack = sample_two, scene_frame = None\<rparr>"
  have r: "scene_reachable sample_env sample_db binds ?c"
    by (rule sample_two_reachable)
  from frame_complete_or_binding_throws [OF this sample_distinct_ids] obtain x s res where
    "render_scene sample_db binds (sample_two, []) = (x, (s, res))" "list_all (\<lambda>p. holds_buffer (snd p)) res"
    by (auto simp: list_all_iff)
  with r sample_two_frame show "\<exists>s res. scene_reachable sample_env sample_db binds ?c
      \<and> render_scene sample_db binds (sample_two, []) = (Returns (), (s, res))
      \<and> map fst res = [1, 0] \<and> list_all (\<lambda>p. holds_buffer (snd p)) res"
    by auto
  have r: "scene_reachable sample_env sample_db (fails_for 2) ?c"
    by (rule sample_two_reachable)
  from frame_complete_or_binding_throws [OF this sample_distinct_ids fails_for_cases] obtain x s res where
    "render_scene sample_db (fails_for 2) (sample_two, []) = (x, (s, res))"
    "list_all (\<lambda>p. holds_buffer (snd p)) res"
    by (auto simp: list_all_iff)
  with r sample_two_frame_fails show "\<exists>s res. scene_reachable sample_env sample_db (fails_for 2) ?c
      \<and> render_scene sample_db (fails_for 2) (sample_two, [])
        = (Throws (runtime_error ''Failed to create EGLImage from GBM bo''), (s, res))
      \<and> map fst res = [1] \<and> list_all (\<lambda>p. holds_buffer (snd p)) res"
    by auto
qed

text \<open>C15: A whole frame gives back everything it took, on every path: whatever the display
  buffer's operations do (return or throw at any point) and even if binding a texture fails
  half-way, afterwards all surfaces are there, none has a locked region and their buffers are in
  order.\<close>

theorem render_gives_back:
  assumes "stack_ok s []" and "\<forall>b. bind b = Returns () \<or> (\<exists>e. bind b = Throws e)"
    and "render db bind (s, d) = (x, (s', d'))"
  shows "stack_ok s' [] \<and> map fst (surfaces s') = map fst (surfaces s)"
proof -
  let ?body = "seq (on_display (db_make_current db)) (seq (on_display (db_clear db))
     (seq (on_self (render_scene db bind)) (on_display (db_post_update db))))"
  obtain s1 res where b: "?body ((s, []), d) = (x, ((s1, res), d'))" and s': "s' = drop_regions res s1"
    using assms(3) by (auto simp: render_def split: prod.splits)
  have "stack_ok s1 res \<and> map fst (surfaces s1) = map fst (surfaces s)"
  proof (rule render_scene_outcome [OF assms(1,2), of db])
    fix y ss res'
    assume "render_scene db bind (s, []) = (y, (s\<lparr>surfaces := ss\<rparr>, res'))"
      and "stack_ok (s\<lparr>surfaces := ss\<rparr>) res'" and "map fst ss = map fst (surfaces s)"
    then show ?thesis
      using b assms(1)
      by (auto simp: proc_simps split: prod.splits res.splits)
  qed
  then show ?thesis
    unfolding s' by (simp add: drop_regions_stack_ok drop_regions_refs)
qed

theorem render_gives_back_witness:
  "\<exists>s1 t s' d'. render_scene sample_db (fails_for 2) (sample_two, [])
       = (Throws (runtime_error ''Failed to create EGLImage from GBM bo''), (s1, [(1, t)]))
     \<and> render sample_db (fails_for 2) (sample_two, ())
       = (Throws (runtime_error ''Failed to create EGLImage from GBM bo''), (s', d'))
     \<and> stack_ok s' [] \<and> map fst (surfaces s') = [0, 1]"
proof -
  obtain s' d' where r: "render sample_db (fails_for 2) (sample_two, ())
      = (Throws (runtime_error ''Failed to create EGLImage from GBM bo''), (s', d'))"
    using sample_two_render_fails by (metis prod.collapse)
  obtain s1 t where "render_scene sample_db (fails_for 2) (sample_two, [])
      = (Throws (runtime_error ''Failed to create EGLImage from GBM bo''), (s1, [(1, t)]))"
    using sample_two_frame_fails by (auto split: prod.splits)
  with render_gives_back [OF sample_two_ok fails_for_cases r] r show ?thesis
    by (auto simp: sample_two_refs)
qed

text \<open>C16: With two buffers per surface a surface can be destroyed while a frame that shows it is
  being posted, and then its destructor reads an empty queue: for every platform on which creating
  a surface succeeds there is a reachable state with a frame in progress in which
  \<^verbatim>\<open>destroy_surface\<close> is undefined.\<close>

theorem destroy_during_frame_undefined:
  fixes s :: "('g, 'w) surface_stack"
  assumes "create_surface env params (new_surface_stack g w) = (Returns r, s)"
    and "distinct_ids_alloc (env_alloc env)" and "\<forall>b. bind b = Returns ()"
    and "env_number_of_buffers env = default_number_of_buffers"
  shows "\<exists>c :: ('g, 'w) scene. scene_reachable env db bind c \<and> scene_frame c \<noteq> None
    \<and> fst (destroy_surface r (scene_stack c)) = Undefined ''front() of an empty compositor_queue''"
proof -
  obtain c :: "('g, 'w) scene" and sf bs where c: "scene_reachable env db bind c" "scene_frame c \<noteq> None"
      "lock_surface r (scene_stack c) = Some sf" "surface_ok bs sf (regions_of r (frame_regions c))"
      "length bs = nat (env_number_of_buffers env)" "length (client_ids sf) = 1"
      "length (regions_of r (frame_regions c)) = 1"
    using busy_scene [OF assms(1,2,3)] .
  from destroy_surface_object_outcome [OF c(4)] show ?thesis
    using c assms(4)
    by (intro exI [of _ c]) (simp add: destroy_surface_eq default_number_of_buffers_def)
qed

theorem destroy_during_frame_undefined_witness:
  "\<exists>c :: (gbm_allocator, nat) scene. scene_reachable sample_env sample_db binds c
     \<and> fst (destroy_surface 0 (scene_stack c)) = Undefined ''front() of an empty compositor_queue''"
proof -
  obtain s where s: "create_surface sample_env sample_params (scene_stack sample_scene_start) = (Returns 0, s)"
    by (rule sample_create_start)
  from destroy_during_frame_undefined [OF s [simplified] sample_distinct_ids, of binds sample_db]
  show ?thesis by (auto simp: sample_env_def)
qed

end
