(* ===== verification/Compositor_Threads.thy ===== *)
theory Compositor_Threads
  imports Compositing
begin

text \<open>
  The threads of \<^verbatim>\<open>mc::MultiThreadedCompositor\<close> (\<^verbatim>\<open>compositor/multi_threaded_compositor.cpp\<close>). Each
  \<^verbatim>\<open>CompositingFunctor\<close> runs a loop under its mutex; the model's thread turns go from one
  acquisition of the mutex to the next point where it is given up: asleep on \<^verbatim>\<open>run_cv\<close>, rendering,
  or returned. The compositor is the listener of the surface stack.
\<close>

section \<open>One compositing thread\<close>

datatype thread_point =
    Starting    \<comment> \<open>before the first lock\<close>
  | Asleep      \<comment> \<open>in \<^verbatim>\<open>run_cv.wait\<close>\<close>
  | Woken       \<comment> \<open>signalled, about to test the waiting condition again\<close>
  | Rendering   \<comment> \<open>in \<^verbatim>\<open>compositing_strategy->render\<close>, the mutex released\<close>
  | Ended

record compositing_functor =
  running :: bool
  compositing_scheduled :: bool
  thread :: thread_point

definition new_functor :: compositing_functor where
  "new_functor = \<lparr>running = True, compositing_scheduled = False, thread = Starting\<rparr>"

text \<open>From the test of the waiting condition on, and from the head of the loop on.\<close>

definition wait_test :: "compositing_functor \<Rightarrow> compositing_functor" where
  "wait_test f =
     (if \<not> compositing_scheduled f \<and> running f then f\<lparr>thread := Asleep\<rparr>
      else
        let g = f\<lparr>compositing_scheduled := False\<rparr>
        in if running g then g\<lparr>thread := Rendering\<rparr> else g\<lparr>thread := Ended\<rparr>)"

definition loop_head :: "compositing_functor \<Rightarrow> compositing_functor" where
  "loop_head f = (if running f then wait_test f else f\<lparr>thread := Ended\<rparr>)"

definition thread_turn :: "compositing_functor \<Rightarrow> compositing_functor" where
  "thread_turn f =
     (case thread f of
        Starting \<Rightarrow> loop_head f
      | Asleep \<Rightarrow> f
      | Woken \<Rightarrow> wait_test f
      | Rendering \<Rightarrow> loop_head f
      | Ended \<Rightarrow> f)"

definition notify_run_cv :: "compositing_functor \<Rightarrow> compositing_functor" where
  "notify_run_cv f = (if thread f = Asleep then f\<lparr>thread := Woken\<rparr> else f)"

definition schedule_compositing :: "compositing_functor \<Rightarrow> compositing_functor" where
  "schedule_compositing f =
     (if \<not> compositing_scheduled f then notify_run_cv (f\<lparr>compositing_scheduled := True\<rparr>) else f)"

definition stop_functor :: "compositing_functor \<Rightarrow> compositing_functor" where
  "stop_functor f = notify_run_cv (f\<lparr>running := False\<rparr>)"

datatype functor_action = Turn | Schedule | Stop | Spurious_wakeup

inductive functor_step :: "compositing_functor \<Rightarrow> functor_action \<Rightarrow> compositing_functor \<Rightarrow> bool" where
  "functor_step f Turn (thread_turn f)"
| "functor_step f Schedule (schedule_compositing f)"
| "functor_step f Stop (stop_functor f)"
| "thread f = Asleep \<Longrightarrow> functor_step f Spurious_wakeup (f\<lparr>thread := Woken\<rparr>)"

inductive_cases functor_stepE: "functor_step f a g"

inductive functor_reachable :: "compositing_functor \<Rightarrow> bool" where
  "functor_reachable new_functor"
| "functor_reachable f \<Longrightarrow> functor_step f a g \<Longrightarrow> functor_reachable g"

text \<open>Steps that others take while the thread does not get its turn.\<close>

inductive other_steps :: "functor_action set \<Rightarrow> compositing_functor \<Rightarrow> compositing_functor \<Rightarrow> bool" for A where
  refl: "other_steps A f f"
| step: "other_steps A f g \<Longrightarrow> a \<in> A \<Longrightarrow> functor_step g a h \<Longrightarrow> other_steps A f h"

section \<open>The compositor\<close>

text \<open>\<^verbatim>\<open>thread_functors\<close> with their \<^verbatim>\<open>threads\<close> are the listener of the stack; \<open>n\<close> is the number of
  display buffers that \<^verbatim>\<open>for_each_display_buffer\<close> visits.\<close>

definition compositor_start :: "nat \<Rightarrow> (('g, compositing_functor list) surface_stack, unit) proc" where
  "compositor_start n =
     seq (modify (\<lambda>s. s\<lparr>listener := listener s @ replicate n new_functor\<rparr>))
       (seq (set_change_callback (map schedule_compositing))
            (modify (\<lambda>s. s\<lparr>listener := map schedule_compositing (listener s)\<rparr>)))"

text \<open>\<^verbatim>\<open>join\<close> waits for every thread to return.\<close>

definition join_threads :: "(('g, compositing_functor list) surface_stack, unit) proc" where
  "join_threads s =
     (if list_all (\<lambda>f. thread f = Ended) (listener s) then (Returns (), s\<lparr>listener := []\<rparr>) else (Blocks, s))"

definition compositor_stop :: "(('g, compositing_functor list) surface_stack, unit) proc" where
  "compositor_stop =
     seq (set_change_callback (\<lambda>w. w))
       (seq (modify (\<lambda>s. s\<lparr>listener := map stop_functor (listener s)\<rparr>)) join_threads)"

section \<open>Facts\<close>

definition functor_inv :: "compositing_functor \<Rightarrow> bool" where
  "functor_inv f \<longleftrightarrow>
     (thread f = Asleep \<longrightarrow> running f \<and> \<not> compositing_scheduled f) \<and> (thread f = Ended \<longrightarrow> \<not> running f)"

lemmas functor_defs = thread_turn_def loop_head_def wait_test_def schedule_compositing_def stop_functor_def notify_run_cv_def Let_def

lemma functor_inv_step: "functor_step f a g \<Longrightarrow> functor_inv f \<Longrightarrow> functor_inv g"
  by (induction rule: functor_step.induct)
    (auto simp: functor_inv_def functor_defs split: thread_point.splits)

lemma functor_reachable_inv: "functor_reachable f \<Longrightarrow> functor_inv f"
proof (induction rule: functor_reachable.induct)
  case 1
  show ?case by (simp add: functor_inv_def new_functor_def)
next
  case (2 f a g)
  from 2(2,3) show ?case by (rule functor_inv_step)
qed

text \<open>A thread that has been asked to render, and one that has been asked to stop.\<close>

definition render_due :: "compositing_functor \<Rightarrow> bool" where
  "render_due f \<longleftrightarrow> running f \<and> compositing_scheduled f \<and> thread f \<noteq> Asleep \<and> thread f \<noteq> Ended"

definition stop_due :: "compositing_functor \<Rightarrow> bool" where
  "stop_due f \<longleftrightarrow> \<not> running f \<and> thread f \<noteq> Asleep"

lemma schedule_render_due: "functor_inv f \<Longrightarrow> running f \<Longrightarrow> render_due (schedule_compositing f)"
  by (auto simp: functor_inv_def render_due_def functor_defs)

lemma stop_stop_due: "stop_due (stop_functor f)"
  by (auto simp: stop_due_def functor_defs)

lemma render_due_other:
  "other_steps {Schedule, Spurious_wakeup} f g \<Longrightarrow> render_due f \<Longrightarrow> render_due g"
proof (induction rule: other_steps.induct)
  case (step f g a h)
  then have "render_due g" by simp
  with step.hyps(2,3) show ?case
    by (auto elim!: functor_stepE simp: render_due_def functor_defs split: if_splits)
qed

lemma stop_due_other:
  "other_steps {Schedule, Stop, Spurious_wakeup} f g \<Longrightarrow> stop_due f \<Longrightarrow> stop_due g"
proof (induction rule: other_steps.induct)
  case (step f g a h)
  then have "stop_due g" by simp
  with step.hyps(2,3) show ?case
    by (auto elim!: functor_stepE simp: stop_due_def functor_defs split: if_splits)
qed

lemma render_due_turn:
  "render_due f \<Longrightarrow> thread_turn f = f\<lparr>compositing_scheduled := False, thread := Rendering\<rparr>"
  by (cases "thread f") (auto simp: render_due_def functor_defs)

lemma stop_due_turn: "stop_due f \<Longrightarrow> thread (thread_turn f) = Ended"
  by (cases "thread f") (auto simp: stop_due_def functor_defs)

section \<open>Properties\<close>

text \<open>C17: No request to compose is lost: after \<^verbatim>\<open>schedule_compositing\<close> on a running functor, in
  whatever state its thread is, and after any further requests and spurious wakeups, the next
  turn of the thread starts a frame, and a request that arrives while a frame is being rendered
  leads to another one.\<close>

theorem schedule_never_lost:
  assumes "functor_reachable f" and "running f"
    and "other_steps {Schedule, Spurious_wakeup} (schedule_compositing f) g"
  shows "thread_turn g = g\<lparr>compositing_scheduled := False, thread := Rendering\<rparr>"
  using render_due_turn render_due_other [OF assms(3)]
    schedule_render_due [OF functor_reachable_inv [OF assms(1)] assms(2)] by blast

lemma asleep_reachable: "functor_reachable (thread_turn new_functor)"
  by (rule functor_reachable.intros(2) [OF functor_reachable.intros(1)]) (rule functor_step.intros)

theorem schedule_never_lost_witness:
  "thread (thread_turn new_functor) = Asleep
   \<and> thread (thread_turn (schedule_compositing (thread_turn new_functor))) = Rendering"
  using schedule_never_lost [OF asleep_reachable _ other_steps.refl]
  by (simp add: new_functor_def functor_defs)

text \<open>C18: Stopping ends every thread: after \<^verbatim>\<open>stop\<close>, whatever state the thread was in and
  whatever else is called, its next turn returns from the loop, so the \<^verbatim>\<open>join\<close> of the compositor
  ends and it is left without threads and deaf to changes.\<close>

theorem stop_ends_threads:
  assumes "list_all2 (\<lambda>f g. other_steps {Schedule, Stop, Spurious_wakeup} (stop_functor f) g) (listener s) gs"
  shows "\<exists>s'. join_threads (s\<lparr>listener := map thread_turn gs\<rparr>) = (Returns (), s') \<and> listener s' = []"
proof -
  have "list_all (\<lambda>f. thread f = Ended) (map thread_turn gs)"
    using assms
    by (induction rule: list_all2_induct) (auto intro: stop_due_turn stop_due_other [OF _ stop_stop_due])
  then show ?thesis by (simp add: join_threads_def)
qed

theorem stop_ends_threads_witness:
  "\<exists>s'. join_threads (((new_surface_stack () [new_functor])\<lparr>listener := map thread_turn [stop_functor new_functor]\<rparr>)
     :: (unit, compositing_functor list) surface_stack) = (Returns (), s') \<and> listener s' = []"
  by (rule stop_ends_threads) (simp add: new_surface_stack_def other_steps.refl)

text \<open>C19: While the compositor is started, every change of the scene asks every display for a new
  frame: creating or destroying a surface, and any call on a surface that does not wait, leaves
  each running functor of the compositor with a frame due.\<close>

theorem change_makes_frame_due:
  assumes "notify_change s = map schedule_compositing" and "\<forall>f \<in> set (listener s). functor_inv f \<and> running f"
    and "create_surface env params s = (Returns r, s')
      \<or> destroy_surface r s = (Returns (), s')
      \<or> on_surface r sf (advance_client_buffer emit_change_notification) s = (Returns (), s')
      \<or> on_surface r sf (move_to emit_change_notification p) s = (Returns (), s')
      \<or> on_surface r sf (set_alpha emit_change_notification a) s = (Returns (), s')
      \<or> on_surface r sf (set_rotation rot emit_change_notification deg axis) s = (Returns (), s')
      \<or> on_surface r sf (set_hidden emit_change_notification h) s = (Returns (), s')"
  shows "length (listener s') = length (listener s) \<and> (\<forall>f \<in> set (listener s'). render_due f)"
proof -
  have "listener s' = map schedule_compositing (listener s)"
    using assms(3)
  proof (elim disjE)
    assume "create_surface env params s = (Returns r, s')"
    then show ?thesis
      by (cases rule: create_surface_cases) (simp add: assms(1), blast)
  next
    assume "destroy_surface r s = (Returns (), s')"
    then show ?thesis
      by (auto simp: destroy_surface_eq assms(1) Let_def split: option.splits res.splits)
  qed (auto simp: on_surface_def advance_client_buffer_def move_to_def set_alpha_def set_rotation_def
      set_hidden_def notify_def proc_simps assms(1) split: prod.splits res.splits)
  then show ?thesis
    using assms(2) by (auto intro: schedule_render_due)
qed

theorem change_makes_frame_due_witness:
  "\<exists>s'. destroy_surface 0 (snd (compositor_start 1 (new_surface_stack () []))) = (Returns (), s')
     \<and> (\<forall>f \<in> set (listener s'). render_due f)"
proof -
  let ?s = "snd (compositor_start 1 (new_surface_stack () []))"
  have n: "notify_change ?s = map schedule_compositing"
    by (simp add: compositor_start_def set_change_callback_def proc_simps new_surface_stack_def)
  have i: "\<forall>f \<in> set (listener ?s). functor_inv f \<and> running f"
    by (simp add: compositor_start_def set_change_callback_def proc_simps new_surface_stack_def
        new_functor_def functor_inv_def functor_defs)
  obtain s' where "destroy_surface 0 ?s = (Returns (), s')"
    by (simp add: destroy_surface_eq compositor_start_def set_change_callback_def proc_simps
        new_surface_stack_def lock_surface_def)
  with change_makes_frame_due [OF n i] show ?thesis by blast
qed

end
