(* ===== verification/Shell_Surface.thy ===== *)
theory Shell_Surface
  imports Surface_Stack
begin

text \<open>
  The shell's view of surfaces: \<^verbatim>\<open>msh::Surface\<close> (\<^verbatim>\<open>shell/surface.cpp\<close>) holds a weak pointer to a
  surface of the stack and its input channel, \<^verbatim>\<open>msh::SurfaceSource\<close> makes one,
  \<^verbatim>\<open>msh::OrganisingSurfaceFactory\<close> places it first with \<^verbatim>\<open>msh::ConsumingPlacementStrategy\<close>, and
  \<^verbatim>\<open>msh::ApplicationSession\<close> (\<^verbatim>\<open>shell/application_session.cpp\<close>) keeps those of one client by id.
\<close>

section \<open>Surfaces of the shell\<close>

text \<open>\<^verbatim>\<open>MirSurfaceAttrib\<close> and \<^verbatim>\<open>MirSurfaceType\<close>: the code casts integers to them unchecked.\<close>

definition mir_surface_attrib_type :: int where "mir_surface_attrib_type = 0"
definition mir_surface_type_normal :: int where "mir_surface_type_normal = 0"
definition mir_surface_type_arraysize :: int where "mir_surface_type_arraysize = 6"

record input_channel =
  channel_client_fd :: int
  channel_server_fd :: int

record shell_surface =
  shell_input_channel :: "input_channel option"
  surface_weak :: surface_ref
  type_value :: int

definition new_shell_surface ::
  "'g stack_env \<Rightarrow> surface_creation_parameters \<Rightarrow> input_channel option \<Rightarrow> (('g, 'w) surface_stack, shell_surface) proc" where
  "new_shell_surface env params channel =
     sbind (create_surface env params) (\<lambda>r.
       ret \<lparr>shell_input_channel = channel, surface_weak = r, type_value = mir_surface_type_normal\<rparr>)"

text \<open>\<^verbatim>\<open>if (auto const& s = surface.lock()) ...\<close>, with what happens otherwise.\<close>

definition locked ::
  "shell_surface \<Rightarrow> (('g, 'w) surface_stack, 'a) proc \<Rightarrow> (surface \<times> ('g, 'w) surface_stack, 'a) proc
   \<Rightarrow> (('g, 'w) surface_stack, 'a) proc" where
  "locked sh expired m s =
     (case lock_surface (surface_weak sh) s of
        None \<Rightarrow> expired s
      | Some sf \<Rightarrow> on_surface (surface_weak sh) sf m s)"

definition invalid_surface :: "('s, 'a) proc" where
  "invalid_surface = throw (runtime_error ''Invalid surface'')"

definition shell_surface_hide :: "shell_surface \<Rightarrow> (('g, 'w) surface_stack, unit) proc" where
  "shell_surface_hide sh = locked sh (ret ()) (set_hidden emit_change_notification True)"

definition shell_surface_show :: "shell_surface \<Rightarrow> (('g, 'w) surface_stack, unit) proc" where
  "shell_surface_show sh = locked sh (ret ()) (set_hidden emit_change_notification False)"

definition shell_surface_destroy :: "shell_surface \<Rightarrow> (('g, 'w) surface_stack, unit) proc" where
  "shell_surface_destroy sh = controller_destroy_surface (surface_weak sh)"

definition shell_surface_shutdown :: "shell_surface \<Rightarrow> (('g, 'w) surface_stack, unit) proc" where
  "shell_surface_shutdown sh = locked sh (ret ()) (on_self surface_shutdown)"

definition drop_shell_surface :: "shell_surface \<Rightarrow> (('g, 'w) surface_stack, unit) proc" where
  "drop_shell_surface sh s =
     (if lock_surface (surface_weak sh) s \<noteq> None then shell_surface_destroy sh s else (Returns (), s))"

definition shell_surface_size :: "shell_surface \<Rightarrow> (('g, 'w) surface_stack, geom_size) proc" where
  "shell_surface_size sh = locked sh invalid_surface (on_self (gets surface_size))"

definition shell_surface_name :: "shell_surface \<Rightarrow> (('g, 'w) surface_stack, string) proc" where
  "shell_surface_name sh = locked sh invalid_surface (on_self (gets surface_name))"

definition shell_surface_pixel_format :: "shell_surface \<Rightarrow> (('g, 'w) surface_stack, pixel_format) proc" where
  "shell_surface_pixel_format sh = locked sh invalid_surface (on_self (gets surface_pixel_format))"

definition shell_surface_advance_client_buffer :: "shell_surface \<Rightarrow> (('g, 'w) surface_stack, unit) proc" where
  "shell_surface_advance_client_buffer sh =
     locked sh (ret ()) (advance_client_buffer emit_change_notification)"

definition shell_surface_client_buffer ::
  "shell_surface \<Rightarrow> (('g, 'w) surface_stack, temporary_buffer option) proc" where
  "shell_surface_client_buffer sh = locked sh invalid_surface (on_self (gets surface_client_buffer))"

definition supports_input :: "shell_surface \<Rightarrow> bool" where
  "supports_input sh \<longleftrightarrow> shell_input_channel sh \<noteq> None"

definition client_input_fd :: "shell_surface \<Rightarrow> int res" where
  "client_input_fd sh =
     (case shell_input_channel sh of
        None \<Rightarrow> Throws (logic_error ''Surface does not support input'')
      | Some channel \<Rightarrow> Returns (channel_client_fd channel))"

definition server_input_fd :: "shell_surface \<Rightarrow> int res" where
  "server_input_fd sh =
     (case shell_input_channel sh of
        None \<Rightarrow> Throws (logic_error ''Surface does not support input'')
      | Some channel \<Rightarrow> Returns (channel_server_fd channel))"

definition set_type :: "int \<Rightarrow> (shell_surface, bool) proc" where
  "set_type t sh =
     (if 0 \<le> t \<and> t < mir_surface_type_arraysize then (Returns True, sh\<lparr>type_value := t\<rparr>)
      else (Returns False, sh))"

definition configure :: "int \<Rightarrow> int \<Rightarrow> (shell_surface, int) proc" where
  "configure attrib v =
     (if attrib = mir_surface_attrib_type then
        sbind (set_type v) (\<lambda>valid.
          if \<not> valid then throw (logic_error ''Invalid surface type.'') else gets type_value)
      else throw (logic_error ''Invalid surface attribute.''))"

section \<open>Placement and the surface factories\<close>

text \<open>\<open>view_area\<close> is what \<^verbatim>\<open>display_area->view_area()\<close> returns.\<close>

definition place :: "geom_rectangle \<Rightarrow> surface_creation_parameters \<Rightarrow> surface_creation_parameters" where
  "place view_area request =
     (let input_width = width (param_size request); input_height = height (param_size request)
      in if input_width \<noteq> 0 \<or> input_height \<noteq> 0
         then request\<lparr>param_size := \<lparr>width = min input_width (width (rect_size view_area)),
                                     height = min input_height (height (rect_size view_area))\<rparr>\<rparr>
         else request\<lparr>param_size := rect_size view_area\<rparr>)"

text \<open>
  The stack and the number of input channels made so far; \<open>env_make_input_channel n\<close> is the
  answer of \<^verbatim>\<open>mi::InputChannelFactory\<close> to its \<open>n\<close>-th call.
\<close>

record ('g, 'w) shell_base =
  base_stack :: "('g, 'w) surface_stack"
  input_calls :: nat

record 'g shell_env =
  env_stack :: "'g stack_env"
  env_make_input_channel :: "nat \<Rightarrow> input_channel option res"
  env_view_area :: geom_rectangle

abbreviation on_stack :: "(('g, 'w) surface_stack, 'a) proc \<Rightarrow> (('g, 'w) shell_base, 'a) proc" where
  "on_stack \<equiv> zoom base_stack (\<lambda>s b. b\<lparr>base_stack := s\<rparr>)"

definition make_input_channel :: "'g shell_env \<Rightarrow> (('g, 'w) shell_base, input_channel option) proc" where
  "make_input_channel env b =
     (env_make_input_channel env (input_calls b), b\<lparr>input_calls := Suc (input_calls b)\<rparr>)"

definition source_create_surface ::
  "'g shell_env \<Rightarrow> surface_creation_parameters \<Rightarrow> (('g, 'w) shell_base, shell_surface) proc" where
  "source_create_surface env params =
     sbind (make_input_channel env) (\<lambda>channel. on_stack (new_shell_surface (env_stack env) params channel))"

definition organising_create_surface ::
  "'g shell_env \<Rightarrow> surface_creation_parameters \<Rightarrow> (('g, 'w) shell_base, shell_surface) proc" where
  "organising_create_surface env params = source_create_surface env (place (env_view_area env) params)"

section \<open>Application sessions\<close>

type_synonym surface_id = int

record application_session =
  session_name :: string
  next_surface_id :: int
  session_surfaces :: "(surface_id, shell_surface) omap"

definition new_application_session :: "string \<Rightarrow> application_session" where
  "new_application_session name = \<lparr>session_name = name, next_surface_id = 0, session_surfaces = []\<rparr>"

text \<open>The operations run on the session and the surfaces it is built over.\<close>

abbreviation on_base :: "('b, 'a) proc \<Rightarrow> ('s \<times> 'b, 'a) proc" where
  "on_base \<equiv> zoom snd (\<lambda>b p. (fst p, b))"

definition next_id :: "(application_session, surface_id) proc" where
  "next_id a = (Returns (next_surface_id a), a\<lparr>next_surface_id := s32 (next_surface_id a + 1)\<rparr>)"

text \<open>\<^verbatim>\<open>surfaces[id] = surf\<close> destroys a surface that was there before.\<close>

definition put_session_surface ::
  "surface_id \<Rightarrow> shell_surface \<Rightarrow> (application_session \<times> ('g, 'w) shell_base, unit) proc" where
  "put_session_surface i surf =
     sbind (on_self (gets (\<lambda>a. map_of (session_surfaces a) i))) (\<lambda>old.
       seq (on_self (modify (\<lambda>a. a\<lparr>session_surfaces := omap_set i surf (session_surfaces a)\<rparr>)))
         (case old of None \<Rightarrow> ret () | Some sh \<Rightarrow> on_base (on_stack (drop_shell_surface sh))))"

definition session_create_surface ::
  "'g shell_env \<Rightarrow> surface_creation_parameters \<Rightarrow> (application_session \<times> ('g, 'w) shell_base, surface_id) proc" where
  "session_create_surface env params =
     sbind (on_base (organising_create_surface env params)) (\<lambda>surf.
       sbind (on_self next_id) (\<lambda>i. seq (put_session_surface i surf) (ret i)))"

definition checked_find :: "surface_id \<Rightarrow> application_session \<Rightarrow> shell_surface res" where
  "checked_find i a =
     (case map_of (session_surfaces a) i of
        None \<Rightarrow> Throws (runtime_error ''Invalid SurfaceId'')
      | Some sh \<Rightarrow> Returns sh)"

definition get_surface :: "surface_id \<Rightarrow> application_session \<Rightarrow> shell_surface res" where
  "get_surface i a = checked_find i a"

definition default_surface :: "application_session \<Rightarrow> shell_surface option" where
  "default_surface a =
     (if session_surfaces a \<noteq> [] then Some (snd (hd (session_surfaces a))) else None)"

definition session_destroy_surface :: "surface_id \<Rightarrow> (application_session \<times> ('g, 'w) shell_base, unit) proc" where
  "session_destroy_surface i =
     sbind (\<lambda>p. (checked_find i (fst p), p)) (\<lambda>sh.
       seq (on_base (on_stack (shell_surface_destroy sh)))
         (seq (on_self (modify (\<lambda>a. a\<lparr>session_surfaces := omap_erase i (session_surfaces a)\<rparr>)))
              (on_base (on_stack (drop_shell_surface sh)))))"

definition for_session_surfaces ::
  "(shell_surface \<Rightarrow> (('g, 'w) surface_stack, unit) proc) \<Rightarrow> (application_session \<times> ('g, 'w) shell_base, unit) proc" where
  "for_session_surfaces f =
     sbind (on_self (gets session_surfaces)) (\<lambda>m. on_base (on_stack (for_each (\<lambda>id_s. f (snd id_s)) m)))"

definition session_shutdown :: "(application_session \<times> ('g, 'w) shell_base, unit) proc" where
  "session_shutdown = for_session_surfaces shell_surface_shutdown"

definition session_hide :: "(application_session \<times> ('g, 'w) shell_base, unit) proc" where
  "session_hide = for_session_surfaces shell_surface_hide"

definition session_show :: "(application_session \<times> ('g, 'w) shell_base, unit) proc" where
  "session_show = for_session_surfaces shell_surface_show"

definition configure_surface :: "surface_id \<Rightarrow> int \<Rightarrow> int \<Rightarrow> (application_session, int) proc" where
  "configure_surface i attrib v =
     sbind (\<lambda>a. (checked_find i a, a)) (\<lambda>sh a.
       case configure attrib v sh of
         (x, sh') \<Rightarrow> (x, a\<lparr>session_surfaces := omap_set i sh' (session_surfaces a)\<rparr>))"

text \<open>What the frontend does for the next buffer of a surface, up to the answer.\<close>

definition session_advance_client_buffer :: "surface_id \<Rightarrow> (application_session \<times> ('g, 'w) shell_base, unit) proc" where
  "session_advance_client_buffer i =
     sbind (\<lambda>p. (get_surface i (fst p), p)) (\<lambda>sh. on_base (on_stack (shell_surface_advance_client_buffer sh)))"

text \<open>The destructor destroys each surface, then the map drops them.\<close>

definition destroy_session_object :: "(application_session \<times> ('g, 'w) shell_base, unit) proc" where
  "destroy_session_object =
     seq (for_session_surfaces shell_surface_destroy)
       (seq (for_session_surfaces drop_shell_surface)
            (on_self (modify (\<lambda>a. a\<lparr>session_surfaces := []\<rparr>))))"

section \<open>Hiding and showing\<close>

definition hide_if :: "bool \<Rightarrow> surface_ref list \<Rightarrow> surface_ref \<times> surface \<Rightarrow> surface_ref \<times> surface" where
  "hide_if h rs p = (if fst p \<in> set rs then (fst p, (snd p)\<lparr>is_hidden := h\<rparr>) else p)"

lemma fst_hide_if [simp]: "fst (hide_if h rs p) = fst p"
  by (simp add: hide_if_def)

lemma fst_comp_hide_if [simp]: "fst \<circ> hide_if h rs = fst"
  by (simp add: fun_eq_iff)

lemma map_of_hide_if:
  "map_of (map (hide_if h rs) xs) q =
     map_option (\<lambda>sf. if q \<in> set rs then sf\<lparr>is_hidden := h\<rparr> else sf) (map_of xs q)"
  by (induction xs) (auto simp: hide_if_def)

lemma hide_if_Nil [simp]: "map (hide_if h []) xs = xs"
  by (rule map_idI) (simp add: hide_if_def)

lemma hide_if_Cons: "hide_if h rs (hide_if h [r] p) = hide_if h (r # rs) p"
  by (simp add: hide_if_def)

text \<open>What a call leaves as it was, up to the surfaces and the listener.\<close>

definition same_frame :: "('g, 'w) surface_stack \<Rightarrow> ('g, 'w) surface_stack \<Rightarrow> bool" where
  "same_frame s s' \<longleftrightarrow> next_surface s' = next_surface s \<and> stack_allocator s' = stack_allocator s
     \<and> notify_change s' = notify_change s"

lemma same_frame_refl [simp]: "same_frame s s"
  by (simp add: same_frame_def)

lemma same_frame_trans: "same_frame s t \<Longrightarrow> same_frame t u \<Longrightarrow> same_frame s u"
  by (simp add: same_frame_def)

lemma put_surface_hidden:
  assumes "lock_surface r s = Some sf" and "distinct (map fst (surfaces s))"
  shows "surfaces (put_surface r (sf\<lparr>is_hidden := h\<rparr>) s) = map (hide_if h [r]) (surfaces s)"
proof -
  have "p = (r, sf)" if "p \<in> set (surfaces s)" "fst p = r" for p
    using assms that by (cases p) (auto simp: lock_surface_def dest!: map_of_SomeD dest: eq_key_imp_eq_value)
  then show ?thesis
    by (auto simp: put_surface_def hide_if_def)
qed

lemma shell_surface_visibility:
  assumes "distinct (map fst (surfaces s))"
  obtains s' where "locked sh (ret ()) (set_hidden emit_change_notification h) s = (Returns (), s')"
    and "surfaces s' = map (hide_if h [surface_weak sh]) (surfaces s)" and "same_frame s s'"
proof (cases "lock_surface (surface_weak sh) s")
  case None
  then have "map (hide_if h [surface_weak sh]) (surfaces s) = surfaces s"
    by (force simp: lock_surface_def map_of_eq_None_iff hide_if_def intro!: map_idI)
  then show ?thesis
    using that [of s] None by (simp add: locked_def ret_def)
next
  case (Some sf)
  let ?r = "surface_weak sh"
  let ?s = "put_surface ?r (sf\<lparr>is_hidden := h\<rparr>) (emit_change_notification s)"
  have "surfaces ?s = map (hide_if h [?r]) (surfaces s)"
    using put_surface_hidden [of ?r "emit_change_notification s" sf h] Some assms by simp
  then show ?thesis
    using Some
    by (intro that [of ?s])
      (simp_all add: locked_def on_surface_def set_hidden_def notify_def proc_simps same_frame_def)
qed

lemma for_each_visibility:
  assumes "distinct (map fst (surfaces s))"
  shows "\<exists>s'. for_each (\<lambda>id_s. locked (snd id_s) (ret ()) (set_hidden emit_change_notification h)) m s
      = (Returns (), s')
    \<and> surfaces s' = map (hide_if h (map (\<lambda>p. surface_weak (snd p)) m)) (surfaces s) \<and> same_frame s s'"
  using assms
proof (induction m arbitrary: s)
  case Nil
  then show ?case by (simp add: ret_def)
next
  case (Cons p m)
  obtain s1 where s1: "locked (snd p) (ret ()) (set_hidden emit_change_notification h) s = (Returns (), s1)"
      "surfaces s1 = map (hide_if h [surface_weak (snd p)]) (surfaces s)" "same_frame s s1"
    using shell_surface_visibility [OF Cons.prems] .
  have "distinct (map fst (surfaces s1))"
    using Cons.prems s1(2) by simp
  from Cons.IH [OF this] obtain s2 where
    "for_each (\<lambda>id_s. locked (snd id_s) (ret ()) (set_hidden emit_change_notification h)) m s1 = (Returns (), s2)"
    "surfaces s2 = map (hide_if h (map (\<lambda>p. surface_weak (snd p)) m)) (surfaces s1)" "same_frame s1 s2"
    by blast
  then show ?case
    using s1 by (auto simp: seq_def sbind_def hide_if_Cons intro: same_frame_trans)
qed

definition session_refs :: "application_session \<Rightarrow> surface_ref list" where
  "session_refs a = map (\<lambda>p. surface_weak (snd p)) (session_surfaces a)"

lemma session_visibility:
  assumes "distinct (map fst (surfaces (base_stack b)))"
  shows "\<exists>s'. (if h then session_hide (a, b) else session_show (a, b)) = (Returns (), (a, b\<lparr>base_stack := s'\<rparr>))
    \<and> surfaces s' = map (hide_if h (session_refs a)) (surfaces (base_stack b)) \<and> same_frame (base_stack b) s'"
proof -
  have f: "for_session_surfaces (\<lambda>sh. locked sh (ret ()) (set_hidden emit_change_notification h)) (a, b)
      = (if h then session_hide (a, b) else session_show (a, b))"
    by (simp add: session_hide_def session_show_def shell_surface_hide_def [abs_def] shell_surface_show_def [abs_def])
  obtain s' where "for_each (\<lambda>id_s. locked (snd id_s) (ret ()) (set_hidden emit_change_notification h))
        (session_surfaces a) (base_stack b) = (Returns (), s')"
      "surfaces s' = map (hide_if h (session_refs a)) (surfaces (base_stack b))" "same_frame (base_stack b) s'"
    using for_each_visibility [OF assms, of h "session_surfaces a"] by (auto simp: session_refs_def)
  then show ?thesis
    unfolding f [symmetric] by (auto simp: for_session_surfaces_def sbind_def zoom_def gets_def)
qed

end
