(* ===== verification/Focus_Sequence.thy ===== *)
theory Focus_Sequence
  imports Mir_Prelude
begin

text \<open>
  \<^verbatim>\<open>msh::RegistrationOrderFocusSequence\<close> (\<^verbatim>\<open>shell/registration_order_focus_sequence.cpp\<close>): which session
  gets the focus after and before a given one. The loops of the code are shown to walk the cycle
  of the registered sessions.
\<close>

section \<open>The focus sequence\<close>

type_synonym session_ref = nat

text \<open>The three loops over the container, with the captured locals as the accumulator. A null
  pointer is \<^const>\<open>None\<close>.\<close>

fun successor_visit ::
  "session_ref option \<Rightarrow> session_ref \<Rightarrow> session_ref option \<times> session_ref option \<times> bool
   \<Rightarrow> session_ref option \<times> session_ref option \<times> bool" where
  "successor_visit focused_app session (result, first, found) =
     (let first' = (if first = None then Some session else first)
      in if found then ((if result = None then Some session else result), first', found)
         else if focused_app = Some session then (result, first', True)
         else (result, first', found))"

definition successor_of :: "session_ref list \<Rightarrow> session_ref option \<Rightarrow> session_ref option res" where
  "successor_of sessions focused_app =
     (case fold (successor_visit focused_app) sessions (None, None, False) of
        (result, first, found) \<Rightarrow>
          if result \<noteq> None then Returns result
          else if found then Returns first
          else Throws (logic_error ''Invalid session''))"

fun predecessor_visit ::
  "session_ref option \<Rightarrow> session_ref \<Rightarrow> session_ref option \<times> session_ref option \<times> bool
   \<Rightarrow> session_ref option \<times> session_ref option \<times> bool" where
  "predecessor_visit focused_app session (result, last_seen, found) =
     (if focused_app = Some session then (result, Some session, True)
      else if \<not> found then (Some session, Some session, found)
      else (result, Some session, found))"

definition predecessor_of :: "session_ref list \<Rightarrow> session_ref option \<Rightarrow> session_ref option res" where
  "predecessor_of sessions focused_app =
     (case fold (predecessor_visit focused_app) sessions (None, None, False) of
        (result, last_seen, found) \<Rightarrow>
          if result \<noteq> None then Returns result
          else if found then Returns last_seen
          else Throws (logic_error ''Invalid session''))"

definition default_focus :: "session_ref list \<Rightarrow> session_ref option" where
  "default_focus sessions = fold (\<lambda>session result. Some session) sessions None"


section \<open>The interface\<close>

fun repeat_focus :: "('a option \<Rightarrow> 'a option res) \<Rightarrow> nat \<Rightarrow> 'a option \<Rightarrow> 'a option res" where
  "repeat_focus next_of 0 x = Returns x"
| "repeat_focus next_of (Suc k) x = (case next_of x of Returns y \<Rightarrow> repeat_focus next_of k y | e \<Rightarrow> e)"

text \<open>What \<^verbatim>\<open>msh::FocusSequence\<close> promises its clients: the sessions form a cycle.\<close>

locale focus_sequence =
  fixes members :: "'s \<Rightarrow> 'a list"
    and next_of :: "'s \<Rightarrow> 'a option \<Rightarrow> 'a option res"
    and prev_of :: "'s \<Rightarrow> 'a option \<Rightarrow> 'a option res"
  assumes next_of_member: "distinct (members s) \<Longrightarrow> i < length (members s) \<Longrightarrow>
      next_of s (Some (members s ! i)) = Returns (Some (members s ! (Suc i mod length (members s))))"
    and prev_of_member: "distinct (members s) \<Longrightarrow> i < length (members s) \<Longrightarrow>
      prev_of s (Some (members s ! (Suc i mod length (members s)))) = Returns (Some (members s ! i))"
begin

lemma advance_member:
  assumes "distinct (members s)" and "i < length (members s)"
  shows "repeat_focus (next_of s) k (Some (members s ! i)) = Returns (Some (members s ! ((i + k) mod length (members s))))"
  using assms(2)
proof (induction k arbitrary: i)
  case (Suc k)
  have "Suc i mod length (members s) < length (members s)"
    using Suc.prems by (intro mod_less_divisor) auto
  from Suc.IH [OF this] show ?case
    using next_of_member [OF assms(1) Suc.prems] by (simp add: mod_add_left_eq)
qed simp

lemma advance_reaches:
  assumes "distinct (members s)" and "x \<in> set (members s)" and "y \<in> set (members s)"
  shows "\<exists>k < length (members s). repeat_focus (next_of s) k (Some x) = Returns (Some y)"
proof -
  let ?n = "length (members s)"
  obtain i j where i: "i < ?n" "members s ! i = x" and j: "j < ?n" "members s ! j = y"
    using assms(2,3) by (metis in_set_conv_nth)
  let ?k = "(j + (?n - i)) mod ?n"
  have "(i + ?k) mod ?n = (i + (j + (?n - i))) mod ?n"
    by (simp add: mod_add_right_eq)
  also have "\<dots> = (j + ?n) mod ?n"
    using i(1) by (simp add: add.commute add.left_commute)
  finally have "(i + ?k) mod ?n = j"
    using j(1) by simp
  moreover have "?k < ?n"
    using i(1) by (intro mod_less_divisor) auto
  ultimately show ?thesis
    using advance_member [OF assms(1) i(1), of ?k] i j by auto
qed

lemma prev_next:
  assumes "distinct (members s)" and "x \<in> set (members s)"
  shows "\<exists>y \<in> set (members s). next_of s (Some x) = Returns (Some y) \<and> prev_of s (Some y) = Returns (Some x)"
proof -
  obtain i where "i < length (members s)" "members s ! i = x"
    using assms(2) by (metis in_set_conv_nth)
  then show ?thesis
    using next_of_member [OF assms(1), of i] prev_of_member [OF assms(1), of i]
    by (intro bexI [of _ "members s ! (Suc i mod length (members s))"]) (auto intro!: nth_mem mod_less_divisor)
qed

end

section \<open>The loops\<close>

definition head_option :: "'a list \<Rightarrow> 'a option" where
  "head_option xs = (case xs of [] \<Rightarrow> None | x # _ \<Rightarrow> Some x)"

lemma head_option_simps [simp]: "head_option [] = None" "head_option (x # xs) = Some x"
  by (simp_all add: head_option_def)

lemma successor_before:
  "(\<And>y. y \<in> set ys \<Longrightarrow> f \<noteq> Some y) \<Longrightarrow>
   fold (successor_visit f) ys (None, first, False)
     = (None, if first = None then head_option ys else first, False)"
proof (induction ys arbitrary: first)
  case (Cons y ys)
  have ne: "f \<noteq> Some y" and ne': "\<And>y. y \<in> set ys \<Longrightarrow> f \<noteq> Some y"
    using Cons.prems by auto
  from Cons.IH [OF ne'] ne show ?case by (simp add: Let_def)
qed simp

lemma successor_after:
  "first \<noteq> None \<Longrightarrow>
   fold (successor_visit f) zs (result, first, True)
     = (if result = None then head_option zs else result, first, True)"
  by (induction zs arbitrary: result) (auto simp: Let_def)

lemma successor_of_split:
  assumes "\<And>y. y \<in> set ys \<Longrightarrow> y \<noteq> x"
  shows "successor_of (ys @ x # zs) (Some x) = Returns (Some (hd (zs @ ys @ [x])))"
proof -
  have "fold (successor_visit (Some x)) ys (None, None, False) = (None, head_option ys, False)"
    using successor_before [of ys "Some x" None] assms by auto
  then show ?thesis
    by (cases ys; cases zs) (auto simp: successor_of_def Let_def successor_after)
qed

lemma successor_of_unknown:
  assumes "\<And>y. y \<in> set xs \<Longrightarrow> f \<noteq> Some y"
  shows "successor_of xs f = Throws (logic_error ''Invalid session'')"
  by (simp add: successor_of_def successor_before [OF assms])

lemma predecessor_before:
  "(\<And>y. y \<in> set ys \<Longrightarrow> f \<noteq> Some y) \<Longrightarrow>
   fold (predecessor_visit f) ys (result, seen, False)
     = (if ys = [] then (result, seen, False) else (Some (last ys), Some (last ys), False))"
proof (induction ys arbitrary: result seen)
  case (Cons y ys)
  have ne: "f \<noteq> Some y" and ne': "\<And>y. y \<in> set ys \<Longrightarrow> f \<noteq> Some y"
    using Cons.prems by auto
  from Cons.IH [OF ne'] ne show ?case by simp
qed simp

lemma predecessor_after:
  "fold (predecessor_visit f) zs (result, Some x, True) = (result, Some (last (x # zs)), True)"
  by (induction zs arbitrary: x) auto

lemma predecessor_of_split:
  assumes "\<And>y. y \<in> set ys \<Longrightarrow> y \<noteq> x"
  shows "predecessor_of (ys @ x # zs) (Some x) = Returns (Some (last (x # zs @ ys)))"
proof -
  have "fold (predecessor_visit (Some x)) ys (None, None, False)
      = (if ys = [] then (None, None, False) else (Some (last ys), Some (last ys), False))"
    by (rule predecessor_before) (use assms in blast)
  then show ?thesis
    by (simp add: predecessor_of_def predecessor_after)
qed

lemma predecessor_of_unknown:
  assumes "\<And>y. y \<in> set xs \<Longrightarrow> f \<noteq> Some y"
  shows "predecessor_of xs f = (if xs = [] then Throws (logic_error ''Invalid session'') else Returns (Some (last xs)))"
  by (simp add: predecessor_of_def predecessor_before [OF assms])

lemma default_focus_eq: "default_focus xs = (if xs = [] then None else Some (last xs))"
proof -
  have "fold (\<lambda>x r. Some x) xs r = (if xs = [] then r else Some (last xs))" for r
    by (induction xs arbitrary: r) auto
  then show ?thesis by (simp add: default_focus_def)
qed

lemma nth_split:
  assumes "distinct xs" and "i < length xs"
  shows "xs = take i xs @ xs ! i # drop (Suc i) xs" and "\<And>y. y \<in> set (take i xs) \<Longrightarrow> y \<noteq> xs ! i"
  using assms by (auto simp: id_take_nth_drop in_set_conv_nth nth_eq_iff_index_eq)

lemma successor_of_nth:
  assumes "distinct xs" and "i < length xs"
  shows "successor_of xs (Some (xs ! i)) = Returns (Some (xs ! (Suc i mod length xs)))"
proof -
  have "successor_of xs (Some (xs ! i)) = Returns (Some (hd (drop (Suc i) xs @ take i xs @ [xs ! i])))"
    using successor_of_split [of "take i xs" "xs ! i" "drop (Suc i) xs"] nth_split [OF assms] by metis
  also have "hd (drop (Suc i) xs @ take i xs @ [xs ! i]) = xs ! (Suc i mod length xs)"
  proof (cases "Suc i = length xs")
    case True
    then show ?thesis
      by (cases xs; cases i) (simp_all add: hd_append)
  next
    case False
    then show ?thesis
      using assms(2) by (simp add: hd_append hd_drop_conv_nth)
  qed
  finally show ?thesis .
qed

lemma predecessor_of_nth:
  assumes "distinct xs" and "i < length xs"
  shows "predecessor_of xs (Some (xs ! (Suc i mod length xs))) = Returns (Some (xs ! i))"
proof -
  let ?j = "Suc i mod length xs"
  have j: "?j < length xs" using assms(2) by (intro mod_less_divisor) auto
  have "predecessor_of xs (Some (xs ! ?j)) = Returns (Some (last (xs ! ?j # drop (Suc ?j) xs @ take ?j xs)))"
    using predecessor_of_split [of "take ?j xs" "xs ! ?j" "drop (Suc ?j) xs"] nth_split [OF assms(1) j] by metis
  also have "last (xs ! ?j # drop (Suc ?j) xs @ take ?j xs) = xs ! i"
  proof (cases "Suc i = length xs")
    case True
    then show ?thesis
      using assms(2) by (cases xs) (auto simp: last_conv_nth nth_Cons')
  next
    case False
    then have "?j = Suc i" using assms(2) by simp
    then show ?thesis
      using assms(2) by (simp add: take_Suc_conv_app_nth)
  qed
  finally show ?thesis .
qed

interpretation registration_order: focus_sequence "\<lambda>sessions. sessions" successor_of predecessor_of
  by unfold_locales (simp_all add: successor_of_nth predecessor_of_nth)

section \<open>Properties\<close>

text \<open>C35: Asking for the next session again and again goes round: from any registered session
  every other one is reached in fewer steps than there are sessions, and the predecessor of the
  next session is the session itself.\<close>

theorem focus_goes_round:
  assumes "distinct sessions" and "x \<in> set sessions" and "y \<in> set sessions"
  shows "(\<exists>k < length sessions. repeat_focus (successor_of sessions) k (Some x) = Returns (Some y))
    \<and> (\<exists>z \<in> set sessions. successor_of sessions (Some x) = Returns (Some z)
         \<and> predecessor_of sessions (Some z) = Returns (Some x))"
  using registration_order.advance_reaches [OF assms] registration_order.prev_next [OF assms(1,2)] by blast

theorem focus_goes_round_witness:
  "\<exists>k < length [5, 7, 9 :: session_ref]. repeat_focus (successor_of [5, 7, 9]) k (Some 9) = Returns (Some 7)"
  using focus_goes_round [of "[5, 7, 9]" 9 7] by auto

text \<open>C36: For a session that is not registered the two directions differ: \<^verbatim>\<open>successor_of\<close> throws
  \<^verbatim>\<open>logic_error\<close>, \<^verbatim>\<open>predecessor_of\<close> does so only if no session is registered at all and otherwise
  returns the session registered last.\<close>

theorem unknown_session_focus:
  assumes "f \<notin> Some ` set sessions"
  shows "successor_of sessions f = Throws (logic_error ''Invalid session'')
    \<and> predecessor_of sessions f =
        (if sessions = [] then Throws (logic_error ''Invalid session'') else Returns (default_focus sessions))"
proof -
  have "f \<noteq> Some y" if "y \<in> set sessions" for y
    using assms that by blast
  then show ?thesis
    by (simp add: successor_of_unknown predecessor_of_unknown default_focus_eq)
qed

theorem unknown_session_focus_witness:
  "successor_of [1] (Some 2) = Throws (logic_error ''Invalid session'')
   \<and> predecessor_of [1] (Some 2) = Returns (Some 1)"
  using unknown_session_focus [of "Some 2" "[1]"] by (simp add: default_focus_eq)

end
