(* ===== verification/Session_Manager.thy ===== *)
theory Session_Manager
  imports Shell_Surface Focus_Sequence
begin

text \<open>
  Sessions and focus: \<^verbatim>\<open>msh::SessionContainer\<close>, \<^verbatim>\<open>msh::SingleVisibilityFocusMechanism\<close> and \<^verbatim>\<open>msh::SessionManager\<close> (\<^verbatim>\<open>shell/session_manager.cpp\<close>).
  Session objects live in a store and are named by references; shared pointers to them are held
  by the container, by the lightdm tags and by the frontend, and the destructor runs when the last
  of these lets go.
\<close>

section \<open>The state of the shell\<close>

text \<open>
  \<open>session_holders\<close> are the shared pointers that the frontend holds; \<open>input_focus\<close> records the
  calls of \<^verbatim>\<open>set_input_focus_to\<close> on the input system, the latest first.
\<close>

record ('g, 'w) shell =
  shell_base :: "('g, 'w) shell_base"
  live_sessions :: "(session_ref \<times> application_session) list"
  next_session :: session_ref
  apps :: "session_ref list"
  focus_application :: "session_ref option"
  tags :: "(int \<times> session_ref) list"
  session_holders :: "session_ref list"
  input_focus :: "(session_ref \<times> shell_surface option) list"

definition new_shell :: "('g, 'w) shell_base \<Rightarrow> ('g, 'w) shell" where
  "new_shell b = \<lparr>shell_base = b, live_sessions = [], next_session = 0, apps = [], focus_application = None,
     tags = [], session_holders = [], input_focus = []\<rparr>"

definition session_at :: "session_ref \<Rightarrow> ('g, 'w) shell \<Rightarrow> application_session option" where
  "session_at r s = map_of (live_sessions s) r"

definition put_session :: "session_ref \<Rightarrow> application_session \<Rightarrow> ('g, 'w) shell \<Rightarrow> ('g, 'w) shell" where
  "put_session r a s = s\<lparr>live_sessions := map (\<lambda>p. if fst p = r then (r, a) else p) (live_sessions s)\<rparr>"

text \<open>A call through a shared pointer.\<close>

definition on_session ::
  "session_ref \<Rightarrow> (application_session \<times> ('g, 'w) shell_base, 'a) proc \<Rightarrow> (('g, 'w) shell, 'a) proc" where
  "on_session r m s =
     (case session_at r s of
        None \<Rightarrow> (Undefined ''destroyed session'', s)
      | Some a \<Rightarrow>
          (case m (a, shell_base s) of (x, a', b) \<Rightarrow> (x, put_session r a' (s\<lparr>shell_base := b\<rparr>))))"

text \<open>The destructor, when no shared pointer is left.\<close>

definition collect_session :: "session_ref \<Rightarrow> (('g, 'w) shell, unit) proc" where
  "collect_session r s =
     (if r \<in> set (apps s) \<or> r \<in> snd ` set (tags s) \<or> r \<in> set (session_holders s) \<or> session_at r s = None
      then (Returns (), s)
      else seq (on_session r destroy_session_object)
             (modify (\<lambda>s. s\<lparr>live_sessions := filter (\<lambda>p. fst p \<noteq> r) (live_sessions s)\<rparr>)) s)"

section \<open>The session container\<close>

definition insert_session :: "session_ref \<Rightarrow> (('g, 'w) shell, unit) proc" where
  "insert_session r = modify (\<lambda>s. s\<lparr>apps := apps s @ [r]\<rparr>)"

definition remove_session :: "session_ref \<Rightarrow> (('g, 'w) shell, unit) proc" where
  "remove_session r s =
     (if r \<in> set (apps s) then (Returns (), s\<lparr>apps := remove1 r (apps s)\<rparr>)
      else (Throws (logic_error ''Invalid Session''), s))"

definition for_each_session :: "(session_ref \<Rightarrow> (('g, 'w) shell, unit) proc) \<Rightarrow> (('g, 'w) shell, unit) proc" where
  "for_each_session f = sbind (gets apps) (for_each f)"

section \<open>The focus mechanism\<close>

definition set_input_focus_to :: "session_ref \<Rightarrow> shell_surface option \<Rightarrow> (('g, 'w) shell, unit) proc" where
  "set_input_focus_to r surf = modify (\<lambda>s. s\<lparr>input_focus := (r, surf) # input_focus s\<rparr>)"

definition focus_visit :: "session_ref option \<Rightarrow> session_ref \<Rightarrow> (('g, 'w) shell, unit) proc" where
  "focus_visit focus_session session =
     (if focus_session = Some session
      then seq (on_session session session_show)
             (sbind (on_session session (on_self (gets default_surface))) (set_input_focus_to session))
      else on_session session session_hide)"

definition focus_mechanism_set_focus_to :: "session_ref option \<Rightarrow> (('g, 'w) shell, unit) proc" where
  "focus_mechanism_set_focus_to focus_session = for_each_session (focus_visit focus_session)"

section \<open>The session manager\<close>

definition set_focus_to :: "session_ref option \<Rightarrow> (('g, 'w) shell, unit) proc" where
  "set_focus_to next_focus =
     seq (modify (\<lambda>s. s\<lparr>focus_application := next_focus\<rparr>)) (focus_mechanism_set_focus_to next_focus)"

definition make_session :: "string \<Rightarrow> (('g, 'w) shell, session_ref) proc" where
  "make_session name s =
     (Returns (next_session s),
      s\<lparr>live_sessions := live_sessions s @ [(next_session s, new_application_session name)],
        next_session := Suc (next_session s), session_holders := next_session s # session_holders s\<rparr>)"

definition open_session :: "string \<Rightarrow> (('g, 'w) shell, session_ref) proc" where
  "open_session name =
     sbind (make_session name) (\<lambda>new_session.
       seq (insert_session new_session)
         (seq (modify (\<lambda>s. s\<lparr>focus_application := Some new_session\<rparr>))
           (seq (focus_mechanism_set_focus_to (Some new_session)) (ret new_session))))"

definition close_session :: "session_ref \<Rightarrow> (('g, 'w) shell, unit) proc" where
  "close_session session =
     seq (remove_session session)
       (seq (sbind (gets (\<lambda>s. default_focus (apps s))) set_focus_to)
         (modify (\<lambda>s. s\<lparr>tags := filter (\<lambda>v. snd v \<noteq> session) (tags s)\<rparr>)))"

text \<open>\<^verbatim>\<open>focus_application.lock()\<close>\<close>

definition lock_focus :: "('g, 'w) shell \<Rightarrow> session_ref option" where
  "lock_focus s =
     (case focus_application s of None \<Rightarrow> None | Some r \<Rightarrow> if session_at r s = None then None else Some r)"

definition focus_next :: "(('g, 'w) shell, unit) proc" where
  "focus_next =
     sbind (gets lock_focus) (\<lambda>focus.
       sbind (case focus of
                None \<Rightarrow> gets (\<lambda>s. default_focus (apps s))
              | Some r \<Rightarrow> (\<lambda>s. (successor_of (apps s) (Some r), s)))
         set_focus_to)"

definition manager_shutdown :: "(('g, 'w) shell, unit) proc" where
  "manager_shutdown = for_each_session (\<lambda>r. on_session r session_shutdown)"

text \<open>Sessions whose last shared pointer was an erased tag are destroyed.\<close>

definition tag_session_with_lightdm_id :: "session_ref \<Rightarrow> int \<Rightarrow> (('g, 'w) shell, unit) proc" where
  "tag_session_with_lightdm_id session i =
     sbind (gets (\<lambda>s. map snd (filter (\<lambda>v. fst v = i \<or> snd v = session) (tags s)))) (\<lambda>erased.
       seq (modify (\<lambda>s. s\<lparr>tags := filter (\<lambda>v. \<not> (fst v = i \<or> snd v = session)) (tags s) @ [(i, session)]\<rparr>))
           (for_each collect_session erased))"

definition focus_session_with_lightdm_id :: "int \<Rightarrow> (('g, 'w) shell, unit) proc" where
  "focus_session_with_lightdm_id i =
     sbind (gets (\<lambda>s. find (\<lambda>v. fst v = i) (tags s))) (\<lambda>match.
       case match of None \<Rightarrow> ret () | Some v \<Rightarrow> set_focus_to (Some (snd v)))"

definition create_surface_for ::
  "'g shell_env \<Rightarrow> session_ref \<Rightarrow> surface_creation_parameters \<Rightarrow> (('g, 'w) shell, surface_id) proc" where
  "create_surface_for env session params =
     sbind (on_session session (session_create_surface env params)) (\<lambda>i.
       seq (set_focus_to (Some session)) (ret i))"

text \<open>The frontend lets go of its shared pointer.\<close>

definition release_session :: "session_ref \<Rightarrow> (('g, 'w) shell, unit) proc" where
  "release_session r =
     seq (modify (\<lambda>s. s\<lparr>session_holders := remove1 r (session_holders s)\<rparr>)) (collect_session r)"

end
