(* ===== verification/Session_Effects.thy ===== *)
theory Session_Effects
  imports Shell_Surface
begin

text \<open>
  What each call of an application session does to the surfaces of the stack: a session owns its
  surfaces, gains only new ones, and loses them only by destroying them. The calls are those of
  \<^verbatim>\<open>shell/application_session.cpp\<close>.
\<close>

section \<open>The surfaces of a session\<close>

text \<open>What the shell sees of the stack: which surfaces are there, and whether they are hidden.\<close>

definition visibility :: "('g, 'w) surface_stack \<Rightarrow> surface_ref \<Rightarrow> bool option" where
  "visibility s q = map_option is_hidden (lock_surface q s)"

lemma visibility_None: "visibility s q = None \<longleftrightarrow> \<not> surface_alive s q"
  by (simp add: visibility_def surface_alive_def)

lemma visibility_emit [simp]: "visibility (emit_change_notification s) = visibility s"
  by (simp add: visibility_def fun_eq_iff)

lemma refs_ok_emit [simp]: "refs_ok (emit_change_notification s) = refs_ok s"
  by (simp add: refs_ok_def)

lemma visibility_cong: "surfaces s' = surfaces s \<Longrightarrow> visibility s' = visibility s"
  by (simp add: visibility_def lock_surface_def fun_eq_iff)

lemma create_surface_visibility:
  assumes "refs_ok s" and "create_surface env params s = (x, s')"
  shows "refs_ok s' \<and> (case x of
      Returns r \<Rightarrow> r = next_surface s \<and> next_surface s' = Suc r \<and> visibility s' = (visibility s)(r \<mapsto> False)
    | _ \<Rightarrow> next_surface s' = next_surface s \<and> visibility s' = visibility s)"
  using assms(2)
proof (cases rule: create_surface_cases)
  case (created bd g')
  have "next_surface s \<notin> fst ` set (surfaces s)"
    using assms(1) by (auto simp: refs_ok_def)
  then have "map_of (surfaces s) (next_surface s) = None"
    by (simp add: map_of_eq_None_iff)
  then show ?thesis
    using created assms stack_builder.wf_build [OF assms]
    by (auto simp: visibility_def lock_surface_def new_surface_def map_add_def fun_eq_iff split: option.splits)
next
  case (failed g')
  then show ?thesis
    using assms(1) by (auto simp: refs_ok_def visibility_def lock_surface_def fun_eq_iff split: res.splits)
qed

lemma destroy_surface_object_defined:
  "fst (destroy_surface_object sf) = Returns () \<or> (\<exists>w. fst (destroy_surface_object sf) = Undefined w)"
proof -
  have "fst (reset_client_buffer sf') = Returns ()" for sf'
    by (simp add: reset_client_buffer_def bundle_drop_client_eq zoom_def client_release_def modify_def
        split: option.splits)
  then show ?thesis
    by (auto simp: destroy_surface_object_def surface_shutdown_def bundle_shutdown_def swapper_shutdown_def
        proc_simps split: prod.splits)
qed

lemma destroy_surface_visibility:
  assumes "refs_ok s" and "destroy_surface q s = (x, s')"
  shows "refs_ok s' \<and> next_surface s' = next_surface s \<and> visibility s' = (visibility s)(q := None)"
    and "x = Returns () \<or> (\<exists>w. x = Undefined w)"
proof -
  have s': "surfaces s' = filter (\<lambda>p. fst p \<noteq> q) (surfaces s)" "next_surface s' = next_surface s"
    using destroy_surface_surfaces [of q s] assms(2) by simp_all
  have "map_of (filter (\<lambda>p. fst p \<noteq> q) xs) = (map_of xs)(q := None)" for xs :: "(nat \<times> surface) list"
    by (induction xs) (auto simp: fun_eq_iff)
  then show "refs_ok s' \<and> next_surface s' = next_surface s \<and> visibility s' = (visibility s)(q := None)"
    using s' assms(1) by (auto simp: refs_ok_def visibility_def lock_surface_def distinct_map_filter fun_eq_iff)
  show "x = Returns () \<or> (\<exists>w. x = Undefined w)"
    using assms(2) destroy_surface_object_defined
    by (auto simp: destroy_surface_eq Let_def split: option.splits res.splits)
       (metis res.distinct res.inject)+
qed

text \<open>A session owns its surfaces: they are on the stack, and it lists each of them once.\<close>

definition session_owns :: "application_session \<Rightarrow> ('g, 'w) surface_stack \<Rightarrow> bool" where
  "session_owns a s \<longleftrightarrow> refs_ok s \<and> omap_wf (session_surfaces a) \<and> distinct (session_refs a)
     \<and> (\<forall>q \<in> set (session_refs a). surface_alive s q)"

text \<open>
  The effect of a call of a session: surfaces that it gains are new, surfaces that it loses are
  destroyed, and the surfaces of others stay as they are.
\<close>

definition session_effect ::
  "application_session \<times> ('g, 'w) surface_stack \<Rightarrow> application_session \<times> ('g, 'w) surface_stack \<Rightarrow> bool" where
  "session_effect p p' \<longleftrightarrow>
     session_owns (fst p') (snd p') \<and> next_surface (snd p) \<le> next_surface (snd p')
     \<and> (\<forall>q. q \<notin> set (session_refs (fst p)) \<and> q \<notin> set (session_refs (fst p')) \<longrightarrow>
           visibility (snd p') q = visibility (snd p) q)
     \<and> (\<forall>q \<in> set (session_refs (fst p')) - set (session_refs (fst p)). next_surface (snd p) \<le> q)
     \<and> (\<forall>q \<in> set (session_refs (fst p)) - set (session_refs (fst p')). \<not> surface_alive (snd p') q)"

lemma session_effect_refl: "session_owns a s \<Longrightarrow> session_effect (a, s) (a, s)"
  by (simp add: session_effect_def)

lemma surface_alive_lt: "refs_ok s \<Longrightarrow> surface_alive s q \<Longrightarrow> q < next_surface s"
  by (auto simp: refs_ok_def surface_alive_iff)

lemma surface_alive_visibility: "surface_alive s q \<longleftrightarrow> visibility s q \<noteq> None"
  by (simp add: visibility_None)

lemma session_refs_erase:
  assumes "omap_wf (session_surfaces a)" and "map_of (session_surfaces a) i = Some sh"
  shows "mset (session_refs a) = add_mset (surface_weak sh)
    (mset (session_refs (a\<lparr>session_surfaces := omap_erase i (session_surfaces a)\<rparr>)))"
  using omap_erase_known [OF assms] by (simp add: session_refs_def)

lemma session_refs_set:
  assumes "omap_wf (session_surfaces a)"
  shows "mset (session_refs (a\<lparr>session_surfaces := omap_set i sh (session_surfaces a)\<rparr>)) = add_mset (surface_weak sh)
    (mset (session_refs (a\<lparr>session_surfaces := omap_erase i (session_surfaces a)\<rparr>)))"
  using mset_omap_set [OF assms] by (simp add: session_refs_def)

text \<open>Removing one surface of a session.\<close>

lemma session_loses:
  assumes "session_owns a s" and "map_of (session_surfaces a) i = Some sh"
    and "refs_ok s'" and "next_surface s' = next_surface s"
    and "visibility s' = (visibility s)(surface_weak sh := None)"
  shows "session_effect (a, s) (a\<lparr>session_surfaces := omap_erase i (session_surfaces a)\<rparr>, s')"
proof -
  let ?a = "a\<lparr>session_surfaces := omap_erase i (session_surfaces a)\<rparr>"
  have m: "mset (session_refs a) = add_mset (surface_weak sh) (mset (session_refs ?a))"
    using assms(1,2) by (intro session_refs_erase) (simp_all add: session_owns_def)
  then have "distinct (surface_weak sh # session_refs ?a)"
    using assms(1) unfolding session_owns_def by (metis mset.simps(2) mset_eq_imp_distinct_iff)
  moreover have "set (session_refs a) = insert (surface_weak sh) (set (session_refs ?a))"
    using m by (metis mset.simps(2) mset_eq_setD list.simps(15))
  moreover have "surface_alive s' q \<longleftrightarrow> surface_alive s q \<and> q \<noteq> surface_weak sh" for q
    using assms(5) by (simp add: surface_alive_visibility)
  ultimately show ?thesis
    using assms by (auto simp: session_effect_def session_owns_def omap_wf_erase)
qed

text \<open>Adding a new one under an id that is not in use.\<close>

lemma session_gains:
  assumes "session_owns a s" and "map_of (session_surfaces a) i = None"
    and "refs_ok s'" and "surface_weak sh = next_surface s" and "next_surface s' = Suc (next_surface s)"
    and "visibility s' = (visibility s)(next_surface s \<mapsto> False)"
    and "a' = a\<lparr>session_surfaces := omap_set i sh (session_surfaces a), next_surface_id := k\<rparr>"
  shows "session_effect (a, s) (a', s')"
proof -
  have "session_refs a' = session_refs (a\<lparr>session_surfaces := omap_set i sh (session_surfaces a)\<rparr>)"
    by (simp add: assms(7) session_refs_def)
  then have m: "mset (session_refs a') = add_mset (next_surface s) (mset (session_refs a))"
    using assms(1,2,4) session_refs_set [of a i sh]
    by (simp add: session_owns_def omap_erase_missing)
  have fresh: "next_surface s \<notin> set (session_refs a)"
    using assms(1) by (auto simp: session_owns_def dest: surface_alive_lt)
  with m have "distinct (session_refs a')"
    using assms(1) unfolding session_owns_def by (metis mset.simps(2) mset_eq_imp_distinct_iff distinct.simps(2))
  moreover have "set (session_refs a') = insert (next_surface s) (set (session_refs a))"
    using m by (metis mset.simps(2) mset_eq_setD list.simps(15))
  moreover have "surface_alive s' q \<longleftrightarrow> surface_alive s q \<or> q = next_surface s" for q
    using assms(6) by (auto simp: surface_alive_visibility)
  ultimately show ?thesis
    using assms fresh by (auto simp: session_effect_def session_owns_def omap_wf_set)
qed

subsection \<open>Effects of the calls of a session\<close>

abbreviation stack_of :: "application_session \<times> ('g, 'w) shell_base \<Rightarrow> application_session \<times> ('g, 'w) surface_stack" where
  "stack_of p \<equiv> (fst p, base_stack (snd p))"

lemma session_effect_trans:
  assumes "session_effect p q" and "session_effect q r" and "session_owns (fst p) (snd p)"
  shows "session_effect p r"
proof -
  have "visibility (snd r) u = visibility (snd p) u"
    if "u \<notin> set (session_refs (fst p))" "u \<notin> set (session_refs (fst r))" for u
  proof (cases "u \<in> set (session_refs (fst q))")
    case False
    then show ?thesis using assms(1,2) that by (simp add: session_effect_def)
  next
    case True
    then have "next_surface (snd p) \<le> u"
      using assms(1) that by (auto simp: session_effect_def)
    then have "visibility (snd p) u = None"
      using assms(3) by (auto simp: session_owns_def visibility_None dest: surface_alive_lt)
    moreover have "visibility (snd r) u = None"
      using assms(2) True that by (auto simp: session_effect_def visibility_None)
    ultimately show ?thesis by simp
  qed
  moreover have "next_surface (snd p) \<le> u"
    if "u \<in> set (session_refs (fst r))" "u \<notin> set (session_refs (fst p))" for u
    using assms(1,2) that by (auto simp: session_effect_def intro: order_trans)
  moreover have "\<not> surface_alive (snd r) u"
    if "u \<in> set (session_refs (fst p))" "u \<notin> set (session_refs (fst r))" for u
  proof (cases "u \<in> set (session_refs (fst q))")
    case True
    then show ?thesis using assms(2) that by (simp add: session_effect_def)
  next
    case False
    then have "visibility (snd r) u = visibility (snd q) u" "\<not> surface_alive (snd q) u"
      using assms(1,2) that by (simp_all add: session_effect_def)
    then show ?thesis by (simp add: surface_alive_visibility)
  qed
  ultimately show ?thesis
    using assms(1,2) by (auto simp: session_effect_def)
qed

text \<open>Calls that leave the surfaces and their visibility alone.\<close>

lemma session_effect_same:
  assumes "session_owns a s" and "refs_ok s'" and "next_surface s' = next_surface s"
    and "\<And>q. surface_alive s' q = surface_alive s q"
    and "\<And>q. q \<notin> set (session_refs a) \<Longrightarrow> visibility s' q = visibility s q"
    and "omap_wf (session_surfaces a')" and "session_refs a' = session_refs a"
  shows "session_effect (a, s) (a', s')"
  using assms by (simp add: session_effect_def session_owns_def)

lemma organising_create_surface_effect:
  assumes "refs_ok (base_stack b)" and "organising_create_surface env params b = (x, b')"
  shows "refs_ok (base_stack b') \<and> (case x of
      Returns sh \<Rightarrow> surface_weak sh = next_surface (base_stack b)
        \<and> next_surface (base_stack b') = Suc (next_surface (base_stack b))
        \<and> visibility (base_stack b') = (visibility (base_stack b))(next_surface (base_stack b) \<mapsto> False)
    | _ \<Rightarrow> next_surface (base_stack b') = next_surface (base_stack b)
        \<and> visibility (base_stack b') = visibility (base_stack b))"
proof (cases "env_make_input_channel env (input_calls b)")
  case (Returns channel)
  obtain y s' where c: "create_surface (env_stack env) (place (env_view_area env) params) (base_stack b) = (y, s')"
    by fastforce
  have "b' = b\<lparr>input_calls := Suc (input_calls b), base_stack := s'\<rparr>"
      "x = (case y of Returns r \<Rightarrow> Returns \<lparr>shell_input_channel = channel, surface_weak = r,
              type_value = mir_surface_type_normal\<rparr> | Throws e \<Rightarrow> Throws e | Blocks \<Rightarrow> Blocks | Undefined w \<Rightarrow> Undefined w)"
    using assms(2) c Returns
    by (auto simp: organising_create_surface_def source_create_surface_def make_input_channel_def
        new_shell_surface_def proc_simps split: res.splits)
  then show ?thesis
    using create_surface_visibility [OF assms(1) c] by (auto split: res.splits)
qed (use assms in \<open>auto simp: organising_create_surface_def source_create_surface_def make_input_channel_def sbind_def\<close>)

lemma session_create_surface_effect:
  assumes "session_owns a (base_stack b)" and "session_create_surface env params (a, b) = (x, p')"
    and "\<And>w. x \<noteq> Undefined w"
  shows "session_effect (a, base_stack b) (stack_of p')"
proof -
  let ?s = "base_stack b"
  have ok: "refs_ok ?s" "omap_wf (session_surfaces a)" using assms(1) by (simp_all add: session_owns_def)
  obtain y b1 where o: "organising_create_surface env params b = (y, b1)" by fastforce
  note e = organising_create_surface_effect [OF ok(1) o]
  show ?thesis
  proof (cases y)
    case (Returns sh)
    let ?i = "next_surface_id a"
    let ?a = "a\<lparr>session_surfaces := omap_set ?i sh (session_surfaces a), next_surface_id := s32 (?i + 1)\<rparr>"
    show ?thesis
    proof (cases "map_of (session_surfaces a) ?i")
      case None
      then have "p' = (?a, b1)"
        using assms(2) o Returns by (auto simp: session_create_surface_def put_session_surface_def next_id_def proc_simps)
      then show ?thesis
        using session_gains [OF assms(1) None, of "base_stack b1" sh ?a] e Returns by simp
    next
      case (Some old)
      let ?w = "surface_weak old"
      have "?w \<in> set (session_refs a)"
        using map_of_SomeD [OF Some] by (force simp: session_refs_def)
      then have w: "surface_alive ?s ?w" "?w < next_surface ?s"
        using assms(1) surface_alive_lt [of ?s ?w] by (simp_all add: session_owns_def)
      then have "surface_alive (base_stack b1) ?w"
        using e Returns by (simp add: surface_alive_visibility)
      then have alive: "lock_surface ?w (base_stack b1) \<noteq> None"
        by (simp add: surface_alive_def)
      obtain z s2 where d: "destroy_surface ?w (base_stack b1) = (z, s2)" by fastforce
      have p': "p' = (?a, b1\<lparr>base_stack := s2\<rparr>)"
        using assms(2) o Returns Some alive d
        by (auto simp: session_create_surface_def put_session_surface_def next_id_def drop_shell_surface_def
            shell_surface_destroy_def controller_destroy_surface_def proc_simps split: res.splits)
      let ?e = "a\<lparr>session_surfaces := omap_erase ?i (session_surfaces a)\<rparr>"
      obtain z0 s0 where d0: "destroy_surface ?w ?s = (z0, s0)" by fastforce
      note v = destroy_surface_visibility(1) [OF ok(1) d0]
        and v2 = destroy_surface_visibility(1) [OF conjunct1 [OF e] d]
      have loss: "session_effect (a, ?s) (?e, s0)"
        using session_loses [OF assms(1) Some, of s0] v by simp
      then have "session_owns ?e s0" by (simp add: session_effect_def)
      moreover have "?a = ?e\<lparr>session_surfaces := omap_set ?i sh (session_surfaces ?e), next_surface_id := s32 (?i + 1)\<rparr>"
        using ok(2) by (simp add: omap_set_erase)
      ultimately have "session_effect (?e, s0) (?a, s2)"
        using e Returns v v2 w(2) by (intro session_gains) (auto simp: fun_upd_twist)
      then show ?thesis
        using session_effect_trans [OF loss] assms(1) p' by simp
    qed
  next
    case (Undefined w)
    then show ?thesis using assms(2,3) o by (auto simp: session_create_surface_def proc_simps)
  qed (use assms(1,2) o e in \<open>auto simp: session_create_surface_def proc_simps
      intro!: session_effect_same simp: surface_alive_visibility session_owns_def\<close>)
qed

lemma session_destroy_surface_effect:
  assumes "session_owns a (base_stack b)" and "session_destroy_surface i (a, b) = (x, p')"
    and "\<And>w. x \<noteq> Undefined w"
  shows "session_effect (a, base_stack b) (stack_of p')"
    and "\<And>q. q \<in> set (session_refs (fst p')) \<Longrightarrow> q \<in> set (session_refs a) \<and> visibility (base_stack (snd p')) q = visibility (base_stack b) q"
proof -
  have "session_effect (a, base_stack b) (stack_of p') \<and>
    (\<forall>q \<in> set (session_refs (fst p')). q \<in> set (session_refs a)
      \<and> visibility (base_stack (snd p')) q = visibility (base_stack b) q)"
  proof (cases "map_of (session_surfaces a) i")
    case None
    then show ?thesis
      using assms(1,2) by (auto simp: session_destroy_surface_def checked_find_def proc_simps session_effect_refl)
  next
    case (Some sh)
    let ?a = "a\<lparr>session_surfaces := omap_erase i (session_surfaces a)\<rparr>"
    have ok: "refs_ok (base_stack b)" using assms(1) by (simp add: session_owns_def)
    obtain y s' where d: "destroy_surface (surface_weak sh) (base_stack b) = (y, s')" by fastforce
    note v = destroy_surface_visibility [OF ok d]
    have "y \<noteq> Undefined w" for w
      using assms(2) assms(3) [of w] Some d
      by (auto simp: session_destroy_surface_def checked_find_def shell_surface_destroy_def
          controller_destroy_surface_def proc_simps)
    then have "y = Returns ()" using v(2) by blast
    moreover have "visibility s' (surface_weak sh) = None"
      using v(1) by simp
    then have "lock_surface (surface_weak sh) s' = None"
      by (simp add: visibility_def)
    ultimately have p': "p' = (?a, b\<lparr>base_stack := s'\<rparr>)"
      using assms(2) Some d
      by (auto simp: session_destroy_surface_def checked_find_def shell_surface_destroy_def
          controller_destroy_surface_def drop_shell_surface_def proc_simps)
    have "session_effect (a, base_stack b) (?a, s')"
      using session_loses [OF assms(1) Some, of s'] v(1) by simp
    moreover from this have "q \<noteq> surface_weak sh" if "q \<in> set (session_refs ?a)" for q
      using that v(1) by (auto simp: session_effect_def session_owns_def surface_alive_visibility)
    moreover have "set (session_refs ?a) \<subseteq> set (session_refs a)"
      by (auto simp: session_refs_def omap_erase_def)
    ultimately show ?thesis
      using v(1) p' by auto
  qed
  then show "session_effect (a, base_stack b) (stack_of p')"
    "\<And>q. q \<in> set (session_refs (fst p')) \<Longrightarrow> q \<in> set (session_refs a) \<and> visibility (base_stack (snd p')) q = visibility (base_stack b) q"
    by simp_all
qed

text \<open>Calls of one surface that change neither its visibility nor the other surfaces.\<close>

lemma locked_keeps_visibility:
  assumes "\<And>sf s x sf' s'. m (sf, s) = (x, (sf', s')) \<Longrightarrow>
      is_hidden sf' = is_hidden sf \<and> (s' = s \<or> s' = emit_change_notification s)"
    and "refs_ok s" and "locked sh expired m s = (x, s')" and "\<And>s. snd (expired s) = s"
  shows "refs_ok s' \<and> next_surface s' = next_surface s \<and> visibility s' = visibility s"
proof (cases "lock_surface (surface_weak sh) s")
  case None
  then show ?thesis
    using assms(2-4) by (simp add: locked_def) (metis snd_conv)
next
  case (Some sf)
  obtain y sf' s1 where m: "m (sf, s) = (y, (sf', s1))" by (metis prod_cases3)
  with Some assms(3) have "s' = put_surface (surface_weak sh) sf' s1"
    by (auto simp: locked_def on_surface_def)
  moreover from assms(1) [OF m] Some have "is_hidden sf' = is_hidden sf"
      "surfaces s1 = surfaces s" "next_surface s1 = next_surface s" "lock_surface (surface_weak sh) s1 = Some sf"
    by auto
  moreover from this have "lock_surface q s1 = lock_surface q s" for q
    by (simp add: lock_surface_def)
  ultimately show ?thesis
    using assms(2) Some by (auto simp: refs_ok_def visibility_def lock_put_surface fun_eq_iff
        simp flip: set_map)
qed

lemma surface_shutdown_keeps:
  "on_self surface_shutdown (sf, s) = (x, (sf', s')) \<Longrightarrow> is_hidden sf' = is_hidden sf \<and> s' = s"
  by (auto simp: surface_shutdown_def zoom_def split: prod.splits)

lemma reset_client_buffer_hidden: "is_hidden (snd (reset_client_buffer sf)) = is_hidden sf"
  by (simp add: reset_client_buffer_def bundle_drop_client_eq zoom_def client_release_def modify_def
      split: option.splits)

lemma secure_client_buffer_hidden: "is_hidden (snd (secure_client_buffer_resource sf)) = is_hidden sf"
  by (simp add: secure_client_buffer_resource_def sbind_def modify_def zoom_def split: prod.splits res.splits)

lemma advance_client_buffer_keeps:
  assumes "advance_client_buffer emit_change_notification (sf, s) = (x, (sf', s'))"
  shows "is_hidden sf' = is_hidden sf \<and> (s' = s \<or> s' = emit_change_notification s)"
proof -
  obtain y sf1 where r: "reset_client_buffer sf = (y, sf1)" by fastforce
  obtain z sf2 where c: "secure_client_buffer_resource sf1 = (z, sf2)" by fastforce
  from r c have "is_hidden sf1 = is_hidden sf" "is_hidden sf2 = is_hidden sf1"
    using reset_client_buffer_hidden [of sf] secure_client_buffer_hidden [of sf1] by simp_all
  then show ?thesis
    using assms r c
    by (cases y; cases z) (auto simp: advance_client_buffer_def notify_def seq_def sbind_def zoom_def modify_def)
qed

lemma for_each_keeps_visibility:
  assumes "\<And>sh s x s'. refs_ok s \<Longrightarrow> f sh s = (x, s') \<Longrightarrow>
      refs_ok s' \<and> next_surface s' = next_surface s \<and> visibility s' = visibility s"
    and "refs_ok s" and "for_each (\<lambda>p. f (snd p)) m s = (x, s')"
  shows "refs_ok s' \<and> next_surface s' = next_surface s \<and> visibility s' = visibility s"
  using assms(2,3)
proof (induction m arbitrary: s)
  case Nil
  then show ?case by (simp add: ret_def)
next
  case (Cons p m)
  obtain y t where y: "f (snd p) s = (y, t)" by fastforce
  note t = assms(1) [OF Cons.prems(1) y]
  have "(\<exists>u. y = Returns u \<and> for_each (\<lambda>p. f (snd p)) m t = (x, s')) \<or> s' = t"
    using Cons.prems(2) y by (cases y) (auto simp: seq_def sbind_def)
  then show ?case
    using t Cons.IH [of t] by auto
qed

lemma session_shutdown_effect:
  assumes "session_owns a (base_stack b)" and "session_shutdown (a, b) = (x, p')"
  shows "session_effect (a, base_stack b) (stack_of p')" and "fst p' = a"
    and "visibility (base_stack (snd p')) = visibility (base_stack b)"
proof -
  have ok: "refs_ok (base_stack b)" using assms(1) by (simp add: session_owns_def)
  obtain s' where s': "for_each (\<lambda>p. shell_surface_shutdown (snd p)) (session_surfaces a) (base_stack b) = (x, s')"
      and p': "p' = (a, b\<lparr>base_stack := s'\<rparr>)"
    using assms(2) by (auto simp: session_shutdown_def for_session_surfaces_def proc_simps split: prod.splits)
  have "refs_ok s' \<and> next_surface s' = next_surface (base_stack b) \<and> visibility s' = visibility (base_stack b)"
    by (rule for_each_keeps_visibility [OF _ ok s'])
      (unfold shell_surface_shutdown_def, erule (1) locked_keeps_visibility [rotated],
        auto simp: ret_def dest: surface_shutdown_keeps)
  then show "session_effect (a, base_stack b) (stack_of p')" "fst p' = a"
      "visibility (base_stack (snd p')) = visibility (base_stack b)"
    using assms(1) p' by (auto intro!: session_effect_same simp: session_owns_def surface_alive_visibility)
qed

lemma session_visibility_effect:
  assumes "session_owns a (base_stack b)"
  obtains b' where "(if h then session_hide (a, b) else session_show (a, b)) = (Returns (), (a, b'))"
    and "session_effect (a, base_stack b) (a, base_stack b')"
    and "visibility (base_stack b') =
      (\<lambda>q. if q \<in> set (session_refs a) then Some h else visibility (base_stack b) q)"
proof -
  have ok: "refs_ok (base_stack b)" using assms by (simp add: session_owns_def)
  then have "distinct (map fst (surfaces (base_stack b)))" by (simp add: refs_ok_def)
  from session_visibility [OF this, of h a] obtain s' where
    s': "(if h then session_hide (a, b) else session_show (a, b)) = (Returns (), (a, b\<lparr>base_stack := s'\<rparr>))"
    "surfaces s' = map (hide_if h (session_refs a)) (surfaces (base_stack b))" "same_frame (base_stack b) s'"
    by blast
  have "visibility s' q = (if q \<in> set (session_refs a) then Some h else visibility (base_stack b) q)" for q
    using assms s'(2)
    by (auto simp: visibility_def lock_surface_def map_of_hide_if session_owns_def surface_alive_def option.map_comp comp_def)
  moreover have "refs_ok s'" "next_surface s' = next_surface (base_stack b)"
    using ok s'(2,3) by (auto simp: refs_ok_def same_frame_def)
  ultimately show ?thesis
    using s'(1) assms
    by (intro that [of "b\<lparr>base_stack := s'\<rparr>"])
      (auto intro!: session_effect_same simp: session_owns_def surface_alive_visibility split: if_splits)
qed

lemma configure_keeps: "surface_weak (snd (configure attrib v sh)) = surface_weak sh"
  by (simp add: configure_def set_type_def proc_simps)

lemma configure_surface_effect:
  assumes "session_owns a s"
  shows "session_effect (a, s) (snd (configure_surface i attrib v a), s)"
    and "session_refs (snd (configure_surface i attrib v a)) = session_refs a"
proof -
  have wf: "omap_wf (session_surfaces a)" using assms by (simp add: session_owns_def)
  have refs: "map (\<lambda>p. surface_weak (snd p)) (omap_set i sh' m) = map (\<lambda>p. surface_weak (snd p)) m"
    if "omap_wf m" "map_of m i = Some sh" "surface_weak sh' = surface_weak sh" for m sh sh'
    using that by (intro map_omap_set_known) simp_all
  show "session_refs (snd (configure_surface i attrib v a)) = session_refs a"
    using wf configure_keeps [of attrib v]
    by (auto simp: configure_surface_def checked_find_def session_refs_def sbind_def case_prod_beta
        intro: refs split: option.splits)
  then show "session_effect (a, s) (snd (configure_surface i attrib v a), s)"
    using assms wf
    by (intro session_effect_same)
      (auto simp: session_owns_def configure_surface_def checked_find_def sbind_def case_prod_beta omap_wf_set
        split: option.splits)
qed

text \<open>The destructor of a session destroys all of its surfaces and no other.\<close>

lemma for_each_destroy:
  assumes "refs_ok s" and "for_each (\<lambda>p. shell_surface_destroy (snd p)) m s = (x, s')" and "\<And>w. x \<noteq> Undefined w"
  shows "x = Returns () \<and> refs_ok s' \<and> next_surface s' = next_surface s
    \<and> visibility s' = (\<lambda>q. if q \<in> (\<lambda>p. surface_weak (snd p)) ` set m then None else visibility s q)"
  using assms
proof (induction m arbitrary: s)
  case Nil
  then show ?case by (simp add: ret_def)
next
  case (Cons p m)
  obtain y t where y: "destroy_surface (surface_weak (snd p)) s = (y, t)" by fastforce
  note t = destroy_surface_visibility [OF Cons.prems(1) y]
  have "y \<noteq> Undefined w" for w
    using Cons.prems(2) Cons.prems(3) [of w] y
    by (auto simp: seq_def sbind_def shell_surface_destroy_def controller_destroy_surface_def)
  then have "for_each (\<lambda>p. shell_surface_destroy (snd p)) m t = (x, s')"
    using t(2) Cons.prems(2) y by (auto simp: seq_def sbind_def shell_surface_destroy_def controller_destroy_surface_def)
  then show ?case
    using t(1) Cons.IH [of t] Cons.prems(3) by (auto simp: fun_eq_iff)
qed

lemma for_each_drop_none:
  assumes "\<forall>p \<in> set m. \<not> surface_alive s (surface_weak (snd p))"
  shows "for_each (\<lambda>p. drop_shell_surface (snd p)) m s = (Returns (), s)"
  using assms by (induction m) (auto simp: ret_def seq_def sbind_def drop_shell_surface_def surface_alive_def)

lemma destroy_session_object_effect:
  assumes "session_owns a (base_stack b)" and "destroy_session_object (a, b) = (x, p')" and "\<And>w. x \<noteq> Undefined w"
  shows "x = Returns ()" and "session_effect (a, base_stack b) (stack_of p')" and "session_refs (fst p') = []"
proof -
  have ok: "refs_ok (base_stack b)" using assms(1) by (simp add: session_owns_def)
  obtain y s' where d: "for_each (\<lambda>p. shell_surface_destroy (snd p)) (session_surfaces a) (base_stack b) = (y, s')"
    by fastforce
  have "y \<noteq> Undefined w" for w
    using assms(2) assms(3) [of w] d by (auto simp: destroy_session_object_def for_session_surfaces_def proc_simps)
  from for_each_destroy [OF ok d this] have y: "y = Returns ()" and s': "refs_ok s'"
      "next_surface s' = next_surface (base_stack b)"
      "visibility s' = (\<lambda>q. if q \<in> set (session_refs a) then None else visibility (base_stack b) q)"
    by (simp_all add: session_refs_def)
  have "\<forall>p \<in> set (session_surfaces a). \<not> surface_alive s' (surface_weak (snd p))"
    using s'(3) by (auto simp: surface_alive_visibility session_refs_def)
  note drop = for_each_drop_none [OF this]
  have p': "x = Returns ()" "p' = (a\<lparr>session_surfaces := []\<rparr>, b\<lparr>base_stack := s'\<rparr>)"
    using assms(2) d y drop by (auto simp: destroy_session_object_def for_session_surfaces_def proc_simps)
  then show "x = Returns ()" "session_refs (fst p') = []"
    by (simp_all add: session_refs_def)
  show "session_effect (a, base_stack b) (stack_of p')"
    using p' s' assms(1) by (auto simp: session_effect_def session_owns_def session_refs_def surface_alive_visibility)
qed

lemma session_advance_client_buffer_effect:
  assumes "session_owns a (base_stack b)" and "session_advance_client_buffer i (a, b) = (x, p')"
  shows "session_effect (a, base_stack b) (stack_of p')" and "fst p' = a"
    and "visibility (base_stack (snd p')) = visibility (base_stack b)"
proof -
  have ok: "refs_ok (base_stack b)" using assms(1) by (simp add: session_owns_def)
  have "session_effect (a, base_stack b) (stack_of p') \<and> fst p' = a
    \<and> visibility (base_stack (snd p')) = visibility (base_stack b)"
  proof (cases "map_of (session_surfaces a) i")
    case None
    then show ?thesis
      using assms by (auto simp: session_advance_client_buffer_def get_surface_def checked_find_def sbind_def session_effect_refl)
  next
    case (Some sh)
    obtain s' where s': "shell_surface_advance_client_buffer sh (base_stack b) = (x, s')"
        and p': "p' = (a, b\<lparr>base_stack := s'\<rparr>)"
      using assms(2) Some
      by (auto simp: session_advance_client_buffer_def get_surface_def checked_find_def proc_simps split: prod.splits)
    have "refs_ok s' \<and> next_surface s' = next_surface (base_stack b) \<and> visibility s' = visibility (base_stack b)"
      by (rule locked_keeps_visibility [OF advance_client_buffer_keeps ok s' [unfolded shell_surface_advance_client_buffer_def]])
        (simp_all add: ret_def)
    then show ?thesis
      using assms(1) p' by (auto intro!: session_effect_same simp: session_owns_def surface_alive_visibility)
  qed
  then show "session_effect (a, base_stack b) (stack_of p')" "fst p' = a"
      "visibility (base_stack (snd p')) = visibility (base_stack b)" by blast+
qed

lemma session_create_surface_fails:
  assumes "session_owns a (base_stack b)" and "session_create_surface env params (a, b) = (x, p')"
    and "\<And>w. x \<noteq> Undefined w" and "\<And>i. x \<noteq> Returns i"
  shows "fst p' = a" and "visibility (base_stack (snd p')) = visibility (base_stack b)"
proof -
  have ok: "refs_ok (base_stack b)" using assms(1) by (simp add: session_owns_def)
  obtain y b1 where o: "organising_create_surface env params b = (y, b1)" by fastforce
  note e = organising_create_surface_effect [OF ok o]
  have "\<nexists>sh. y = Returns sh"
  proof
    assume "\<exists>sh. y = Returns sh"
    then obtain sh where y: "y = Returns sh" ..
    have d: "fst (drop_shell_surface old (base_stack b1)) = Returns () \<or> (\<exists>w. fst (drop_shell_surface old (base_stack b1)) = Undefined w)" for old
      using destroy_surface_visibility(2) [OF conjunct1 [OF e], of "surface_weak old"]
      by (cases "destroy_surface (surface_weak old) (base_stack b1)")
        (auto simp: drop_shell_surface_def shell_surface_destroy_def controller_destroy_surface_def)
    show False
    proof (cases "map_of (session_surfaces a) (next_surface_id a)")
      case None
      then show ?thesis
        using assms(2) assms(4) [of "next_surface_id a"] o y
        by (simp add: session_create_surface_def put_session_surface_def next_id_def proc_simps)
    next
      case (Some old)
      obtain z s2 where z: "drop_shell_surface old (base_stack b1) = (z, s2)" by fastforce
      with d [of old] consider "z = Returns ()" | w where "z = Undefined w" by auto
      then show ?thesis
      proof cases
        case 1
        then show ?thesis
          using assms(2) assms(4) [of "next_surface_id a"] o y Some z
          by (simp add: session_create_surface_def put_session_surface_def next_id_def proc_simps)
      next
        case 2
        then show ?thesis
          using assms(2) assms(3) [of w] o y Some z
          by (simp add: session_create_surface_def put_session_surface_def next_id_def proc_simps)
      qed
    qed
  qed
  then have "p' = (a, b1)" "visibility (base_stack b1) = visibility (base_stack b)"
    using assms(2) o e by (auto simp: session_create_surface_def proc_simps split: res.splits)
  then show "fst p' = a" "visibility (base_stack (snd p')) = visibility (base_stack b)" by simp_all
qed

section \<open>Properties\<close>

lemma session_surface_ids_parts:
  assumes "session_owns a (base_stack b)" and "session_create_surface env params (a, b) = (Returns i, (a', b'))"
  shows "i = next_surface_id a"
    and "\<exists>sh. get_surface i a' = Returns sh \<and> surface_weak sh = next_surface (base_stack b)
      \<and> \<not> surface_alive (base_stack b) (surface_weak sh) \<and> surface_alive (base_stack b') (surface_weak sh)
      \<and> type_value sh = mir_surface_type_normal"
    and "j \<noteq> i \<Longrightarrow> get_surface j a' = get_surface j a"
    and "session_destroy_surface i (a', b') = (Returns (), (a'', b'')) \<Longrightarrow>
      get_surface j a'' = (if j = i then Throws (runtime_error ''Invalid SurfaceId'') else get_surface j a)"
proof -
  obtain y b1 where o: "organising_create_surface env params b = (y, b1)" by fastforce
  then obtain sh where y: "y = Returns sh"
    using assms(2) by (cases y) (auto simp: session_create_surface_def proc_simps)
  have "i = next_surface_id a \<and> session_surfaces a' = omap_set (next_surface_id a) sh (session_surfaces a)"
  proof (cases "map_of (session_surfaces a) (next_surface_id a)")
    case None
    then show ?thesis
      using assms(2) o y by (auto simp: session_create_surface_def put_session_surface_def next_id_def proc_simps)
  next
    case (Some old)
    obtain z s2 where z: "drop_shell_surface old (base_stack b1) = (z, s2)" by fastforce
    then show ?thesis
      using assms(2) o y Some
      by (cases z) (simp_all add: session_create_surface_def put_session_surface_def next_id_def proc_simps, auto)
  qed
  then have i: "i = next_surface_id a" and a': "session_surfaces a' = omap_set i sh (session_surfaces a)"
    by simp_all
  show "i = next_surface_id a" by (rule i)
  have effect: "session_effect (a, base_stack b) (a', base_stack b')"
    using session_create_surface_effect [OF assms] by simp
  then have own: "session_owns a' (base_stack b')" by (simp add: session_effect_def)
  have ref: "refs_ok (base_stack b)" using assms(1) by (simp add: session_owns_def)
  have "type_value sh = mir_surface_type_normal"
    using o y by (auto simp: organising_create_surface_def source_create_surface_def new_shell_surface_def
        make_input_channel_def proc_simps split: prod.splits res.splits)
  moreover have "surface_weak sh = next_surface (base_stack b)"
    using organising_create_surface_effect [OF ref o] y by simp
  moreover from this have "\<not> surface_alive (base_stack b) (surface_weak sh)"
    using surface_alive_lt [OF ref, of "surface_weak sh"] by auto
  moreover have "map_of (session_surfaces a') i = Some sh" by (simp add: a')
  then have "surface_alive (base_stack b') (surface_weak sh)"
    using own map_of_SomeD by (force simp: session_owns_def session_refs_def)
  ultimately show "\<exists>sh. get_surface i a' = Returns sh \<and> surface_weak sh = next_surface (base_stack b)
      \<and> \<not> surface_alive (base_stack b) (surface_weak sh) \<and> surface_alive (base_stack b') (surface_weak sh)
      \<and> type_value sh = mir_surface_type_normal"
    by (intro exI [of _ sh]) (simp add: get_surface_def checked_find_def a')
  show other: "j \<noteq> i \<Longrightarrow> get_surface j a' = get_surface j a"
    by (simp add: get_surface_def checked_find_def a')
  assume "session_destroy_surface i (a', b') = (Returns (), (a'', b''))"
  then have "session_surfaces a'' = omap_erase i (session_surfaces a')"
    by (auto simp: session_destroy_surface_def sbind_Returns seq_Returns zoom_def modify_def split: prod.splits)
  then show "get_surface j a'' = (if j = i then Throws (runtime_error ''Invalid SurfaceId'') else get_surface j a)"
    using other by (simp add: get_surface_def checked_find_def)
qed

text \<open>C23: Creating a surface in a session gives it the next id; looking the id up gives a surface
  that is on the stack, is new there and is of the normal type, and all other ids mean what they
  meant before, unless the counter of ids has come back to an id that was in use. Destroying it
  makes the id invalid again, which is reported as an exception, and leaves the other ids alone.\<close>

theorem session_surface_ids:
  assumes "session_owns a (base_stack b)" and "session_create_surface env params (a, b) = (Returns i, (a', b'))"
  shows "i = next_surface_id a
    \<and> (\<exists>sh. get_surface i a' = Returns sh \<and> surface_weak sh = next_surface (base_stack b)
      \<and> \<not> surface_alive (base_stack b) (surface_weak sh) \<and> surface_alive (base_stack b') (surface_weak sh)
      \<and> type_value sh = mir_surface_type_normal)
    \<and> (\<forall>j. j \<noteq> i \<longrightarrow> get_surface j a' = get_surface j a)
    \<and> (\<forall>a'' b'' j. session_destroy_surface i (a', b') = (Returns (), (a'', b'')) \<longrightarrow>
      get_surface j a'' = (if j = i then Throws (runtime_error ''Invalid SurfaceId'') else get_surface j a))"
  using session_surface_ids_parts [OF assms] by (intro conjI allI impI)

definition sample_view :: "gbm_allocator shell_env" where
  "sample_view = \<lparr>env_stack = sample_env, env_make_input_channel = (\<lambda>n. Returns None),
     env_view_area = \<lparr>top_left = point_zero, rect_size = \<lparr>width = 1024, height = 768\<rparr>\<rparr>\<rparr>"

definition sample_base :: "(gbm_allocator, nat) shell_base" where
  "sample_base = \<lparr>base_stack = sample_stack, input_calls = 0\<rparr>"

lemma sample_create_destroy:
  "(case session_create_surface sample_view sample_params (new_application_session ''s'', sample_base) of
      (x, p) \<Rightarrow> (x, fst (session_destroy_surface 0 p))) = (Returns 0, Returns ())"
  by code_simp

theorem session_surface_ids_witness:
  "\<exists>a' b' a'' b'' sh. session_owns (new_application_session ''s'') (base_stack sample_base)
     \<and> session_create_surface sample_view sample_params (new_application_session ''s'', sample_base) = (Returns 0, (a', b'))
     \<and> get_surface 0 a' = Returns sh \<and> surface_alive (base_stack b') (surface_weak sh)
     \<and> session_destroy_surface 0 (a', b') = (Returns (), (a'', b''))
     \<and> get_surface 0 a'' = Throws (runtime_error ''Invalid SurfaceId'')"
proof -
  obtain a' b' where c: "session_create_surface sample_view sample_params
        (new_application_session ''s'', sample_base) = (Returns 0, (a', b'))"
      and f: "fst (session_destroy_surface 0 (a', b')) = Returns ()"
    using sample_create_destroy by (auto split: prod.splits)
  from f obtain a'' b'' where d: "session_destroy_surface 0 (a', b') = (Returns (), (a'', b''))"
    by (metis prod.collapse)
  have own: "session_owns (new_application_session ''s'') (base_stack sample_base)"
    by (simp add: session_owns_def new_application_session_def session_refs_def sample_base_def sample_stack_def
        new_surface_stack_def refs_ok_def)
  obtain sh where "get_surface 0 a' = Returns sh" "surface_alive (base_stack b') (surface_weak sh)"
    using session_surface_ids [OF own c] by blast
  moreover have "get_surface 0 a'' = Throws (runtime_error ''Invalid SurfaceId'')"
    using session_surface_ids [OF own c] d by auto
  ultimately show ?thesis
    using own c d by (intro exI [of _ a'] exI [of _ b'] exI [of _ a''] exI [of _ b''] exI [of _ sh] conjI)
qed

text \<open>C24: Whatever size a client asks for, a placed surface is never larger than the viewable area
  in either direction, nor larger than what was asked for; a request for size zero by zero gets the
  whole area. Everything else of the request stays.\<close>

theorem place_within_view:
  "let placed = param_size (place area request) in
     width placed \<le> width (rect_size area) \<and> height placed \<le> height (rect_size area)
     \<and> (if param_size request = \<lparr>width = 0, height = 0\<rparr> then placed = rect_size area
        else width placed \<le> width (param_size request) \<and> height placed \<le> height (param_size request))
     \<and> place area request = request\<lparr>param_size := placed\<rparr>"
  by (cases "param_size request") (simp add: place_def Let_def)

text \<open>C25: \<^verbatim>\<open>configure_surface\<close> accepts exactly the surface types that are defined, for surfaces of the
  session: the surface then has that type and the other surfaces are unchanged. An unknown id,
  an unknown attribute or a type out of range is an exception of its own and changes nothing.\<close>

theorem configure_surface_contract:
  assumes "omap_wf (session_surfaces a)"
  shows "case configure_surface i attrib v a of (x, a') \<Rightarrow>
    (case get_surface i a of
       Returns sh \<Rightarrow>
         if attrib \<noteq> mir_surface_attrib_type then x = Throws (logic_error ''Invalid surface attribute.'') \<and> a' = a
         else if v < 0 \<or> mir_surface_type_arraysize \<le> v then x = Throws (logic_error ''Invalid surface type.'') \<and> a' = a
         else x = Returns v \<and> get_surface i a' = Returns (sh\<lparr>type_value := v\<rparr>)
              \<and> (\<forall>j. j \<noteq> i \<longrightarrow> get_surface j a' = get_surface j a)
     | y \<Rightarrow> x = Throws (runtime_error ''Invalid SurfaceId'') \<and> a' = a)"
proof (cases "map_of (session_surfaces a) i")
  case None
  then show ?thesis by (simp add: configure_surface_def get_surface_def checked_find_def sbind_def)
next
  case (Some sh)
  have "a\<lparr>session_surfaces := omap_set i sh (session_surfaces a)\<rparr> = a"
    using map_omap_set_known [OF assms Some, of "\<lambda>p. p" sh] by simp
  then show ?thesis
    using Some by (auto simp: configure_surface_def get_surface_def checked_find_def configure_def set_type_def proc_simps)
qed

definition sample_session :: application_session where
  "sample_session = \<lparr>session_name = ''s'', next_surface_id = 1, session_surfaces =
     [(0, \<lparr>shell_input_channel = None, surface_weak = 0, type_value = mir_surface_type_normal\<rparr>)]\<rparr>"

theorem configure_surface_contract_witness:
  "omap_wf (session_surfaces sample_session)
   \<and> fst (configure_surface 0 mir_surface_attrib_type 5 sample_session) = Returns 5
   \<and> fst (configure_surface 0 mir_surface_attrib_type 6 sample_session) = Throws (logic_error ''Invalid surface type.'')
   \<and> fst (configure_surface 1 mir_surface_attrib_type 5 sample_session) = Throws (runtime_error ''Invalid SurfaceId'')"
proof -
  have wf: "omap_wf (session_surfaces sample_session)"
    by (simp add: sample_session_def omap_wf_def)
  have get: "get_surface 0 sample_session = Returns (snd (hd (session_surfaces sample_session)))"
      "get_surface 1 sample_session = Throws (runtime_error ''Invalid SurfaceId'')"
    by (simp_all add: sample_session_def get_surface_def checked_find_def)
  show ?thesis
    using configure_surface_contract [OF wf, where i = 0 and attrib = mir_surface_attrib_type and v = 5]
      configure_surface_contract [OF wf, where i = 0 and attrib = mir_surface_attrib_type and v = 6]
      configure_surface_contract [OF wf, where i = 1 and attrib = mir_surface_attrib_type and v = 5] wf get
    by (simp add: case_prod_beta mir_surface_type_arraysize_def)
qed

end
