(* ===== verification/Session_Invariants.thy ===== *)
theory Session_Invariants
  imports Session_Manager Session_Effects
begin

text \<open>
  The invariants of the shell (\<^verbatim>\<open>shell/session_manager.cpp\<close> over the session container, the focus
  mechanism and the surface stack): who owns sessions and surfaces, and which sessions are visible.
\<close>

section \<open>Ownership\<close>

abbreviation shell_stack :: "('g, 'w) shell \<Rightarrow> ('g, 'w) surface_stack" where
  "shell_stack s \<equiv> base_stack (shell_base s)"

definition live :: "('g, 'w) shell \<Rightarrow> session_ref set" where
  "live s = fst ` set (live_sessions s)"

definition owned :: "('g, 'w) shell \<Rightarrow> session_ref set" where
  "owned s = set (apps s) \<union> snd ` set (tags s) \<union> set (session_holders s)"

text \<open>Every surface of the stack belongs to exactly one session object.\<close>

definition shell_core :: "('g, 'w) shell \<Rightarrow> bool" where
  "shell_core s \<longleftrightarrow>
     distinct (map fst (live_sessions s)) \<and> (\<forall>r \<in> live s. r < next_session s) \<and> refs_ok (shell_stack s)
     \<and> (\<forall>r a. session_at r s = Some a \<longrightarrow> session_owns a (shell_stack s))
     \<and> (\<forall>r a r' a'. session_at r s = Some a \<longrightarrow> session_at r' s = Some a' \<longrightarrow> r \<noteq> r' \<longrightarrow>
          set (session_refs a) \<inter> set (session_refs a') = {})
     \<and> (\<forall>q. surface_alive (shell_stack s) q \<longrightarrow> (\<exists>r a. session_at r s = Some a \<and> q \<in> set (session_refs a)))"

lemma shell_core_cong:
  assumes "live_sessions s' = live_sessions s" and "next_session s' = next_session s"
    and "shell_stack s' = shell_stack s"
  shows "shell_core s' = shell_core s"
  by (simp only: shell_core_def live_def session_at_def assms)

lemma live_iff: "r \<in> live s \<longleftrightarrow> (\<exists>a. session_at r s = Some a)"
  by (metis live_def session_at_def map_of_eq_None_iff not_None_eq)

lemma put_session_simps [simp]:
  "shell_base (put_session r a s) = shell_base s" "next_session (put_session r a s) = next_session s"
  "apps (put_session r a s) = apps s" "focus_application (put_session r a s) = focus_application s"
  "tags (put_session r a s) = tags s" "session_holders (put_session r a s) = session_holders s"
  "input_focus (put_session r a s) = input_focus s"
  "map fst (live_sessions (put_session r a s)) = map fst (live_sessions s)"
  by (simp_all add: put_session_def comp_def if_distrib cong: if_cong)

lemma live_put_session [simp]: "live (put_session r a s) = live s"
  unfolding live_def by (metis put_session_simps(8) set_map)

lemma session_at_put:
  "session_at r' (put_session r a s) = (if r' = r \<and> session_at r s \<noteq> None then Some a else session_at r' s)"
proof -
  have "map_of (map (\<lambda>p. if fst p = r then (r, a) else p) xs) r' =
      (if r' = r \<and> map_of xs r \<noteq> None then Some a else map_of xs r')" for xs
    by (induction xs) auto
  then show ?thesis by (simp add: session_at_def put_session_def)
qed

lemma session_at_frame [simp]: "session_at r (s\<lparr>shell_base := b\<rparr>) = session_at r s"
  by (simp add: session_at_def)

lemma live_frame [simp]: "live (s\<lparr>shell_base := b\<rparr>) = live s"
  by (simp add: live_def)

lemma put_session_same: "distinct (map fst (live_sessions s)) \<Longrightarrow> session_at r s = Some a \<Longrightarrow> put_session r a s = s"
proof -
  assume "distinct (map fst (live_sessions s))" "session_at r s = Some a"
  then have "(if fst p = r then (r, a) else p) = p" if "p \<in> set (live_sessions s)" for p
    using that by (cases p) (auto simp: session_at_def dest!: map_of_SomeD dest: eq_key_imp_eq_value)
  then show ?thesis by (simp add: put_session_def map_idI)
qed

text \<open>A call of one session keeps the shell in order.\<close>

lemma shell_core_session_call:
  assumes s: "shell_core s" and r: "session_at r s = Some a"
    and e: "session_effect (a, shell_stack s) (a', base_stack b')"
  shows "shell_core (put_session r a' (s\<lparr>shell_base := b'\<rparr>))"
proof -
  let ?s = "put_session r a' (s\<lparr>shell_base := b'\<rparr>)" and ?k = "shell_stack s" and ?k' = "base_stack b'"
  have at: "session_at r' ?s = (if r' = r then Some a' else session_at r' s)" for r'
    using r by (simp add: session_at_put)
  have own: "session_owns c ?k" if "session_at r' s = Some c" for r' c
    using s that by (simp add: shell_core_def)
  have apart: "set (session_refs c) \<inter> set (session_refs a) = {}" if "session_at r' s = Some c" "r' \<noteq> r" for r' c
    using s r that unfolding shell_core_def by blast
  have apart': "set (session_refs c) \<inter> set (session_refs a') = {}" if "session_at r' s = Some c" "r' \<noteq> r" for r' c
  proof -
    have "q \<notin> set (session_refs a')" if "q \<in> set (session_refs c)" for q
    proof
      assume "q \<in> set (session_refs a')"
      then have "next_surface ?k \<le> q"
        using e that apart [OF \<open>session_at r' s = Some c\<close> \<open>r' \<noteq> r\<close>] unfolding session_effect_def by auto
      moreover have "q < next_surface ?k"
        using own [OF \<open>session_at r' s = Some c\<close>] that by (auto simp: session_owns_def dest: surface_alive_lt)
      ultimately show False by simp
    qed
    then show ?thesis by blast
  qed
  have own': "session_owns c ?k'" if "session_at r' s = Some c" "r' \<noteq> r" for r' c
  proof -
    have "visibility ?k' q = visibility ?k q" if "q \<in> set (session_refs c)" for q
      using apart [OF \<open>session_at r' s = Some c\<close> \<open>r' \<noteq> r\<close>] apart' [OF \<open>session_at r' s = Some c\<close> \<open>r' \<noteq> r\<close>] e that
      by (auto simp: session_effect_def)
    then show ?thesis
      using own [OF that(1)] e by (simp add: session_effect_def session_owns_def surface_alive_visibility)
  qed
  have cover: "\<exists>r' c. session_at r' ?s = Some c \<and> q \<in> set (session_refs c)" if "surface_alive ?k' q" for q
  proof (cases "q \<in> set (session_refs a')")
    case True
    then show ?thesis using at [of r] by auto
  next
    case False
    with e that have "q \<notin> set (session_refs a)"
      by (auto simp: session_effect_def)
    moreover from this False e that have "surface_alive ?k q"
      by (simp add: session_effect_def surface_alive_visibility)
    ultimately obtain r' c where "session_at r' s = Some c" "q \<in> set (session_refs c)"
      using s unfolding shell_core_def by blast
    moreover from this have "r' \<noteq> r" using r \<open>q \<notin> set (session_refs a)\<close> by auto
    ultimately show ?thesis using at [of r'] by auto
  qed
  have "refs_ok ?k'" "session_owns a' ?k'"
    using e by (simp_all add: session_effect_def session_owns_def)
  then show ?thesis
    using s own' apart' cover unfolding shell_core_def at
    by (auto split: if_splits simp: Int_commute)
qed

text \<open>The sessions and their owners stay as they are.\<close>

definition same_sessions :: "('g, 'w) shell \<Rightarrow> ('g, 'w) shell \<Rightarrow> bool" where
  "same_sessions s s' \<longleftrightarrow> live_sessions s' = live_sessions s \<and> next_session s' = next_session s
     \<and> apps s' = apps s \<and> tags s' = tags s \<and> session_holders s' = session_holders s
     \<and> focus_application s' = focus_application s"

lemma same_sessions_refl [simp]: "same_sessions s s"
  by (simp add: same_sessions_def)

lemma same_sessions_trans: "same_sessions s t \<Longrightarrow> same_sessions t u \<Longrightarrow> same_sessions s u"
  by (simp add: same_sessions_def)

lemma same_sessions_at: "same_sessions s s' \<Longrightarrow> session_at r s' = session_at r s"
  by (simp add: same_sessions_def session_at_def)

lemma same_sessions_live: "same_sessions s s' \<Longrightarrow> live s' = live s \<and> owned s' = owned s"
  by (simp add: same_sessions_def live_def owned_def)

section \<open>Focus\<close>

definition focus_shown :: "session_ref option \<Rightarrow> session_ref set \<Rightarrow> ('g, 'w) shell \<Rightarrow> bool" where
  "focus_shown f rs s \<longleftrightarrow> (\<forall>r \<in> rs. \<forall>a. session_at r s = Some a \<longrightarrow>
     (\<forall>q \<in> set (session_refs a). visibility (shell_stack s) q = Some (f \<noteq> Some r)))"

lemma focus_visit_effect:
  assumes s: "shell_core s" and r: "session_at r s = Some a"
  obtains s' where "focus_visit f r s = (Returns (), s')" and "shell_core s'" and "same_sessions s s'"
    and "visibility (shell_stack s') =
      (\<lambda>q. if q \<in> set (session_refs a) then Some (f \<noteq> Some r) else visibility (shell_stack s) q)"
proof -
  have own: "session_owns a (shell_stack s)" and d: "distinct (map fst (live_sessions s))"
    using s r by (simp_all add: shell_core_def)
  obtain b' where b': "(if f \<noteq> Some r then session_hide (a, shell_base s) else session_show (a, shell_base s))
        = (Returns (), (a, b'))"
      and e: "session_effect (a, shell_stack s) (a, base_stack b')"
      and v: "visibility (base_stack b') =
        (\<lambda>q. if q \<in> set (session_refs a) then Some (f \<noteq> Some r) else visibility (shell_stack s) q)"
    by (rule session_visibility_effect [OF own])
  let ?s = "s\<lparr>shell_base := b'\<rparr>"
  have put: "put_session r a ?s = ?s"
    using d r by (intro put_session_same) simp_all
  have core: "shell_core ?s"
    using shell_core_session_call [OF s r e] put by simp
  show ?thesis
  proof (cases "f = Some r")
    case False
    then have "focus_visit f r s = (Returns (), ?s)"
      using b' r put by (simp add: focus_visit_def on_session_def)
    then show ?thesis
      using core v by (intro that [of ?s]) (simp_all add: same_sessions_def)
  next
    case True
    let ?t = "?s\<lparr>input_focus := (r, default_surface a) # input_focus s\<rparr>"
    have "put_session r a (?s\<lparr>shell_base := b'\<rparr>) = ?s"
      using put by simp
    then have "focus_visit f r s = (Returns (), ?t)"
      using True b' r put
      by (simp add: focus_visit_def on_session_def set_input_focus_to_def proc_simps)
    moreover have "shell_core ?t"
      using core shell_core_cong [of ?t ?s] by simp
    ultimately show ?thesis
      using v by (intro that [of ?t]) (simp_all add: same_sessions_def)
  qed
qed

lemma for_each_focus_visit:
  assumes "shell_core s" and "set rs \<subseteq> live s"
  shows "\<exists>s'. for_each (focus_visit f) rs s = (Returns (), s') \<and> shell_core s' \<and> same_sessions s s'
    \<and> focus_shown f (set rs) s'"
  using assms
proof (induction rs rule: rev_induct)
  case Nil
  then show ?case by (auto simp: ret_def focus_shown_def)
next
  case (snoc r rs)
  then obtain t where t: "for_each (focus_visit f) rs s = (Returns (), t)" "shell_core t" "same_sessions s t"
      "focus_shown f (set rs) t"
    by auto
  obtain a where a: "session_at r t = Some a"
    using snoc.prems t(3) by (auto simp: live_iff same_sessions_at)
  obtain u where u: "focus_visit f r t = (Returns (), u)" "shell_core u" "same_sessions t u"
      "visibility (shell_stack u) =
        (\<lambda>q. if q \<in> set (session_refs a) then Some (f \<noteq> Some r) else visibility (shell_stack t) q)"
    by (rule focus_visit_effect [OF t(2) a])
  have "for_each (focus_visit f) (rs @ [r]) s = (Returns (), u)"
    using t(1) u(1) by (simp add: for_each_append seq_def sbind_def ret_def)
  moreover have "q \<notin> set (session_refs a)"
    if "session_at r' t = Some c" "r' \<noteq> r" "q \<in> set (session_refs c)" for r' c q
    using t(2) a that unfolding shell_core_def by blast
  then have "focus_shown f (set (rs @ [r])) u"
    using t(4) a u(4) same_sessions_at [OF u(3)]
    by (auto simp: focus_shown_def)
  ultimately show ?case
    using u(2) same_sessions_trans [OF t(3) u(3)] by blast
qed

lemma set_focus_to_effect:
  assumes "shell_core s" and "set (apps s) \<subseteq> live s"
  obtains s' where "set_focus_to f s = (Returns (), s')" and "shell_core s'"
    and "same_sessions (s\<lparr>focus_application := f\<rparr>) s'" and "focus_shown f (set (apps s)) s'"
proof -
  let ?s = "s\<lparr>focus_application := f\<rparr>"
  have "shell_core ?s" "set (apps s) \<subseteq> live ?s"
    using assms shell_core_cong [of ?s s] by (simp_all add: live_def)
  from for_each_focus_visit [OF this, of f] obtain s' where
    "for_each (focus_visit f) (apps s) ?s = (Returns (), s')" "shell_core s'" "same_sessions ?s s'"
    "focus_shown f (set (apps s)) s'"
    by blast
  then show ?thesis
    by (intro that [of s'])
      (simp_all add: set_focus_to_def focus_mechanism_set_focus_to_def for_each_session_def proc_simps)
qed

section \<open>The invariant of the shell\<close>

definition shell_ok :: "('g, 'w) shell \<Rightarrow> bool" where
  "shell_ok s \<longleftrightarrow> shell_core s \<and> owned s = live s \<and> distinct (apps s)
     \<and> focus_shown (focus_application s) (set (apps s)) s"

lemma shell_ok_new: "refs_ok (base_stack b) \<Longrightarrow> surfaces (base_stack b) = [] \<Longrightarrow> shell_ok (new_shell b)"
  by (simp add: shell_ok_def shell_core_def new_shell_def live_def owned_def session_at_def focus_shown_def
      surface_alive_iff)

lemma owned_frame [simp]: "owned (put_session r a (s\<lparr>shell_base := b\<rparr>)) = owned s"
  by (simp add: owned_def)

text \<open>Calls of a session that give it no new surface and leave the visibility of the others.\<close>

lemma shell_ok_session_call:
  assumes s: "shell_ok s" and r: "session_at r s = Some a"
    and e: "session_effect (a, shell_stack s) (a', base_stack b')"
    and v: "\<And>q. q \<in> set (session_refs a') \<Longrightarrow>
      q \<in> set (session_refs a) \<and> visibility (base_stack b') q = visibility (shell_stack s) q"
  shows "shell_ok (put_session r a' (s\<lparr>shell_base := b'\<rparr>))"
proof -
  have core: "shell_core s" using s by (simp add: shell_ok_def)
  have "visibility (base_stack b') q = visibility (shell_stack s) q"
    if "session_at r' s = Some c" "r' \<noteq> r" "q \<in> set (session_refs c)" for r' c q
  proof -
    have "q \<notin> set (session_refs a)"
      using core r that unfolding shell_core_def by blast
    then show ?thesis
      using e v by (auto simp: session_effect_def)
  qed
  then show ?thesis
    using s r v shell_core_session_call [OF core r e]
    by (auto simp: shell_ok_def focus_shown_def session_at_put split: if_splits)
qed

text \<open>The destructor of a session that nobody holds any more.\<close>

lemma collect_session_effect:
  assumes s: "shell_core s" "focus_shown f (set (apps s)) s" and c: "collect_session r s = (x, s')"
    and "\<And>w. x \<noteq> Undefined w"
  shows "x = Returns () \<and> shell_core s' \<and> focus_shown f (set (apps s')) s'
    \<and> apps s' = apps s \<and> tags s' = tags s \<and> session_holders s' = session_holders s
    \<and> focus_application s' = focus_application s \<and> live s' = live s - ({r} - owned s)
    \<and> (\<forall>r' \<in> live s'. session_at r' s' = session_at r' s)"
proof (cases "r \<in> owned s \<or> session_at r s = None")
  case True
  then have "s' = s" "x = Returns ()"
    using c by (auto simp: collect_session_def owned_def split: if_splits)
  moreover have "live s = live s - ({r} - owned s)"
    using True by (auto simp: live_iff)
  ultimately show ?thesis using s by simp
next
  case False
  then obtain a where a: "session_at r s = Some a" and r: "r \<notin> owned s" by blast
  have own: "session_owns a (shell_stack s)" using s(1) a by (simp add: shell_core_def)
  obtain y a' b' where d: "destroy_session_object (a, shell_base s) = (y, (a', b'))" by (metis prod_cases3)
  let ?t = "put_session r a' (s\<lparr>shell_base := b'\<rparr>)"
  let ?u = "?t\<lparr>live_sessions := filter (\<lambda>p. fst p \<noteq> r) (live_sessions ?t)\<rparr>"
  have not_owned: "\<not> (r \<in> set (apps s) \<or> r \<in> snd ` set (tags s) \<or> r \<in> set (session_holders s) \<or> session_at r s = None)"
    using False by (auto simp: owned_def)
  have run: "collect_session r s = (case y of Returns _ \<Rightarrow> (Returns (), ?u) | Throws e \<Rightarrow> (Throws e, ?t)
      | Blocks \<Rightarrow> (Blocks, ?t) | Undefined w \<Rightarrow> (Undefined w, ?t))"
    unfolding collect_session_def if_not_P [OF not_owned]
    using a d by (simp add: on_session_def seq_def sbind_def modify_def split: res.splits)
  have "y \<noteq> Undefined w" for w
    using run c assms(4) [of w] by auto
  from destroy_session_object_effect [OF own d this] have y: "y = Returns ()"
      and e: "session_effect (a, shell_stack s) (a', base_stack b')" and none: "session_refs a' = []"
    by simp_all
  have core: "shell_core ?t" by (rule shell_core_session_call [OF s(1) a e])
  have "map_of (filter (\<lambda>p. fst p \<noteq> r) xs) = (map_of xs)(r := None)" for xs :: "(nat \<times> application_session) list"
    by (induction xs) (auto simp: fun_eq_iff)
  then have at: "session_at r' ?u = (if r' = r then None else session_at r' ?t)" for r'
    by (simp add: session_at_def)
  have cover: "\<exists>r' c. r' \<noteq> r \<and> session_at r' ?t = Some c \<and> q \<in> set (session_refs c)"
    if alive: "surface_alive (base_stack b') q" for q
  proof -
    have "surface_alive (shell_stack ?t) q" using alive by simp
    then obtain r' c where rc: "session_at r' ?t = Some c" "q \<in> set (session_refs c)"
      using core unfolding shell_core_def by blast
    moreover have "r' \<noteq> r" using rc a none by (auto simp: session_at_put)
    ultimately show ?thesis by blast
  qed
  have live: "live ?u = live s - {r}"
    using live_put_session [of r a' "s\<lparr>shell_base := b'\<rparr>"] by (auto simp: live_def)
  have "distinct (map fst (live_sessions ?u))"
    using core by (simp add: shell_core_def distinct_map_filter)
  moreover have "\<forall>r' \<in> live ?u. r' < next_session ?u" "refs_ok (shell_stack ?u)"
    using core live by (auto simp: shell_core_def)
  moreover have "session_owns c (shell_stack ?u)" if "session_at r' ?u = Some c" for r' c
    using core that unfolding at by (simp add: shell_core_def split: if_splits)
  moreover have "set (session_refs c) \<inter> set (session_refs c') = {}"
    if "session_at r1 ?u = Some c" "session_at r2 ?u = Some c'" "r1 \<noteq> r2" for r1 r2 c c'
    using core that unfolding at by (simp add: shell_core_def split: if_splits)
  moreover have "\<exists>r' c. session_at r' ?u = Some c \<and> q \<in> set (session_refs c)"
    if "surface_alive (shell_stack ?u) q" for q
    using cover [of q] that unfolding at by auto
  ultimately have "shell_core ?u" unfolding shell_core_def by blast
  moreover have "focus_shown f (set (apps s)) ?u"
    unfolding focus_shown_def
  proof (intro ballI allI impI)
    fix r' c q
    assume r': "r' \<in> set (apps s)" "session_at r' ?u = Some c" "q \<in> set (session_refs c)"
    then have "r' \<noteq> r" "session_at r' s = Some c" by (auto simp: at session_at_put split: if_splits)
    moreover from this have "q \<notin> set (session_refs a)"
      using s(1) a r'(3) unfolding shell_core_def by blast
    ultimately show "visibility (shell_stack ?u) q = Some (f \<noteq> Some r')"
      using s(2) r' e none by (simp add: session_effect_def focus_shown_def)
  qed
  moreover have "\<forall>r' \<in> live ?u. session_at r' ?u = session_at r' s"
    using live by (simp add: at session_at_put)
  ultimately show ?thesis
    using run c y live r by auto
qed

section \<open>The calls on the shell\<close>

text \<open>
  The frontend calls with sessions that it holds shared pointers to; the input side asks for
  \<^verbatim>\<open>focus_next\<close> and the server for \<^verbatim>\<open>shutdown\<close>.
\<close>

datatype shell_call =
    Open_session string
  | Create_surface_for session_ref surface_creation_parameters
  | Advance_client_buffer session_ref surface_id
  | Configure_surface session_ref surface_id int int
  | Destroy_surface session_ref surface_id
  | Close_session session_ref
  | Release_session session_ref
  | Tag_session session_ref int
  | Focus_tagged int
  | Focus_next
  | Shutdown_sessions

definition forget :: "('s, 'a) proc \<Rightarrow> ('s, unit) proc" where
  "forget m = sbind m (\<lambda>_. ret ())"

fun shell_do :: "'g shell_env \<Rightarrow> shell_call \<Rightarrow> (('g, 'w) shell, unit) proc" where
  "shell_do env (Open_session name) = forget (open_session name)"
| "shell_do env (Create_surface_for r params) = forget (create_surface_for env r params)"
| "shell_do env (Advance_client_buffer r i) = on_session r (session_advance_client_buffer i)"
| "shell_do env (Configure_surface r i attrib v) = forget (on_session r (on_self (configure_surface i attrib v)))"
| "shell_do env (Destroy_surface r i) = on_session r (session_destroy_surface i)"
| "shell_do env (Close_session r) = close_session r"
| "shell_do env (Release_session r) = release_session r"
| "shell_do env (Tag_session r i) = tag_session_with_lightdm_id r i"
| "shell_do env (Focus_tagged i) = focus_session_with_lightdm_id i"
| "shell_do env Focus_next = focus_next"
| "shell_do env Shutdown_sessions = manager_shutdown"

fun may_call :: "('g, 'w) shell \<Rightarrow> shell_call \<Rightarrow> bool" where
  "may_call s (Create_surface_for r params) \<longleftrightarrow> r \<in> set (session_holders s)"
| "may_call s (Advance_client_buffer r i) \<longleftrightarrow> r \<in> set (session_holders s)"
| "may_call s (Configure_surface r i attrib v) \<longleftrightarrow> r \<in> set (session_holders s)"
| "may_call s (Destroy_surface r i) \<longleftrightarrow> r \<in> set (session_holders s)"
| "may_call s (Close_session r) \<longleftrightarrow> r \<in> set (session_holders s)"
| "may_call s (Release_session r) \<longleftrightarrow> r \<in> set (session_holders s)"
| "may_call s (Tag_session r i) \<longleftrightarrow> r \<in> set (session_holders s)"
| "may_call s _ \<longleftrightarrow> True"

inductive shell_reachable :: "'g shell_env \<Rightarrow> ('g, 'w) shell \<Rightarrow> bool" for env where
  start: "refs_ok (base_stack b) \<Longrightarrow> surfaces (base_stack b) = [] \<Longrightarrow> shell_reachable env (new_shell b)"
| call: "shell_reachable env s \<Longrightarrow> may_call s c \<Longrightarrow> shell_do env c s = (x, s') \<Longrightarrow> \<forall>w. x \<noteq> Undefined w
    \<Longrightarrow> shell_reachable env s'"

lemma forget_cases:
  assumes "forget m s = (x, s')"
  obtains y where "m s = (y, s')" and "(\<exists>w. y = Undefined w) \<longleftrightarrow> (\<exists>w. x = Undefined w)"
  using assms by (cases "fst (m s)") (auto simp: forget_def sbind_def ret_def split: prod.splits)

lemma holder_at:
  assumes "shell_ok s" and "r \<in> set (session_holders s)"
  obtains a where "session_at r s = Some a"
  using assms by (auto simp: shell_ok_def owned_def live_iff set_eq_iff)

lemma apps_live: "owned s = live s \<Longrightarrow> set (apps s) \<subseteq> live s"
  by (auto simp: owned_def)

lemma shell_ok_focus:
  assumes "shell_core s" and "owned s = live s" and "distinct (apps s)" and "set_focus_to f s = (x, s')"
  shows "x = Returns ()" and "shell_ok s'" and "same_sessions (s\<lparr>focus_application := f\<rparr>) s'"
proof -
  have "set (apps s) \<subseteq> live s" using assms(2) by (rule apps_live)
  then obtain t where t: "set_focus_to f s = (Returns (), t)" "shell_core t"
      "same_sessions (s\<lparr>focus_application := f\<rparr>) t" "focus_shown f (set (apps s)) t"
    by (rule set_focus_to_effect [OF assms(1)])
  then show "x = Returns ()" "same_sessions (s\<lparr>focus_application := f\<rparr>) s'"
    using assms(4) by simp_all
  have "owned t = live t" "apps t = apps s" "focus_application t = f"
    using t(3) assms(2) by (simp_all add: same_sessions_def live_def owned_def)
  then show "shell_ok s'"
    using t assms(3,4) by (simp add: shell_ok_def)
qed

lemma open_session_ok:
  assumes s: "shell_ok s" and o: "open_session name s = (x, s')"
  shows "shell_ok s'" and "x = Returns (next_session s)" and "focus_application s' = Some (next_session s)"
    and "apps s' = apps s @ [next_session s]"
proof -
  let ?r = "next_session s"
  let ?t = "s\<lparr>live_sessions := live_sessions s @ [(?r, new_application_session name)],
      next_session := Suc ?r, session_holders := ?r # session_holders s, apps := apps s @ [?r]\<rparr>"
  have core: "shell_core s" and own: "owned s = live s" and d: "distinct (apps s)"
    using s by (simp_all add: shell_ok_def)
  have fresh: "?r \<notin> live s" using core by (auto simp: shell_core_def)
  then have "map_of (live_sessions s) ?r = None" by (simp add: live_def map_of_eq_None_iff)
  then have at: "session_at r' ?t = (if r' = ?r then Some (new_application_session name) else session_at r' s)" for r'
    by (simp add: session_at_def map_add_def split: option.splits)
  have live: "live ?t = insert ?r (live s)" by (auto simp: live_def)
  have new: "session_refs (new_application_session name) = []"
    by (simp add: session_refs_def new_application_session_def)
  have "session_at ?r s = None" using fresh by (simp add: live_iff)
  have "distinct (map fst (live_sessions ?t))" "\<forall>r' \<in> live ?t. r' < next_session ?t" "refs_ok (shell_stack ?t)"
    using core fresh live by (auto simp: shell_core_def live_def)
  moreover have "session_owns c (shell_stack ?t)" if "session_at r' ?t = Some c" for r' c
    using core that new unfolding at
    by (auto simp: shell_core_def session_owns_def new_application_session_def split: if_splits)
  moreover have "set (session_refs c) \<inter> set (session_refs c') = {}"
    if "session_at r1 ?t = Some c" "session_at r2 ?t = Some c'" "r1 \<noteq> r2" for r1 r2 c c'
    using core that new unfolding at by (auto simp: shell_core_def split: if_splits)
  moreover have "\<exists>r' c. session_at r' ?t = Some c \<and> q \<in> set (session_refs c)"
    if "surface_alive (shell_stack ?t) q" for q
  proof -
    have "surface_alive (shell_stack s) q" using that by simp
    then obtain r' c where "session_at r' s = Some c" "q \<in> set (session_refs c)"
      using core unfolding shell_core_def by blast
    then show ?thesis
      using \<open>session_at ?r s = None\<close> unfolding at by (intro exI [of _ r'] exI [of _ c]) auto
  qed
  ultimately have "shell_core ?t" unfolding shell_core_def by blast
  moreover have "owned ?t = live ?t"
    using own live by (auto simp: owned_def)
  moreover have "distinct (apps ?t)"
    using d fresh own by (auto simp: owned_def)
  moreover obtain y where y: "set_focus_to (Some ?r) ?t = (y, s')" and x: "y = Returns () \<Longrightarrow> x = Returns ?r"
    using o by (auto simp: open_session_def make_session_def insert_session_def set_focus_to_def proc_simps
        split: prod.splits res.splits)
  ultimately show "shell_ok s'" "x = Returns ?r" "focus_application s' = Some ?r" "apps s' = apps s @ [?r]"
    using shell_ok_focus [of ?t "Some ?r" y s'] by (simp_all add: same_sessions_def)
qed

lemma session_call_ok:
  assumes s: "shell_ok s" and r: "session_at r s = Some a" and m: "on_session r m s = (x, s')"
    and e: "\<And>a' b'. m (a, shell_base s) = (x, (a', b')) \<Longrightarrow> session_effect (a, shell_stack s) (a', base_stack b')
      \<and> (\<forall>q \<in> set (session_refs a'). q \<in> set (session_refs a)
           \<and> visibility (base_stack b') q = visibility (shell_stack s) q)"
  shows "shell_ok s'"
proof -
  obtain a' b' where ab: "m (a, shell_base s) = (x, (a', b'))" and s': "s' = put_session r a' (s\<lparr>shell_base := b'\<rparr>)"
    using m r by (auto simp: on_session_def split: prod.splits)
  show ?thesis
    unfolding s' using e [OF ab] by (intro shell_ok_session_call [OF s r]) simp_all
qed

lemma create_surface_for_ok:
  assumes s: "shell_ok s" and r: "r \<in> set (session_holders s)"
    and c: "create_surface_for env r params s = (x, s')" and x: "\<forall>w. x \<noteq> Undefined w"
  shows "shell_ok s'"
proof -
  obtain a where a: "session_at r s = Some a" by (rule holder_at [OF s r])
  have core: "shell_core s" using s by (simp add: shell_ok_def)
  then have own: "session_owns a (shell_stack s)" using a by (simp add: shell_core_def)
  obtain y a' b' where m: "session_create_surface env params (a, shell_base s) = (y, (a', b'))"
    by (metis prod_cases3)
  let ?t = "put_session r a' (s\<lparr>shell_base := b'\<rparr>)"
  have on: "on_session r (session_create_surface env params) s = (y, ?t)"
    using a m by (simp add: on_session_def)
  have y: "y \<noteq> Undefined w" for w
    using c x on by (auto simp: create_surface_for_def sbind_def)
  from session_create_surface_effect [OF own m this]
  have e: "session_effect (a, shell_stack s) (a', base_stack b')" by simp
  show ?thesis
  proof (cases "\<exists>i. y = Returns i")
    case True
    have "shell_core ?t" by (rule shell_core_session_call [OF core a e])
    moreover have "owned ?t = live ?t" "distinct (apps ?t)" using s by (simp_all add: shell_ok_def)
    moreover obtain z where "set_focus_to (Some r) ?t = (z, s')"
      using c on True by (auto simp: create_surface_for_def proc_simps split: prod.splits res.splits)
    ultimately show ?thesis by (rule shell_ok_focus(2))
  next
    case False
    then have "s' = ?t"
      using c on by (auto simp: create_surface_for_def sbind_def split: res.splits)
    moreover have "a' = a" "visibility (base_stack b') = visibility (shell_stack s)"
      using session_create_surface_fails [OF own m y] False by auto
    ultimately show ?thesis
      using shell_ok_session_call [OF s a e] by simp
  qed
qed

text \<open>Changes of the owners that leave the same sessions owned.\<close>

lemma shell_ok_cong:
  assumes "shell_ok s" and "live_sessions s' = live_sessions s" and "next_session s' = next_session s"
    and "shell_stack s' = shell_stack s" and "owned s' = owned s" and "distinct (apps s')"
    and "set (apps s') \<subseteq> set (apps s)" and "focus_application s' = focus_application s"
  shows "shell_ok s'"
  using assms shell_core_cong [of s' s]
  by (auto simp: shell_ok_def focus_shown_def session_at_def live_def)

lemma close_session_ok:
  assumes s: "shell_ok s" and r: "r \<in> set (session_holders s)" and c: "close_session r s = (x, s')"
  shows "shell_ok s'" and "session_holders s' = session_holders s"
    and "live_sessions s' = live_sessions s"
    and "x = (if r \<in> set (apps s) then Returns () else Throws (logic_error ''Invalid Session''))"
    and "r \<in> set (apps s) \<Longrightarrow> r \<notin> set (apps s') \<union> snd ` set (tags s')"
proof -
  have "shell_ok s' \<and> session_holders s' = session_holders s \<and> live_sessions s' = live_sessions s
    \<and> x = (if r \<in> set (apps s) then Returns () else Throws (logic_error ''Invalid Session''))
    \<and> (r \<in> set (apps s) \<longrightarrow> r \<notin> set (apps s') \<union> snd ` set (tags s'))"
  proof (cases "r \<in> set (apps s)")
    case False
    then show ?thesis using c s by (auto simp: close_session_def remove_session_def seq_def sbind_def)
  next
    case True
    let ?t = "s\<lparr>apps := remove1 r (apps s)\<rparr>"
    have ok: "shell_core s" "owned s = live s" "distinct (apps s)" using s by (simp_all add: shell_ok_def)
    have "shell_core ?t" using ok(1) shell_core_cong [of ?t s] by simp
    moreover have "owned ?t = live ?t" using ok(2,3) r by (auto simp: owned_def live_def)
    moreover have "distinct (apps ?t)" using ok(3) by simp
    moreover obtain y u where u: "set_focus_to (default_focus (apps ?t)) ?t = (y, u)" by fastforce
    ultimately have y: "y = Returns ()" and u_ok: "shell_ok u"
        and same: "same_sessions (?t\<lparr>focus_application := default_focus (apps ?t)\<rparr>) u"
      by (rule shell_ok_focus [of ?t "default_focus (apps ?t)" y u])+
    let ?v = "u\<lparr>tags := filter (\<lambda>v. snd v \<noteq> r) (tags u)\<rparr>"
    have s': "s' = ?v" "x = Returns ()"
      using c True u y by (auto simp: close_session_def remove_session_def proc_simps)
    have "r \<in> set (session_holders u)" using same r by (simp add: same_sessions_def)
    then have "owned ?v = owned u" by (auto simp: owned_def)
    then have "shell_ok ?v"
      using u_ok by (intro shell_ok_cong [OF u_ok]) (simp_all add: shell_ok_def)
    then show ?thesis using s' same True ok(3) by (auto simp: same_sessions_def)
  qed
  then show "shell_ok s'" "session_holders s' = session_holders s" "live_sessions s' = live_sessions s"
    "x = (if r \<in> set (apps s) then Returns () else Throws (logic_error ''Invalid Session''))"
    "r \<in> set (apps s) \<Longrightarrow> r \<notin> set (apps s') \<union> snd ` set (tags s')" by blast+
qed

lemma release_session_ok:
  assumes s: "shell_ok s" and r: "r \<in> set (session_holders s)" and c: "release_session r s = (x, s')"
    and x: "\<forall>w. x \<noteq> Undefined w"
  shows "shell_ok s'" and "x = Returns ()"
    and "live s' = live s - ({r} - (set (apps s) \<union> snd ` set (tags s) \<union> set (remove1 r (session_holders s))))"
    and "r' \<in> live s' \<Longrightarrow> session_at r' s' = session_at r' s"
proof -
  let ?t = "s\<lparr>session_holders := remove1 r (session_holders s)\<rparr>"
  have "collect_session r ?t = (x, s')"
    using c by (simp add: release_session_def proc_simps)
  moreover have "shell_core ?t" "focus_shown (focus_application s) (set (apps ?t)) ?t"
    using s shell_core_cong [of ?t s] by (simp_all add: shell_ok_def focus_shown_def session_at_def)
  ultimately have e: "x = Returns () \<and> shell_core s' \<and> focus_shown (focus_application s) (set (apps s')) s'
    \<and> apps s' = apps ?t \<and> tags s' = tags ?t \<and> session_holders s' = session_holders ?t
    \<and> focus_application s' = focus_application ?t \<and> live s' = live ?t - ({r} - owned ?t)
    \<and> (\<forall>r' \<in> live s'. session_at r' s' = session_at r' ?t)"
    using x by (intro collect_session_effect) auto
  have "set (session_holders s) \<subseteq> insert r (set (remove1 r (session_holders s)))"
    by (metis in_set_remove1 insert_iff subsetI)
  then have "owned ?t \<union> {r} = owned s \<union> {r}" "owned ?t \<subseteq> owned s"
    using set_remove1_subset [of r "session_holders s"] by (auto simp: owned_def)
  moreover have "owned s = live s" "live ?t = live s" "distinct (apps s)"
    using s by (simp_all add: shell_ok_def live_def)
  moreover have "owned s' = owned ?t" using e by (simp add: owned_def)
  moreover have "live s' = live ?t - ({r} - owned ?t)" using e by simp
  ultimately have "owned s' = live s'" by blast
  then show "shell_ok s'" "x = Returns ()"
      "live s' = live s - ({r} - (set (apps s) \<union> snd ` set (tags s) \<union> set (remove1 r (session_holders s))))"
    using e \<open>distinct (apps s)\<close> by (auto simp: shell_ok_def owned_def live_def)
  show "r' \<in> live s' \<Longrightarrow> session_at r' s' = session_at r' s"
    using e by (auto simp: session_at_def)
qed

text \<open>Erasing tags may take the last owner of several sessions away.\<close>

lemma for_each_collect:
  assumes "shell_core s" and "focus_shown f (set (apps s)) s" and "for_each collect_session rs s = (x, s')"
    and "\<forall>w. x \<noteq> Undefined w"
  shows "shell_core s' \<and> focus_shown f (set (apps s')) s' \<and> apps s' = apps s \<and> owned s' = owned s
    \<and> focus_application s' = focus_application s \<and> live s' = live s - (set rs - owned s)"
  using assms
proof (induction rs arbitrary: s)
  case Nil
  then show ?case by (simp add: ret_def)
next
  case (Cons r rs)
  obtain y t where y: "collect_session r s = (y, t)" by fastforce
  then have "y \<noteq> Undefined w" for w
    using Cons.prems(3,4) by (auto simp: seq_def sbind_def)
  from collect_session_effect [OF Cons.prems(1,2) y this]
  have t: "y = Returns () \<and> shell_core t \<and> focus_shown f (set (apps t)) t \<and> apps t = apps s
      \<and> owned t = owned s \<and> focus_application t = focus_application s \<and> live t = live s - ({r} - owned s)"
    by (auto simp: owned_def)
  have "for_each collect_session rs t = (x, s')"
    using Cons.prems(3) y t by (simp add: seq_def sbind_def)
  then show ?case
    using Cons.IH [of t] t Cons.prems(4) by auto
qed

lemma tag_session_ok:
  assumes s: "shell_ok s" and r: "r \<in> set (session_holders s)"
    and c: "tag_session_with_lightdm_id r i s = (x, s')" and x: "\<forall>w. x \<noteq> Undefined w"
  shows "shell_ok s'"
proof -
  let ?hit = "\<lambda>v. fst v = i \<or> snd v = r"
  let ?t = "s\<lparr>tags := filter (\<lambda>v. \<not> ?hit v) (tags s) @ [(i, r)]\<rparr>"
  let ?rs = "map snd (filter ?hit (tags s))"
  have "for_each collect_session ?rs ?t = (x, s')"
    using c by (simp add: tag_session_with_lightdm_id_def proc_simps)
  moreover have "shell_core ?t" "focus_shown (focus_application s) (set (apps ?t)) ?t"
    using s shell_core_cong [of ?t s] by (simp_all add: shell_ok_def focus_shown_def session_at_def)
  ultimately have e: "shell_core s' \<and> focus_shown (focus_application s) (set (apps s')) s' \<and> apps s' = apps ?t
      \<and> owned s' = owned ?t \<and> focus_application s' = focus_application ?t \<and> live s' = live ?t - (set ?rs - owned ?t)"
    using x by (intro for_each_collect) simp_all
  have "owned ?t \<union> set ?rs = owned s" using r by (auto simp: owned_def)
  moreover have "live ?t = live s" by (simp add: live_def)
  ultimately have "owned s' = live s'"
    using e s unfolding shell_ok_def by blast
  then show ?thesis using e s by (auto simp: shell_ok_def)
qed

lemma manager_shutdown_ok:
  assumes s: "shell_ok s" and c: "manager_shutdown s = (x, s')"
  shows "shell_ok s'"
proof -
  have "shell_ok s'" if "for_each (\<lambda>r. on_session r session_shutdown) rs s = (x, s')" "shell_ok s" for rs s
    using that
  proof (induction rs arbitrary: s)
    case Nil
    then show ?case by (simp add: ret_def)
  next
    case (Cons r rs)
    obtain y t where y: "on_session r session_shutdown s = (y, t)" by fastforce
    have t: "shell_ok t"
    proof (cases "session_at r s")
      case None
      then show ?thesis using y Cons.prems(2) by (simp add: on_session_def)
    next
      case (Some a)
      then have own: "session_owns a (shell_stack s)"
        using Cons.prems(2) by (simp add: shell_ok_def shell_core_def)
      show ?thesis
      proof (rule session_call_ok [OF Cons.prems(2) Some y])
        fix a' b'
        assume "session_shutdown (a, shell_base s) = (y, (a', b'))"
        from session_shutdown_effect [OF own this]
        show "session_effect (a, shell_stack s) (a', base_stack b') \<and> (\<forall>q \<in> set (session_refs a').
            q \<in> set (session_refs a) \<and> visibility (base_stack b') q = visibility (shell_stack s) q)"
          by simp
      qed
    qed
    have "(\<exists>u. y = Returns u \<and> for_each (\<lambda>r. on_session r session_shutdown) rs t = (x, s')) \<or> s' = t"
      using Cons.prems(1) y by (cases y) (auto simp: seq_def sbind_def)
    then show ?case using t Cons.IH [of t] by auto
  qed
  then show ?thesis
    using c s by (simp add: manager_shutdown_def for_each_session_def sbind_def gets_def)
qed

lemma focus_ok:
  assumes "shell_ok s" and "set_focus_to f s = (x, s')"
  shows "shell_ok s'"
  using assms by (intro shell_ok_focus(2) [of s f x s']) (simp_all add: shell_ok_def)

lemma focus_next_ok:
  assumes "shell_ok s" and "focus_next s = (x, s')"
  shows "shell_ok s'"
  using assms focus_ok
  by (auto simp: focus_next_def sbind_def gets_def split: option.splits res.splits)

lemma shell_do_ok:
  assumes s: "shell_ok s" and "may_call s c" and "shell_do env c s = (x, s')" and x: "\<forall>w. x \<noteq> Undefined w"
  shows "shell_ok s'"
proof -
  have own: "session_owns a (shell_stack s)" if "session_at r s = Some a" for r a
    using s that by (simp add: shell_ok_def shell_core_def)
  show ?thesis
  proof (cases c)
    case (Open_session name)
    with assms(3) obtain y where "open_session name s = (y, s')" by (auto elim: forget_cases)
    then show ?thesis by (rule open_session_ok(1) [OF s])
  next
    case (Create_surface_for r params)
    with assms(3) x obtain y where "create_surface_for env r params s = (y, s')" "\<forall>w. y \<noteq> Undefined w"
      by (auto elim!: forget_cases)
    then show ?thesis using Create_surface_for assms(2) by (intro create_surface_for_ok [OF s]) simp_all
  next
    case (Advance_client_buffer r i)
    then obtain a where a: "session_at r s = Some a" using assms(2) by (auto intro: holder_at [OF s])
    have "on_session r (session_advance_client_buffer i) s = (x, s')" using assms(3) Advance_client_buffer by simp
    then show ?thesis
      by (rule session_call_ok [OF s a]) (use session_advance_client_buffer_effect [OF own [OF a]] in fastforce)
  next
    case (Configure_surface r i attrib v)
    then obtain a where a: "session_at r s = Some a" using assms(2) by (auto intro: holder_at [OF s])
    from Configure_surface assms(3) obtain y where
      "on_session r (on_self (configure_surface i attrib v)) s = (y, s')" by (auto elim: forget_cases)
    then show ?thesis
    proof (rule session_call_ok [OF s a])
      fix a' b'
      assume "on_self (configure_surface i attrib v) (a, shell_base s) = (y, (a', b'))"
      then have "a' = snd (configure_surface i attrib v a)" "b' = shell_base s"
        by (auto simp: zoom_def split: prod.splits)
      then show "session_effect (a, shell_stack s) (a', base_stack b') \<and> (\<forall>q \<in> set (session_refs a').
          q \<in> set (session_refs a) \<and> visibility (base_stack b') q = visibility (shell_stack s) q)"
        using configure_surface_effect [OF own [OF a], of i attrib v] by simp
    qed
  next
    case (Destroy_surface r i)
    then obtain a where a: "session_at r s = Some a" using assms(2) by (auto intro: holder_at [OF s])
    have "on_session r (session_destroy_surface i) s = (x, s')" using assms(3) Destroy_surface by simp
    then show ?thesis
    proof (rule session_call_ok [OF s a])
      fix a' b'
      assume d: "session_destroy_surface i (a, shell_base s) = (x, (a', b'))"
      note e = session_destroy_surface_effect [OF own [OF a] d x [rule_format]]
      show "session_effect (a, shell_stack s) (a', base_stack b') \<and> (\<forall>q \<in> set (session_refs a').
          q \<in> set (session_refs a) \<and> visibility (base_stack b') q = visibility (shell_stack s) q)"
        using e by simp
    qed
  qed (use assms in \<open>auto intro: close_session_ok(1) [OF s] release_session_ok(1) [OF s] tag_session_ok [OF s]
      focus_next_ok [OF s] manager_shutdown_ok [OF s] focus_ok [OF s]
      simp: focus_session_with_lightdm_id_def sbind_def gets_def ret_def split: option.splits\<close>)
qed

text \<open>A schedule of calls, run while they are allowed and defined.\<close>

fun shell_run :: "'g shell_env \<Rightarrow> shell_call list \<Rightarrow> ('g, 'w) shell \<Rightarrow> ('g, 'w) shell option" where
  "shell_run env [] s = Some s"
| "shell_run env (c # cs) s =
     (if may_call s c then
        (case shell_do env c s of (Undefined w, s') \<Rightarrow> None | (_, s') \<Rightarrow> shell_run env cs s')
      else None)"

lemma shell_run_reachable: "shell_reachable env s \<Longrightarrow> shell_run env cs s = Some s' \<Longrightarrow> shell_reachable env s'"
proof (induction cs arbitrary: s)
  case Nil
  then show ?case by simp
next
  case (Cons c cs)
  obtain x t where t: "shell_do env c s = (x, t)" by fastforce
  with Cons.prems(2) have "may_call s c" "\<forall>w. x \<noteq> Undefined w" "shell_run env cs t = Some s'"
    by (auto split: if_splits res.splits)
  then show ?case
    using Cons.IH shell_reachable.call [OF Cons.prems(1) _ t] by blast
qed

definition sample_shell :: "(gbm_allocator, nat) shell" where
  "sample_shell = new_shell sample_base"

lemma sample_shell_reachable: "shell_reachable sample_view sample_shell"
  unfolding sample_shell_def
  by (rule shell_reachable.start) (simp_all add: sample_base_def sample_stack_def new_surface_stack_def refs_ok_def)

definition sample_calls :: "shell_call list" where
  "sample_calls = [Open_session ''a'', Open_session ''b'', Create_surface_for 0 sample_params, Focus_next]"

lemma sample_run:
  "map_option (\<lambda>s. (map (\<lambda>p. (fst p, is_hidden (snd p))) (surfaces (base_stack (shell_base s))), focus_application s, apps s,
      map (\<lambda>p. (fst p, session_refs (snd p))) (live_sessions s))) (shell_run sample_view sample_calls sample_shell)
   = Some ([(0, True)], Some 1, [0, 1], [(0, [0]), (1, [])])"
  by code_simp

section \<open>Properties\<close>

lemma reachable_ok: "shell_reachable env s \<Longrightarrow> shell_ok s"
  by (induction rule: shell_reachable.induct) (auto intro: shell_ok_new shell_do_ok)

lemma shell_ownership_parts:
  assumes "shell_reachable env s"
  shows "owned s = live s"
    and "surface_alive (shell_stack s) q \<longleftrightarrow> (\<exists>r a. session_at r s = Some a \<and> q \<in> set (session_refs a))"
    and "session_at r s = Some a \<Longrightarrow> session_at r' s = Some a' \<Longrightarrow> q \<in> set (session_refs a)
      \<Longrightarrow> q \<in> set (session_refs a') \<Longrightarrow> r = r'"
proof -
  have ok: "shell_ok s" using assms by (rule reachable_ok)
  then show "owned s = live s" by (simp add: shell_ok_def)
  have core: "shell_core s" using ok by (simp add: shell_ok_def)
  then show "surface_alive (shell_stack s) q \<longleftrightarrow> (\<exists>r a. session_at r s = Some a \<and> q \<in> set (session_refs a))"
    unfolding shell_core_def session_owns_def by blast
  assume "session_at r s = Some a" "session_at r' s = Some a'" "q \<in> set (session_refs a)" "q \<in> set (session_refs a')"
  then show "r = r'" using core unfolding shell_core_def by blast
qed

text \<open>C20: After any sequence of calls on the shell, successful or failed with an exception, the
  sessions that the container, the tags and the frontend refer to are exactly the session objects
  that exist: none of them has been destroyed and no session is left that nobody refers to.
  Every surface on the stack belongs to exactly one session, and every surface that a session
  lists is on the stack.\<close>

theorem shell_ownership:
  assumes "shell_reachable env s"
  shows "owned s = live s
    \<and> (\<forall>q. surface_alive (shell_stack s) q \<longleftrightarrow> (\<exists>r a. session_at r s = Some a \<and> q \<in> set (session_refs a)))
    \<and> (\<forall>q r a r' a'. session_at r s = Some a \<longrightarrow> session_at r' s = Some a' \<longrightarrow> q \<in> set (session_refs a)
          \<longrightarrow> q \<in> set (session_refs a') \<longrightarrow> r = r')"
  using shell_ownership_parts [OF assms] by (intro conjI allI impI)

theorem shell_ownership_witness:
  "\<exists>s. shell_run sample_view sample_calls sample_shell = Some s \<and> shell_reachable sample_view s
     \<and> live s = {0, 1} \<and> owned s = {0, 1} \<and> surface_alive (shell_stack s) 0
     \<and> (\<forall>r a r' a'. session_at r s = Some a \<longrightarrow> session_at r' s = Some a' \<longrightarrow> 0 \<in> set (session_refs a)
          \<longrightarrow> 0 \<in> set (session_refs a') \<longrightarrow> r = r')"
proof -
  obtain s where s: "shell_run sample_view sample_calls sample_shell = Some s"
      and l: "map (\<lambda>p. (fst p, session_refs (snd p))) (live_sessions s) = [(0, [0]), (1, [])]"
    using sample_run by (auto simp: map_option_case split: option.splits)
  have reach: "shell_reachable sample_view s"
    by (rule shell_run_reachable [OF sample_shell_reachable s])
  obtain a b where ab: "live_sessions s = [(0, a), (1, b)]" "session_refs a = [0]"
    using l by (auto simp: map_eq_Cons_conv)
  then have live: "live s = {0, 1}" and "session_at 0 s = Some a" by (auto simp: live_def session_at_def)
  with ab(2) have alive: "surface_alive (shell_stack s) 0"
    by (intro shell_ownership [OF reach, THEN conjunct2, THEN conjunct1, THEN spec, THEN iffD2] exI [of _ 0] exI [of _ a]) simp
  have owned: "owned s = {0, 1}" using shell_ownership [OF reach, THEN conjunct1] live by (rule trans)
  have "\<forall>r a r' a'. session_at r s = Some a \<longrightarrow> session_at r' s = Some a' \<longrightarrow> 0 \<in> set (session_refs a)
      \<longrightarrow> 0 \<in> set (session_refs a') \<longrightarrow> r = r'"
    using shell_ownership [OF reach, THEN conjunct2, THEN conjunct2] by (rule spec)
  with s reach live owned alive show ?thesis
    by (intro exI [of _ s] conjI)
qed

text \<open>C21: After any sequence of calls on the shell, of all the sessions in the container only the
  one with the focus has visible surfaces: a surface of a registered session is hidden if and only
  if its session is not the focused one.\<close>

theorem single_session_visible:
  assumes "shell_reachable env s" and "r \<in> set (apps s)" and "session_at r s = Some a"
    and "q \<in> set (session_refs a)"
  shows "\<exists>sf. lock_surface q (shell_stack s) = Some sf \<and> (is_hidden sf \<longleftrightarrow> focus_application s \<noteq> Some r)"
proof -
  have "visibility (shell_stack s) q = Some (focus_application s \<noteq> Some r)"
    using reachable_ok [OF assms(1)] assms(2-4) by (simp add: shell_ok_def focus_shown_def)
  then show ?thesis by (auto simp: visibility_def)
qed

theorem single_session_visible_witness:
  "\<exists>s a sf. shell_run sample_view sample_calls sample_shell = Some s \<and> 0 \<in> set (apps s)
     \<and> session_at 0 s = Some a \<and> 0 \<in> set (session_refs a) \<and> lock_surface 0 (shell_stack s) = Some sf
     \<and> is_hidden sf \<and> focus_application s = Some 1"
proof -
  obtain s where s: "shell_run sample_view sample_calls sample_shell = Some s"
      and l: "map (\<lambda>p. (fst p, session_refs (snd p))) (live_sessions s) = [(0, [0]), (1, [])]"
      and f: "focus_application s = Some 1" "apps s = [0, 1]"
    using sample_run by (auto simp: map_option_case split: option.splits)
  have reach: "shell_reachable sample_view s"
    by (rule shell_run_reachable [OF sample_shell_reachable s])
  obtain a where a: "session_at 0 s = Some a" "session_refs a = [0]"
    using l by (auto simp: map_eq_Cons_conv session_at_def)
  moreover obtain sf where "lock_surface 0 (shell_stack s) = Some sf" "is_hidden sf"
    using single_session_visible [OF reach _ a(1), of 0] a(2) f by auto
  moreover have "0 \<in> set (apps s)" "0 \<in> set (session_refs a)" using f(2) a(2) by simp_all
  ultimately show ?thesis
    using s f(1) by (intro exI [of _ s] exI [of _ a] exI [of _ sf] conjI)
qed

lemma close_and_release_frees_parts:
  fixes s s' :: "('a, 'b) shell"
  assumes "shell_reachable env s" and "r \<in> set (apps s)" and "session_holders s = hs @ r # hs'"
    and "r \<notin> set hs \<union> set hs'" and "session_at r s = Some a"
    and "seq (close_session r) (release_session r) s = (x, s')" and "\<forall>w. x \<noteq> Undefined w"
  shows "x = Returns ()" and "live s' = live s - {r}"
    and "surface_alive (shell_stack s') q \<longleftrightarrow> surface_alive (shell_stack s) q \<and> q \<notin> set (session_refs a)"
proof -
  have s: "shell_ok s" using assms(1) by (rule reachable_ok)
  have r: "r \<in> set (session_holders s)" using assms(3) by simp
  obtain y t where t: "close_session r s = (y, t)" by fastforce
  note close = close_session_ok [OF s r t]
  have y: "y = Returns ()" and not: "r \<notin> set (apps t) \<union> snd ` set (tags t)"
    using close(4,5) assms(2) by simp_all
  have rel: "release_session r t = (x, s')"
    using assms(6) t y by (simp add: seq_def sbind_def)
  have rt: "r \<in> set (session_holders t)" using r close(2) by simp
  note release = release_session_ok [OF close(1) rt rel assms(7)]
  show "x = Returns ()" by (rule release(2))
  have "r \<notin> set (remove1 r (session_holders t))"
    using assms(3,4) close(2) by (simp add: remove1_append)
  then show live: "live s' = live s - {r}"
    using release(3) not close(3) by (auto simp: live_def)
  show "surface_alive (shell_stack s') q \<longleftrightarrow> surface_alive (shell_stack s) q \<and> q \<notin> set (session_refs a)"
  proof -
    have core: "shell_core s" "shell_core s'" using s release(1) by (simp_all add: shell_ok_def)
    have cover: "surface_alive (shell_stack u) q \<longleftrightarrow> (\<exists>r c. session_at r u = Some c \<and> q \<in> set (session_refs c))"
      if "shell_core u" for u :: "('a, 'b) shell"
      using that unfolding shell_core_def session_owns_def by blast
    have at: "session_at r' s' = (if r' = r then None else session_at r' s)" for r'
    proof (cases "r' \<in> live s'")
      case True
      then have "r' \<noteq> r" using live by simp
      then show ?thesis
        using release(4) [OF True] close(3) by (simp add: session_at_def)
    next
      case False
      then have "session_at r' s' = None" by (simp add: live_iff)
      moreover have "session_at r' s = None" if "r' \<noteq> r"
      proof -
        have "r' \<notin> live s" using False live that by simp
        then show ?thesis by (simp add: live_iff)
      qed
      ultimately show ?thesis by simp
    qed
    have "q \<notin> set (session_refs a)" if "session_at r' s = Some c" "r' \<noteq> r" "q \<in> set (session_refs c)" for r' c
      using core(1) assms(5) that unfolding shell_core_def by blast
    then show ?thesis
      unfolding cover [OF core(1)] cover [OF core(2)] at using assms(5)
      by (metis option.distinct(1) option.inject)
  qed
qed

text \<open>C22: When the frontend closes a session and lets go of its last pointer to it, the session
  object is destroyed together with all of its surfaces, and no other session or surface is
  touched, unless the destructor of one of the surfaces is undefined.\<close>

theorem close_and_release_frees:
  fixes s s' :: "('a, 'b) shell"
  assumes "shell_reachable env s" and "r \<in> set (apps s)" and "session_holders s = hs @ r # hs'"
    and "r \<notin> set hs \<union> set hs'" and "session_at r s = Some a"
    and "seq (close_session r) (release_session r) s = (x, s')" and "\<forall>w. x \<noteq> Undefined w"
  shows "x = Returns () \<and> live s' = live s - {r}
    \<and> (\<forall>q. surface_alive (shell_stack s') q \<longleftrightarrow> surface_alive (shell_stack s) q \<and> q \<notin> set (session_refs a))"
  using close_and_release_frees_parts [OF assms] by (intro conjI allI)

definition sample_open :: "shell_call list" where
  "sample_open = [Open_session ''a'', Create_surface_for 0 sample_params]"

lemma sample_close:
  "map_option (\<lambda>s. (map fst (surfaces (base_stack (shell_base s))), apps s, session_holders s,
      map (\<lambda>p. (fst p, session_refs (snd p))) (live_sessions s),
      fst (seq (close_session 0) (release_session 0) s))) (shell_run sample_view sample_open sample_shell)
   = Some ([0], [0], [0], [(0, [0])], Returns ())"
  by code_simp

theorem close_and_release_frees_witness:
  "\<exists>s s'. shell_run sample_view sample_open sample_shell = Some s \<and> surface_alive (shell_stack s) 0
     \<and> seq (close_session 0) (release_session 0) s = (Returns (), s') \<and> live s = {0} \<and> live s' = {}
     \<and> \<not> surface_alive (shell_stack s') 0"
proof -
  obtain s where s: "shell_run sample_view sample_open sample_shell = Some s"
      and l: "map (\<lambda>p. (fst p, session_refs (snd p))) (live_sessions s) = [(0, [0])]"
      and f: "apps s = [0]" "session_holders s = [0]" "map fst (surfaces (shell_stack s)) = [0]"
      and x: "fst (seq (close_session 0) (release_session 0) s) = Returns ()"
    using sample_close by (auto simp: map_option_case split: option.splits)
  have reach: "shell_reachable sample_view s"
    by (rule shell_run_reachable [OF sample_shell_reachable s])
  obtain a where a: "session_at 0 s = Some a" "session_refs a = [0]" "live s = {0}"
    using l by (auto simp: map_eq_Cons_conv session_at_def live_def)
  obtain s' where s': "seq (close_session 0) (release_session 0) s = (Returns (), s')"
    using x by (metis prod.collapse)
  note free = close_and_release_frees [OF reach, of 0 "[]" "[]" a "Returns ()" s']
  have "live s' = {}" "\<not> surface_alive (shell_stack s') 0"
    using free f a s' by auto
  moreover have "surface_alive (shell_stack s) 0"
    using f(3) by (metis list.set_intros(1) list.set_map surface_alive_iff)
  ultimately show ?thesis
    using s s' a(3) by (intro exI [of _ s] exI [of _ s'] conjI)
qed

end
