(* ===== verification/Messages.thy ===== *)
theory Messages
  imports Std_Map
begin

text \<open>
  The messages of the client protocol (\<^verbatim>\<open>shared/protobuf/mir_protobuf.proto\<close> and
  \<^verbatim>\<open>mir_protobuf_wire.proto\<close>), as server and client exchange them, and the framing of messages on
  the socket that both sides use. Serialisation is generated code and stands as a parameter.
\<close>

section \<open>Messages\<close>

text \<open>Optional fields are options, repeated fields are lists; 32-bit integers of either sign are
  carried as \<^typ>\<open>int\<close>.\<close>

type_synonym bytes = "u8 list"

record connect_parameters =
  application_name :: string
  lightdm_id :: "int option"

record surface_parameters =
  sp_width :: int
  sp_height :: int
  sp_pixel_format :: int
  sp_buffer_usage :: int
  sp_surface_name :: string

record pb_buffer =
  pb_buffer_id :: "int option"
  pb_buffer_fd :: "int list"
  pb_buffer_data :: "int list"
  pb_buffer_side_fds :: "int option"
  pb_buffer_stride :: "int option"
  pb_buffer_error :: "string option"

record pb_platform =
  pb_platform_fd :: "int list"
  pb_platform_data :: "int list"
  pb_platform_side_fds :: "int option"
  pb_platform_error :: "string option"

record pb_display_info =
  pb_display_width :: int
  pb_display_height :: int
  pb_supported_pixel_format :: "int list"

record pb_connection =
  pb_platform_part :: "pb_platform option"
  pb_display_info_part :: "pb_display_info option"
  pb_connection_error :: "string option"

record pb_surface =
  pb_surface_id :: "int option"
  pb_surface_width :: "int option"
  pb_surface_height :: "int option"
  pb_surface_pixel_format :: "int option"
  pb_surface_buffer_usage :: "int option"
  pb_surface_buffer :: "pb_buffer option"
  pb_surface_fd :: "int list"
  pb_surface_side_fds :: "int option"
  pb_surface_error :: "string option"

record pb_magic_status =
  pb_status_code :: "int option"
  pb_magic_error :: "string option"

record pb_void =
  pb_void_error :: "string option"

record pb_setting =
  pb_setting_surface :: "int option"
  pb_setting_attrib :: "int option"
  pb_setting_ivalue :: "int option"
  pb_setting_error :: "string option"

definition empty_buffer :: pb_buffer where
  "empty_buffer = \<lparr>pb_buffer_id = None, pb_buffer_fd = [], pb_buffer_data = [], pb_buffer_side_fds = None,
     pb_buffer_stride = None, pb_buffer_error = None\<rparr>"

definition empty_platform :: pb_platform where
  "empty_platform = \<lparr>pb_platform_fd = [], pb_platform_data = [], pb_platform_side_fds = None, pb_platform_error = None\<rparr>"

definition empty_connection :: pb_connection where
  "empty_connection = \<lparr>pb_platform_part = None, pb_display_info_part = None, pb_connection_error = None\<rparr>"

definition empty_surface :: pb_surface where
  "empty_surface = \<lparr>pb_surface_id = None, pb_surface_width = None, pb_surface_height = None,
     pb_surface_pixel_format = None, pb_surface_buffer_usage = None, pb_surface_buffer = None, pb_surface_fd = [],
     pb_surface_side_fds = None, pb_surface_error = None\<rparr>"

definition empty_setting :: pb_setting where
  "empty_setting = \<lparr>pb_setting_surface = None, pb_setting_attrib = None, pb_setting_ivalue = None, pb_setting_error = None\<rparr>"

text \<open>The envelope.\<close>

record invocation =
  inv_id :: u32
  inv_method :: string
  inv_parameters :: bytes

record wire_result =
  result_id :: u32
  result_response :: "bytes option"

text \<open>
  The generated serialisation. Parsing never fails here: the callers ignore the failure and go on
  with what the parser left.
\<close>

datatype parameter_message =
    P_connect connect_parameters
  | P_surface surface_parameters
  | P_surface_id int
  | P_lightdm_id int
  | P_void
  | P_magic u32
  | P_setting pb_setting

datatype result_message =
    R_connection pb_connection
  | R_surface pb_surface
  | R_buffer pb_buffer
  | R_void pb_void
  | R_magic_status pb_magic_status
  | R_setting pb_setting

record wire_codec =
  parse_invocation :: "bytes \<Rightarrow> invocation"
  serialize_invocation :: "invocation \<Rightarrow> bytes"
  parse_connect_parameters :: "bytes \<Rightarrow> connect_parameters"
  parse_surface_parameters :: "bytes \<Rightarrow> surface_parameters"
  parse_surface_id :: "bytes \<Rightarrow> int"
  parse_lightdm_id :: "bytes \<Rightarrow> int"
  parse_magic :: "bytes \<Rightarrow> u32"
  parse_setting :: "bytes \<Rightarrow> pb_setting"
  serialize_parameters :: "parameter_message \<Rightarrow> bytes"
  parse_result :: "bytes \<Rightarrow> wire_result"
  serialize_result :: "wire_result \<Rightarrow> bytes"
  serialize_response :: "result_message \<Rightarrow> bytes"

text \<open>The methods of the service \<^verbatim>\<open>DisplayServer\<close> with the type of their response.\<close>

datatype response_type = T_connection | T_surface | T_buffer | T_void | T_magic_status | T_setting

fun type_of_result :: "result_message \<Rightarrow> response_type" where
  "type_of_result (R_connection _) = T_connection"
| "type_of_result (R_surface _) = T_surface"
| "type_of_result (R_buffer _) = T_buffer"
| "type_of_result (R_void _) = T_void"
| "type_of_result (R_magic_status _) = T_magic_status"
| "type_of_result (R_setting _) = T_setting"

definition service_methods :: "(string \<times> response_type) list" where
  "service_methods =
     [(''connect'', T_connection), (''disconnect'', T_void), (''create_surface'', T_surface), (''next_buffer'', T_buffer),
      (''release_surface'', T_void), (''select_focus_by_lightdm_id'', T_void), (''drm_auth_magic'', T_magic_status),
      (''test_file_descriptors'', T_buffer), (''configure_surface'', T_setting)]"

definition method_response :: "string \<Rightarrow> response_type option" where
  "method_response = map_of service_methods"

section \<open>Framing\<close>

text \<open>
  A frame is the size of the body in two bytes, high byte first, and the body
  (\<^verbatim>\<open>SocketSession::send\<close>, \<^verbatim>\<open>MirSocketRpcChannel::send_message\<close>).
\<close>

definition header_bytes :: "nat \<Rightarrow> bytes" where
  "header_bytes n = [word_of_nat (n div 256 mod 256), word_of_nat (n mod 256)]"

definition whole_message :: "bytes \<Rightarrow> bytes" where
  "whole_message body = header_bytes (length body) @ body"

text \<open>\<^verbatim>\<open>(message_header_bytes[0] << 8) + message_header_bytes[1]\<close>\<close>

definition body_size :: "u8 \<Rightarrow> u8 \<Rightarrow> nat" where
  "body_size h0 h1 = unat h0 * 256 + unat h1"

text \<open>The next body on the stream with what follows it; nothing while it is incomplete.\<close>

definition read_frame :: "bytes \<Rightarrow> (bytes \<times> bytes) option" where
  "read_frame input =
     (case input of
        h0 # h1 # rest \<Rightarrow>
          if body_size h0 h1 \<le> length rest then Some (take (body_size h0 h1) rest, drop (body_size h0 h1) rest)
          else None
      | _ \<Rightarrow> None)"

lemma read_frame_shorter: "read_frame input = Some (body, rest) \<Longrightarrow> length rest < length input"
  by (auto simp: read_frame_def split: list.splits if_splits)

function read_frames :: "bytes \<Rightarrow> bytes list \<times> bytes" where
  "read_frames input =
     (case read_frame input of
        None \<Rightarrow> ([], input)
      | Some (body, rest) \<Rightarrow> (case read_frames rest of (bodies, left) \<Rightarrow> (body # bodies, left)))"
  by pat_completeness auto
termination
  by (relation "measure length") (auto dest: read_frame_shorter)

declare read_frames.simps [simp del]

lemma body_size_header:
  "body_size (word_of_nat (n div 256 mod 256)) (word_of_nat (n mod 256)) = n mod 65536"
proof -
  have "unat (word_of_nat (n div 256 mod 256) :: u8) = n div 256 mod 256"
      "unat (word_of_nat (n mod 256) :: u8) = n mod 256"
    by (simp_all add: unat_of_nat)
  moreover have "n mod 65536 = n div 256 mod 256 * 256 + n mod 256"
    using mod_mult2_eq [of n 256 256] by simp
  ultimately show ?thesis by (simp add: body_size_def)
qed

lemma read_frame_whole_message:
  "read_frame (whole_message body @ rest) =
     Some (take (length body mod 65536) body, drop (length body mod 65536) body @ rest)"
proof -
  have "length body mod 65536 \<le> length body" by (rule mod_less_eq_dividend)
  then show ?thesis
    by (simp add: read_frame_def whole_message_def header_bytes_def body_size_header)
qed

section \<open>Properties\<close>

lemma framing_roundtrip_parts:
  assumes "\<forall>body \<in> set bodies. length body < 65536"
  shows "read_frames (concat (map whole_message bodies) @ tail) = (bodies @ fst (read_frames tail), snd (read_frames tail))"
    and "65536 \<le> length long \<Longrightarrow> \<exists>cut rest. long = cut @ rest \<and> length cut = length long mod 65536 \<and> rest \<noteq> []
      \<and> read_frame (whole_message long @ tail) = Some (cut, rest @ tail)"
proof -
  show "read_frames (concat (map whole_message bodies) @ tail) = (bodies @ fst (read_frames tail), snd (read_frames tail))"
    using assms
  proof (induction bodies)
    case Nil
    then show ?case by simp
  next
    case (Cons body bodies)
    then have "read_frame (whole_message body @ concat (map whole_message bodies) @ tail)
        = Some (body, concat (map whole_message bodies) @ tail)"
      by (simp add: read_frame_whole_message)
    then show ?case
      using Cons by (subst read_frames.simps) (simp add: case_prod_beta)
  qed
  assume "65536 \<le> length long"
  moreover have "length long mod 65536 < 65536" by simp
  ultimately have "length long mod 65536 < length long" by linarith
  then show "\<exists>cut rest. long = cut @ rest \<and> length cut = length long mod 65536 \<and> rest \<noteq> []
      \<and> read_frame (whole_message long @ tail) = Some (cut, rest @ tail)"
    by (intro exI [of _ "take (length long mod 65536) long"] exI [of _ "drop (length long mod 65536) long"])
      (simp add: read_frame_whole_message)
qed

text \<open>C29: What one side sends frame by frame the other side reads back body by body, however
  the stream is cut into packets, as long as every body is shorter than \<open>2 ^ 16\<close> bytes, and
  nothing is left over. A body of \<open>2 ^ 16\<close> bytes or more is cut at its length modulo \<open>2 ^ 16\<close> and the
  rest of it is taken for the next frame.\<close>

theorem framing_roundtrip:
  assumes "\<forall>body \<in> set bodies. length body < 65536"
  shows "read_frames (concat (map whole_message bodies) @ tail) = (bodies @ fst (read_frames tail), snd (read_frames tail))
    \<and> (\<forall>long. 65536 \<le> length long \<longrightarrow> (\<exists>cut rest. long = cut @ rest \<and> length cut = length long mod 65536 \<and> rest \<noteq> []
      \<and> read_frame (whole_message long @ tail) = Some (cut, rest @ tail)))"
  using framing_roundtrip_parts [OF assms] by (intro conjI allI impI)

theorem framing_roundtrip_witness:
  "list_all (\<lambda>body. length body < 65536) [[1, 2, 3], [], [4 :: u8]]
   \<and> read_frames (concat (map whole_message [[1, 2, 3], [], [4]]) @ [0]) = ([[1, 2, 3], [], [4]], [0])
   \<and> read_frame (whole_message (replicate 65536 0)) = Some ([], replicate 65536 0)"
proof -
  have "list_all (\<lambda>body. length body < 65536) [[1, 2, 3], [], [4 :: u8]]" by simp
  moreover have "read_frames [0] = ([], [0])"
    by (subst read_frames.simps) (simp add: read_frame_def)
  moreover have "read_frame (whole_message (replicate 65536 0) @ []) = Some ([], replicate 65536 0)"
    using framing_roundtrip [of "[]" "[]", THEN conjunct2, THEN spec, of "replicate 65536 0"] by auto
  ultimately show ?thesis
    using framing_roundtrip [of "[[1, 2, 3], [], [4]]" "[0]", THEN conjunct1] by simp
qed

end
