(* ===== verification/Session_Mediator.thy ===== *)
theory Session_Mediator
  imports Session_Invariants Messages
begin

text \<open>
  The frontend's handlers: \<^verbatim>\<open>mf::ResourceCache\<close> and \<^verbatim>\<open>mf::SessionMediator\<close>
  (\<^verbatim>\<open>frontend/session_mediator.cpp\<close>, \<^verbatim>\<open>frontend/session_mediator_gbm.cpp\<close>), which turn the requests of
  one client into calls on the shell. A handler fills in the response step by step, so that an
  exception leaves what has been filled in, and runs \<open>run_done\<close> (\<^verbatim>\<open>done->Run()\<close>) at its end.
\<close>

section \<open>The state of a connection\<close>

text \<open>A response is named by the address of the message, here a number.\<close>

type_synonym message_key = nat

datatype resource =
    Platform_package "int list" "int list"
  | Buffer_package ipc_package

text \<open>What has gone out on the socket of the connection, in order.\<close>

datatype sent_item = Sent bytes | Sent_fds "int list"

text \<open>
  \<open>platform_calls\<close> and \<open>write_calls\<close> count the calls of the graphics platform and of the socket so
  far: the answers of both are the environment's.
\<close>

record ('g, 'w) mediator =
  med_shell :: "('g, 'w) shell"
  med_session :: "session_ref option"
  med_resources :: "(message_key, resource) omap"
  platform_calls :: nat
  write_calls :: nat
  sent_items :: "sent_item list"

record 'g frontend_env =
  env_shell :: "'g shell_env"
  env_platform_package :: "nat \<Rightarrow> (int list \<times> int list) res"
  env_drm_auth_magic :: "nat \<Rightarrow> u32 \<Rightarrow> unit res"
  env_supported_formats :: "pixel_format list"
  env_socket_write :: "nat \<Rightarrow> exn option"
  env_diagnostic :: "exn \<Rightarrow> string"
  env_codec :: wire_codec

section \<open>The resource cache\<close>

definition save_resource :: "message_key \<Rightarrow> resource \<Rightarrow> (message_key, resource) omap \<Rightarrow> (message_key, resource) omap" where
  "save_resource key value resources = omap_set key value resources"

definition free_resource :: "message_key \<Rightarrow> (message_key, resource) omap \<Rightarrow> (message_key, resource) omap" where
  "free_resource key resources = omap_erase key resources"

interpretation resource_cache: keyed_store "[]" save_resource free_resource map_of omap_wf
  by unfold_locales (simp_all add: save_resource_def free_resource_def omap_wf_set omap_wf_erase)

section \<open>Calls from a handler\<close>

text \<open>A handler runs over the connection and the response it fills in.\<close>

type_synonym ('g, 'w, 'r) handler = "(('g, 'w) mediator \<times> 'r, unit) proc"

abbreviation on_mediator :: "(('g, 'w) mediator, 'a) proc \<Rightarrow> (('g, 'w) mediator \<times> 'r, 'a) proc" where
  "on_mediator \<equiv> zoom fst (\<lambda>m p. (m, snd p))"

definition respond :: "('r \<Rightarrow> 'r) \<Rightarrow> ('g, 'w, 'r) handler" where
  "respond f = modify (\<lambda>p. (fst p, f (snd p)))"

definition on_shell :: "(('g, 'w) shell, 'a) proc \<Rightarrow> (('g, 'w) mediator, 'a) proc" where
  "on_shell = zoom med_shell (\<lambda>s m. m\<lparr>med_shell := s\<rparr>)"

definition on_shell_stack :: "(('g, 'w) surface_stack, 'a) proc \<Rightarrow> (('g, 'w) mediator, 'a) proc" where
  "on_shell_stack m = on_shell (zoom shell_base (\<lambda>b s. s\<lparr>shell_base := b\<rparr>) (on_stack m))"

definition save :: "message_key \<Rightarrow> resource \<Rightarrow> (('g, 'w) mediator, unit) proc" where
  "save key value = modify (\<lambda>m. m\<lparr>med_resources := save_resource key value (med_resources m)\<rparr>)"

text \<open>\<^verbatim>\<open>if (session.get() == nullptr) throw\<close>\<close>

definition valid_session :: "(('g, 'w) mediator, session_ref) proc" where
  "valid_session m =
     (case med_session m of
        None \<Rightarrow> (Throws (logic_error ''Invalid application session''), m)
      | Some r \<Rightarrow> (Returns r, m))"

text \<open>\<^verbatim>\<open>session = ...\<close>: the pointer that was there before is let go.\<close>

definition assign_session :: "session_ref option \<Rightarrow> (('g, 'w) mediator, unit) proc" where
  "assign_session s =
     sbind (gets med_session) (\<lambda>old.
       seq (modify (\<lambda>m. m\<lparr>med_session := s\<rparr>))
           (case old of None \<Rightarrow> ret () | Some r \<Rightarrow> on_shell (release_session r)))"

definition get_platform_package :: "'g frontend_env \<Rightarrow> (('g, 'w) mediator, int list \<times> int list) proc" where
  "get_platform_package env m =
     (env_platform_package env (platform_calls m), m\<lparr>platform_calls := Suc (platform_calls m)\<rparr>)"

section \<open>The handlers\<close>

definition fill_connection :: "'g frontend_env \<Rightarrow> int list \<Rightarrow> int list \<Rightarrow> pb_connection \<Rightarrow> pb_connection" where
  "fill_connection env data fds response =
     (let platform = (case pb_platform_part response of None \<Rightarrow> empty_platform | Some p \<Rightarrow> p);
          info = (case pb_display_info_part response of
                    None \<Rightarrow> \<lparr>pb_display_width = 0, pb_display_height = 0, pb_supported_pixel_format = []\<rparr>
                  | Some i \<Rightarrow> i);
          area = rect_size (env_view_area (env_shell env))
      in response\<lparr>pb_platform_part := Some (platform\<lparr>pb_platform_data := pb_platform_data platform @ data,
                                                   pb_platform_fd := pb_platform_fd platform @ fds\<rparr>),
                  pb_display_info_part := Some (info\<lparr>pb_display_width := sint (width area),
                    pb_display_height := sint (height area),
                    pb_supported_pixel_format := pb_supported_pixel_format info @ map uint (env_supported_formats env)\<rparr>)\<rparr>)"

definition connect ::
  "'g frontend_env \<Rightarrow> message_key \<Rightarrow> connect_parameters \<Rightarrow> ('g, 'w, pb_connection) handler \<Rightarrow> ('g, 'w, pb_connection) handler" where
  "connect env response request run_done =
     sbind (on_mediator (on_shell (open_session (application_name request)))) (\<lambda>session.
       seq (on_mediator (assign_session (Some session)))
         (sbind (on_mediator (get_platform_package env)) (\<lambda>package.
           seq (respond (fill_connection env (fst package) (snd package)))
             (seq (on_mediator (save response (Platform_package (fst package) (snd package))))
               (seq (case lightdm_id request of
                       None \<Rightarrow> ret ()
                     | Some i \<Rightarrow> on_mediator (on_shell (tag_session_with_lightdm_id session i)))
                    run_done)))))"

text \<open>The part that \<^verbatim>\<open>create_surface\<close> and \<^verbatim>\<open>next_buffer\<close> share: make the next buffer the client's and
  take its id and package.\<close>

definition take_client_buffer :: "shell_surface \<Rightarrow> (('g, 'w) mediator, buffer_id \<times> ipc_package) proc" where
  "take_client_buffer surface =
     seq (on_shell_stack (shell_surface_advance_client_buffer surface))
       (sbind (on_shell_stack (shell_surface_client_buffer surface)) (\<lambda>buffer_resource.
         case buffer_resource of
           None \<Rightarrow> undef ''null buffer_resource''
         | Some t \<Rightarrow>
             sbind (lift_res (tmp_id t)) (\<lambda>i.
               sbind (lift_res (tmp_get_ipc_package t)) (\<lambda>package. ret (i, package)))))"

definition fill_buffer :: "buffer_id \<Rightarrow> ipc_package \<Rightarrow> pb_buffer \<Rightarrow> pb_buffer" where
  "fill_buffer i package b =
     b\<lparr>pb_buffer_id := Some (sint i), pb_buffer_data := pb_buffer_data b @ ipc_data package,
       pb_buffer_fd := pb_buffer_fd b @ ipc_fds package, pb_buffer_stride := Some (ipc_stride package)\<rparr>"

definition create_surface_params :: "surface_parameters \<Rightarrow> surface_creation_parameters" where
  "create_surface_params request =
     of_pixel_format (word_of_int (sp_pixel_format request))
       (of_buffer_usage (sp_buffer_usage request)
         (of_width_height (word_of_int (sp_width request)) (word_of_int (sp_height request))
           (of_name (sp_surface_name request) a_surface)))"

definition find_surface :: "session_ref \<Rightarrow> surface_id \<Rightarrow> (('g, 'w) mediator, shell_surface) proc" where
  "find_surface session i = on_shell (on_session session (\<lambda>p. (get_surface i (fst p), p)))"

definition create_surface_request ::
  "'g frontend_env \<Rightarrow> message_key \<Rightarrow> surface_parameters \<Rightarrow> ('g, 'w, pb_surface) handler \<Rightarrow> ('g, 'w, pb_surface) handler" where
  "create_surface_request env response request run_done =
     sbind (on_mediator valid_session) (\<lambda>session.
       sbind (on_mediator (on_shell (create_surface_for (env_shell env) session (create_surface_params request)))) (\<lambda>i.
         sbind (on_mediator (find_surface session i)) (\<lambda>surface.
           seq (respond (\<lambda>r. r\<lparr>pb_surface_id := Some i\<rparr>))
             (sbind (on_mediator (on_shell_stack (shell_surface_size surface))) (\<lambda>sz.
               seq (respond (\<lambda>r. r\<lparr>pb_surface_width := Some (sint (width sz)),
                                    pb_surface_height := Some (sint (height sz))\<rparr>))
                 (sbind (on_mediator (on_shell_stack (shell_surface_pixel_format surface))) (\<lambda>pf.
                   seq (respond (\<lambda>r. r\<lparr>pb_surface_pixel_format := Some (sint pf),
                                        pb_surface_buffer_usage := Some (sp_buffer_usage request)\<rparr>))
                     (seq (if supports_input surface
                           then sbind (lift_res (client_input_fd surface))
                                  (\<lambda>fd. respond (\<lambda>r. r\<lparr>pb_surface_fd := pb_surface_fd r @ [fd]\<rparr>))
                           else ret ())
                       (sbind (on_mediator (take_client_buffer surface)) (\<lambda>bp.
                         seq (respond (\<lambda>r. r\<lparr>pb_surface_buffer :=
                                Some (fill_buffer (fst bp) (snd bp)
                                  (case pb_surface_buffer r of None \<Rightarrow> empty_buffer | Some b \<Rightarrow> b))\<rparr>))
                           (seq (on_mediator (save response (Buffer_package (snd bp)))) run_done)))))))))))"

definition next_buffer ::
  "message_key \<Rightarrow> int \<Rightarrow> ('g, 'w, pb_buffer) handler \<Rightarrow> ('g, 'w, pb_buffer) handler" where
  "next_buffer response request run_done =
     sbind (on_mediator valid_session) (\<lambda>session.
       sbind (on_mediator (find_surface session request)) (\<lambda>surface.
         sbind (on_mediator (take_client_buffer surface)) (\<lambda>bp.
           seq (respond (fill_buffer (fst bp) (snd bp)))
             (seq (on_mediator (save response (Buffer_package (snd bp)))) run_done))))"

definition select_focus_by_lightdm_id :: "int \<Rightarrow> ('g, 'w, pb_void) handler \<Rightarrow> ('g, 'w, pb_void) handler" where
  "select_focus_by_lightdm_id request run_done =
     seq (on_mediator valid_session)
       (seq (on_mediator (on_shell (focus_session_with_lightdm_id request))) run_done)"

definition release_surface :: "int \<Rightarrow> ('g, 'w, pb_void) handler \<Rightarrow> ('g, 'w, pb_void) handler" where
  "release_surface request run_done =
     sbind (on_mediator valid_session) (\<lambda>session.
       seq (on_mediator (on_shell (on_session session (session_destroy_surface request)))) run_done)"

definition disconnect :: "('g, 'w, pb_void) handler \<Rightarrow> ('g, 'w, pb_void) handler" where
  "disconnect run_done =
     sbind (on_mediator valid_session) (\<lambda>session.
       seq (on_mediator (on_shell (close_session session)))
         (seq (on_mediator (assign_session None)) run_done))"

definition configure_surface_request :: "pb_setting \<Rightarrow> ('g, 'w, pb_setting) handler \<Rightarrow> ('g, 'w, pb_setting) handler" where
  "configure_surface_request request run_done =
     (let attrib = (case pb_setting_attrib request of None \<Rightarrow> 0 | Some a \<Rightarrow> a);
          i = (case pb_setting_surface request of None \<Rightarrow> 0 | Some i \<Rightarrow> i);
          v = (case pb_setting_ivalue request of None \<Rightarrow> 0 | Some v \<Rightarrow> v)
      in seq (respond (\<lambda>r. r\<lparr>pb_setting_surface := Some i, pb_setting_attrib := Some attrib\<rparr>))
           (sbind (on_mediator valid_session) (\<lambda>session.
             sbind (on_mediator (on_shell (on_session session (on_self (configure_surface i attrib v))))) (\<lambda>newvalue.
               seq (respond (\<lambda>r. r\<lparr>pb_setting_ivalue := Some newvalue\<rparr>)) run_done))))"

text \<open>An error number that the platform attached becomes the status; other exceptions go on.\<close>

definition drm_auth_magic ::
  "'g frontend_env \<Rightarrow> u32 \<Rightarrow> ('g, 'w, pb_magic_status) handler \<Rightarrow> ('g, 'w, pb_magic_status) handler" where
  "drm_auth_magic env request run_done =
     seq (on_mediator valid_session)
       (seq (try_catch
               (seq (on_mediator (\<lambda>m. (env_drm_auth_magic env (platform_calls m) request,
                                        m\<lparr>platform_calls := Suc (platform_calls m)\<rparr>)))
                    (respond (\<lambda>r. r\<lparr>pb_status_code := Some 0\<rparr>)))
               (\<lambda>e. case e of
                  errno_error w n \<Rightarrow> respond (\<lambda>r. r\<lparr>pb_status_code := Some n\<rparr>)
                | _ \<Rightarrow> throw e))
            run_done)"

end
