(* ===== verification/Message_Processor.thy ===== *)
theory Message_Processor
  imports Session_Mediator
begin

text \<open>
  From bytes to handlers and back: \<^verbatim>\<open>mfd::ProtobufMessageProcessor\<close>
  (\<^verbatim>\<open>frontend/protobuf_message_processor.cpp\<close>) parses an invocation, calls the handler of the session
  mediator and sends the response with its file descriptors.
\<close>

section \<open>Sending\<close>

text \<open>\<^verbatim>\<open>SocketSession::send\<close> and \<^verbatim>\<open>send_fds\<close>\<close>

definition send :: "'g frontend_env \<Rightarrow> bytes \<Rightarrow> (('g, 'w) mediator, unit) proc" where
  "send env body m =
     (let m' = m\<lparr>write_calls := Suc (write_calls m)\<rparr>
      in case env_socket_write env (write_calls m) of
           Some e \<Rightarrow> (Throws e, m')
         | None \<Rightarrow> (Returns (), m'\<lparr>sent_items := sent_items m @ [Sent (whole_message body)]\<rparr>))"

definition send_fds :: "int list \<Rightarrow> (('g, 'w) mediator, unit) proc" where
  "send_fds fd = (if 0 < length fd then modify (\<lambda>m. m\<lparr>sent_items := sent_items m @ [Sent_fds fd]\<rparr>) else ret ())"

definition free :: "message_key \<Rightarrow> (('g, 'w) mediator, unit) proc" where
  "free key = modify (\<lambda>m. m\<lparr>med_resources := free_resource key (med_resources m)\<rparr>)"

definition send_message :: "'g frontend_env \<Rightarrow> u32 \<Rightarrow> result_message \<Rightarrow> (('g, 'w) mediator, unit) proc" where
  "send_message env i response =
     send env (serialize_result (env_codec env)
       \<lparr>result_id = i, result_response = Some (serialize_response (env_codec env) response)\<rparr>)"

text \<open>\<^verbatim>\<open>extract_fds_from\<close>: the descriptors, and the message that announces them instead.\<close>

definition extract_buffer_fds :: "pb_buffer \<Rightarrow> int list \<times> pb_buffer" where
  "extract_buffer_fds b =
     (pb_buffer_fd b, b\<lparr>pb_buffer_fd := [], pb_buffer_side_fds := Some (int (length (pb_buffer_fd b)))\<rparr>)"

definition extract_platform_fds :: "pb_platform \<Rightarrow> int list \<times> pb_platform" where
  "extract_platform_fds p =
     (pb_platform_fd p, p\<lparr>pb_platform_fd := [], pb_platform_side_fds := Some (int (length (pb_platform_fd p)))\<rparr>)"

text \<open>The overloads of \<^verbatim>\<open>send_response\<close>: with \<open>extract\<close> those for messages that carry descriptors and
  have resources, without it the others.\<close>

definition send_with_fds ::
  "'g frontend_env \<Rightarrow> ('r \<Rightarrow> result_message) \<Rightarrow> ('r \<Rightarrow> int list \<times> 'r) \<Rightarrow> message_key \<Rightarrow> u32 \<Rightarrow> ('g, 'w, 'r) handler" where
  "send_with_fds env wrap extract key i =
     sbind (gets (\<lambda>p. extract (snd p))) (\<lambda>fr.
       seq (respond (\<lambda>_. snd fr))
         (seq (on_mediator (send_message env i (wrap (snd fr))))
           (seq (on_mediator (send_fds (fst fr))) (on_mediator (free key)))))"

definition send_buffer_response :: "'g frontend_env \<Rightarrow> message_key \<Rightarrow> u32 \<Rightarrow> ('g, 'w, pb_buffer) handler" where
  "send_buffer_response env = send_with_fds env R_buffer extract_buffer_fds"

definition send_platform_response ::
  "'g frontend_env \<Rightarrow> (pb_platform \<Rightarrow> result_message) \<Rightarrow> message_key \<Rightarrow> u32 \<Rightarrow> ('g, 'w, pb_platform) handler" where
  "send_platform_response env wrap = send_with_fds env wrap extract_platform_fds"

definition extract_connection_fds :: "pb_connection \<Rightarrow> int list \<times> pb_connection" where
  "extract_connection_fds c =
     (case pb_platform_part c of
        None \<Rightarrow> ([], c)
      | Some p \<Rightarrow> (case extract_platform_fds p of (fd, p') \<Rightarrow> (fd, c\<lparr>pb_platform_part := Some p'\<rparr>)))"

definition send_connection_response :: "'g frontend_env \<Rightarrow> message_key \<Rightarrow> u32 \<Rightarrow> ('g, 'w, pb_connection) handler" where
  "send_connection_response env = send_with_fds env R_connection extract_connection_fds"

definition extract_surface_fds :: "pb_surface \<Rightarrow> int list \<times> pb_surface" where
  "extract_surface_fds s =
     (case pb_surface_buffer s of
        None \<Rightarrow> ([], s)
      | Some b \<Rightarrow> (case extract_buffer_fds b of (fd, b') \<Rightarrow> (fd, s\<lparr>pb_surface_buffer := Some b'\<rparr>)))"

definition send_surface_response :: "'g frontend_env \<Rightarrow> message_key \<Rightarrow> u32 \<Rightarrow> ('g, 'w, pb_surface) handler" where
  "send_surface_response env = send_with_fds env R_surface extract_surface_fds"

definition send_plain :: "'g frontend_env \<Rightarrow> ('r \<Rightarrow> result_message) \<Rightarrow> u32 \<Rightarrow> ('g, 'w, 'r) handler" where
  "send_plain env wrap i = sbind (gets snd) (\<lambda>r. on_mediator (send_message env i (wrap r)))"

section \<open>Calling a handler\<close>

text \<open>An exception becomes the error of the response, on top of what the handler has filled in.\<close>

definition invoke ::
  "'g frontend_env \<Rightarrow> (string \<Rightarrow> 'r \<Rightarrow> 'r) \<Rightarrow> 'r \<Rightarrow> ('g, 'w, 'r) handler
   \<Rightarrow> (('g, 'w, 'r) handler \<Rightarrow> ('g, 'w, 'r) handler) \<Rightarrow> (('g, 'w) mediator, unit) proc" where
  "invoke env set_error fresh send_response function m =
     (case try_catch (function send_response)
             (\<lambda>x. seq (respond (set_error (env_diagnostic env x))) send_response) (m, fresh) of
        (x, p) \<Rightarrow> (x, fst p))"

text \<open>
  The \<^verbatim>\<open>if\<close>-\<^verbatim>\<open>else\<close> chain of \<^verbatim>\<open>dispatch\<close>. \<open>key\<close> is the address of the result message;
  \<open>test_file_descriptors\<close> is the handler that the generated service class has for the method of
  that name, which the session mediator does not override.
\<close>

definition call_method ::
  "'g frontend_env \<Rightarrow> (('g, 'w, pb_buffer) handler \<Rightarrow> ('g, 'w, pb_buffer) handler) \<Rightarrow> message_key \<Rightarrow> invocation
   \<Rightarrow> (('g, 'w) mediator, bool) proc" where
  "call_method env test_file_descriptors key call =
     (let codec = env_codec env; i = inv_id call; parameters = inv_parameters call; meth = inv_method call
      in if meth = ''connect'' then
           seq (invoke env (\<lambda>e r. r\<lparr>pb_connection_error := Some e\<rparr>) empty_connection (send_connection_response env key i)
                 (connect env key (parse_connect_parameters codec parameters))) (ret True)
         else if meth = ''create_surface'' then
           seq (invoke env (\<lambda>e r. r\<lparr>pb_surface_error := Some e\<rparr>) empty_surface (send_surface_response env key i)
                 (create_surface_request env key (parse_surface_parameters codec parameters))) (ret True)
         else if meth = ''next_buffer'' then
           seq (invoke env (\<lambda>e r. r\<lparr>pb_buffer_error := Some e\<rparr>) empty_buffer (send_buffer_response env key i)
                 (next_buffer key (parse_surface_id codec parameters))) (ret True)
         else if meth = ''release_surface'' then
           seq (invoke env (\<lambda>e r. r\<lparr>pb_void_error := Some e\<rparr>) \<lparr>pb_void_error = None\<rparr> (send_plain env R_void i)
                 (release_surface (parse_surface_id codec parameters))) (ret True)
         else if meth = ''test_file_descriptors'' then
           seq (invoke env (\<lambda>e r. r\<lparr>pb_buffer_error := Some e\<rparr>) empty_buffer (send_buffer_response env key i)
                 test_file_descriptors) (ret True)
         else if meth = ''drm_auth_magic'' then
           seq (invoke env (\<lambda>e r. r\<lparr>pb_magic_error := Some e\<rparr>) \<lparr>pb_status_code = None, pb_magic_error = None\<rparr>
                 (send_plain env R_magic_status i) (drm_auth_magic env (parse_magic codec parameters))) (ret True)
         else if meth = ''select_focus_by_lightdm_id'' then
           seq (invoke env (\<lambda>e r. r\<lparr>pb_void_error := Some e\<rparr>) \<lparr>pb_void_error = None\<rparr> (send_plain env R_void i)
                 (select_focus_by_lightdm_id (parse_lightdm_id codec parameters))) (ret True)
         else if meth = ''configure_surface'' then
           seq (invoke env (\<lambda>e r. r\<lparr>pb_setting_error := Some e\<rparr>) empty_setting (send_plain env R_setting i)
                 (configure_surface_request (parse_setting codec parameters))) (ret True)
         else if meth = ''disconnect'' then
           seq (invoke env (\<lambda>e r. r\<lparr>pb_void_error := Some e\<rparr>) \<lparr>pb_void_error = None\<rparr> (send_plain env R_void i)
                 disconnect) (ret False)
         else ret False)"

definition dispatch ::
  "'g frontend_env \<Rightarrow> (('g, 'w, pb_buffer) handler \<Rightarrow> ('g, 'w, pb_buffer) handler) \<Rightarrow> message_key \<Rightarrow> invocation
   \<Rightarrow> (('g, 'w) mediator, bool) proc" where
  "dispatch env test_file_descriptors key call =
     try_catch (call_method env test_file_descriptors key call) (\<lambda>_. ret False)"

definition process_message ::
  "'g frontend_env \<Rightarrow> (('g, 'w, pb_buffer) handler \<Rightarrow> ('g, 'w, pb_buffer) handler) \<Rightarrow> message_key \<Rightarrow> bytes
   \<Rightarrow> (('g, 'w) mediator, bool) proc" where
  "process_message env test_file_descriptors key msg =
     try_catch (dispatch env test_file_descriptors key (parse_invocation (env_codec env) msg)) (\<lambda>_. ret False)"

section \<open>Handlers send nothing before they are done\<close>

text \<open>Since \<open>m\<close> nothing has been sent and only resources with a key in \<open>K\<close> have changed.\<close>

definition quiet :: "message_key set \<Rightarrow> ('g, 'w) mediator \<Rightarrow> ('g, 'w) mediator \<Rightarrow> bool" where
  "quiet K m m' \<longleftrightarrow> sent_items m' = sent_items m \<and> write_calls m' = write_calls m
     \<and> (\<forall>k. k \<notin> K \<longrightarrow> map_of (med_resources m') k = map_of (med_resources m) k)"

lemma quiet_refl [simp]: "quiet K m m"
  by (simp add: quiet_def)

lemma quiet_on_shell [keeps]: "preserves (quiet K m) (on_shell f)"
  by (auto simp: preserves_def on_shell_def zoom_def quiet_def split: prod.splits)

lemma quiet_on_shell_stack [keeps]: "preserves (quiet K m) (on_shell_stack f)"
  unfolding on_shell_stack_def by (rule quiet_on_shell)

lemma quiet_on_mediator [keeps]:
  "preserves (quiet K m) f \<Longrightarrow> preserves (\<lambda>p. quiet K m (fst p)) (on_mediator f)"
  by (rule preserves_zoom [where Q = "quiet K m"]) simp_all

lemma quiet_respond [keeps]: "preserves (\<lambda>p. quiet K m (fst p)) (respond f)"
  by (simp add: respond_def preserves_def modify_def)

lemma quiet_save [keeps]: "key \<in> K \<Longrightarrow> preserves (quiet K m) (save key v)"
  by (auto simp: save_def save_resource_def preserves_def modify_def quiet_def)

lemma quiet_valid_session [keeps]: "preserves (quiet K m) valid_session"
  by (simp add: valid_session_def preserves_def split: option.splits)

lemma quiet_assign_session [keeps]: "preserves (quiet K m) (assign_session s)"
  unfolding assign_session_def
  by (intro keeps preserves_modify) (simp add: quiet_def)

lemma quiet_platform_package [keeps]: "preserves (quiet K m) (get_platform_package env)"
  by (simp add: get_platform_package_def preserves_def quiet_def)

lemma quiet_find_surface [keeps]: "preserves (quiet K m) (find_surface r i)"
  unfolding find_surface_def by (rule quiet_on_shell)

lemma quiet_take_client_buffer [keeps]: "preserves (quiet K m) (take_client_buffer sh)"
  unfolding take_client_buffer_def by (intro keeps)

text \<open>A handler that does its work in \<open>body\<close> and runs the closure last.\<close>

definition done_last :: "('s \<Rightarrow> bool) \<Rightarrow> (('s, unit) proc \<Rightarrow> ('s, unit) proc) \<Rightarrow> bool" where
  "done_last P h \<longleftrightarrow> (\<exists>body :: ('s, unit) proc. preserves P body \<and> (\<forall>d. h d = seq body d))"

named_theorems handler_rules \<open>introduction rules for \<^const>\<open>done_last\<close>\<close>

lemma done_last_base [handler_rules]: "done_last P (\<lambda>d. d)"
  unfolding done_last_def by (intro exI [of _ "ret ()"]) (simp add: preserves_ret)

lemma done_last_sbind [handler_rules]:
  fixes P :: "'s \<Rightarrow> bool"
  assumes "preserves P m" and "\<And>a. done_last P (h a)"
  shows "done_last P (\<lambda>d. sbind m (\<lambda>a. h a d))"
proof -
  have "\<forall>a. \<exists>body. preserves P body \<and> (\<forall>d. h a d = seq (body :: ('s, unit) proc) d)"
    using assms(2) by (simp add: done_last_def)
  from choice [OF this] obtain body where "\<forall>a. preserves P (body a) \<and> (\<forall>d. h a d = seq (body a :: ('s, unit) proc) d)" by blast
  then show ?thesis
    unfolding done_last_def using assms(1)
    by (intro exI [of _ "sbind m body"]) (auto simp: seq_def sbind_assoc intro: preserves_sbind)
qed

lemma done_last_seq [handler_rules]: "preserves P m \<Longrightarrow> done_last P h \<Longrightarrow> done_last P (\<lambda>d. seq m (h d))"
  unfolding seq_def [of m] by (rule done_last_sbind)

lemma handlers_done_last:
  "done_last (\<lambda>p. quiet {key} m (fst p)) (connect env key cp)"
  "done_last (\<lambda>p. quiet {key} m (fst p)) (create_surface_request env key sp)"
  "done_last (\<lambda>p. quiet {key} m (fst p)) (next_buffer key i)"
  "done_last (\<lambda>p. quiet {} m (fst p)) (release_surface i)"
  "done_last (\<lambda>p. quiet {} m (fst p)) (drm_auth_magic env magic)"
  "done_last (\<lambda>p. quiet {} m (fst p)) (select_focus_by_lightdm_id i)"
  "done_last (\<lambda>p. quiet {} m (fst p)) (configure_surface_request setting)"
  "done_last (\<lambda>p. quiet {} m (fst p)) disconnect"
proof -
  show "done_last (\<lambda>p. quiet {key} m (fst p)) (connect env key cp)"
    unfolding connect_def by (intro handler_rules keeps) simp_all
  show "done_last (\<lambda>p. quiet {key} m (fst p)) (create_surface_request env key sp)"
    unfolding create_surface_request_def by (intro handler_rules keeps) simp_all
  show "done_last (\<lambda>p. quiet {key} m (fst p)) (next_buffer key i)"
    unfolding next_buffer_def by (intro handler_rules keeps) simp_all
  show "done_last (\<lambda>p. quiet {} m (fst p)) (release_surface i)"
    unfolding release_surface_def by (intro handler_rules keeps)
  show "done_last (\<lambda>p. quiet {} m (fst p)) (drm_auth_magic env magic)"
    unfolding drm_auth_magic_def
    by (intro handler_rules keeps)
      (auto simp: preserves_def quiet_def respond_def modify_def throw_def zoom_def split: exn.splits)
  show "done_last (\<lambda>p. quiet {} m (fst p)) (select_focus_by_lightdm_id i)"
    unfolding select_focus_by_lightdm_id_def by (intro handler_rules keeps)
  show "done_last (\<lambda>p. quiet {} m (fst p)) (configure_surface_request setting)"
    unfolding configure_surface_request_def Let_def by (intro handler_rules keeps)
  show "done_last (\<lambda>p. quiet {} m (fst p)) disconnect"
    unfolding disconnect_def by (intro handler_rules keeps)
qed

section \<open>Replies\<close>

definition reply :: "'g frontend_env \<Rightarrow> u32 \<Rightarrow> result_message \<Rightarrow> sent_item" where
  "reply env i r = Sent (whole_message (serialize_result (env_codec env)
     \<lparr>result_id = i, result_response = Some (serialize_response (env_codec env) r)\<rparr>))"

definition with_fds :: "int list \<Rightarrow> sent_item list" where
  "with_fds fds = (if fds = [] then [] else [Sent_fds fds])"

text \<open>The number of descriptors that a message announces.\<close>

fun announced :: "result_message \<Rightarrow> int" where
  "announced (R_buffer b) = (case pb_buffer_side_fds b of None \<Rightarrow> 0 | Some n \<Rightarrow> n)"
| "announced (R_connection c) = (case pb_platform_part c of None \<Rightarrow> 0
     | Some p \<Rightarrow> (case pb_platform_side_fds p of None \<Rightarrow> 0 | Some n \<Rightarrow> n))"
| "announced (R_surface s) = (case pb_surface_buffer s of None \<Rightarrow> 0
     | Some b \<Rightarrow> (case pb_buffer_side_fds b of None \<Rightarrow> 0 | Some n \<Rightarrow> n))"
| "announced _ = 0"

definition announces :: "response_type \<Rightarrow> ('r \<Rightarrow> result_message) \<Rightarrow> ('r \<Rightarrow> int list \<times> 'r) \<Rightarrow> bool" where
  "announces t wrap extract \<longleftrightarrow> (\<forall>r. announced (wrap (snd (extract r))) = int (length (fst (extract r)))
     \<and> type_of_result (wrap (snd (extract r))) = t)"

definition announces_none :: "response_type \<Rightarrow> ('r \<Rightarrow> result_message) \<Rightarrow> bool" where
  "announces_none t wrap \<longleftrightarrow> (\<forall>r. announced (wrap r) = 0 \<and> type_of_result (wrap r) = t)"

lemma announces_extract:
  "announces T_connection R_connection extract_connection_fds" "announces T_surface R_surface extract_surface_fds"
  "announces T_buffer R_buffer extract_buffer_fds"
  by (simp_all add: announces_def extract_buffer_fds_def extract_connection_fds_def extract_platform_fds_def
      extract_surface_fds_def split: option.splits)

lemma announces_none:
  "announces_none T_void R_void" "announces_none T_magic_status R_magic_status" "announces_none T_setting R_setting"
  by (simp_all add: announces_none_def)

definition socket_ok :: "'g frontend_env \<Rightarrow> bool" where
  "socket_ok env \<longleftrightarrow> (\<forall>n. env_socket_write env n = None)"

lemma send_with_fds_eq:
  assumes "socket_ok env"
  shows "send_with_fds env wrap extract key i (m, r) =
    (Returns (), (m\<lparr>write_calls := Suc (write_calls m),
        sent_items := sent_items m @ reply env i (wrap (snd (extract r))) # with_fds (fst (extract r)),
        med_resources := free_resource key (med_resources m)\<rparr>, snd (extract r)))"
  using assms
  by (simp add: send_with_fds_def send_message_def send_def send_fds_def free_def respond_def proc_simps socket_ok_def
      reply_def with_fds_def Let_def)

lemma send_plain_eq:
  assumes "socket_ok env"
  shows "send_plain env wrap i (m, r) =
    (Returns (), (m\<lparr>write_calls := Suc (write_calls m), sent_items := sent_items m @ [reply env i (wrap r)]\<rparr>, r))"
  using assms by (simp add: send_plain_def send_message_def send_def proc_simps socket_ok_def reply_def Let_def)

text \<open>Whatever becomes of the handler's work, the response is sent exactly once.\<close>

lemma invoke_cases:
  assumes h: "done_last (\<lambda>p. quiet K m (fst p)) h" and run: "invoke env set_error fresh send_response h m = (x, m')"
    and send: "\<And>m r. \<exists>m' r'. send_response (m, r) = (Returns (), (m', r'))"
    and x: "x \<noteq> Blocks" "\<forall>w. x \<noteq> Undefined w"
  obtains m1 r where "quiet K m m1" and "x = Returns ()" and "m' = fst (snd (send_response (m1, r)))"
proof -
  obtain body :: "(_, unit) proc" where body: "preserves (\<lambda>p. quiet K m (fst p)) body" "\<And>d. h d = seq body d"
    using h unfolding done_last_def by blast
  obtain y m1 r where y: "body (m, fresh) = (y, (m1, r))" by (metis prod_cases3)
  have q: "quiet K m m1"
    using preserves_step [OF body(1) _ y] by simp
  obtain m2 r2 where s: "send_response (m1, r) = (Returns (), (m2, r2))" using send by blast
  show ?thesis
  proof (cases y)
    case (Returns u)
    then have "x = Returns ()" "m' = fst (snd (send_response (m1, r)))"
      using run y s by (simp_all add: invoke_def body(2) seq_def sbind_def try_catch_def)
    then show ?thesis by (rule that [OF q])
  next
    case (Throws e)
    let ?r = "set_error (env_diagnostic env e) r"
    obtain m3 r3 where "send_response (m1, ?r) = (Returns (), (m3, r3))" using send by blast
    then have "x = Returns ()" "m' = fst (snd (send_response (m1, ?r)))"
      using run y Throws
      by (simp_all add: invoke_def body(2) seq_def sbind_def try_catch_def respond_def modify_def)
    then show ?thesis by (rule that [OF q])
  qed (use run y x in \<open>auto simp: invoke_def body(2) seq_def sbind_def try_catch_def\<close>)
qed

definition replied :: "'g frontend_env \<Rightarrow> response_type \<Rightarrow> message_key \<Rightarrow> u32 \<Rightarrow> ('g, 'w) mediator \<Rightarrow> ('g, 'w) mediator \<Rightarrow> bool" where
  "replied env t key i m m' \<longleftrightarrow>
     (\<exists>r fds. sent_items m' = sent_items m @ reply env i r # with_fds fds \<and> announced r = int (length fds)
       \<and> type_of_result r = t)
     \<and> (map_of (med_resources m) key = None \<longrightarrow> map_of (med_resources m') = map_of (med_resources m))"

lemma invoke_with_fds_replied:
  assumes "announces t wrap extract" and "done_last (\<lambda>p. quiet {key} m (fst p)) h" and "socket_ok env"
    and "invoke env set_error fresh (send_with_fds env wrap extract key i) h m = (x, m')"
    and "x \<noteq> Blocks" "\<forall>w. x \<noteq> Undefined w"
  shows "x = Returns () \<and> replied env t key i m m'"
proof (rule invoke_cases [OF assms(2,4) _ assms(5,6)])
  fix m1 r
  assume q: "quiet {key} m m1" and "x = Returns ()"
    and "m' = fst (snd (send_with_fds env wrap extract key i (m1, r)))"
  then show "x = Returns () \<and> replied env t key i m m'"
    using q assms(1)
    by (auto simp: announces_def send_with_fds_eq [OF assms(3)] replied_def quiet_def free_resource_def fun_eq_iff)
next
  show "\<exists>m' r'. send_with_fds env wrap extract key i (m, r) = (Returns (), m', r')" for m r
    by (simp add: send_with_fds_eq [OF assms(3)])
qed

lemma invoke_plain_replied:
  assumes "announces_none t wrap" and "done_last (\<lambda>p. quiet {} m (fst p)) h" and "socket_ok env"
    and "invoke env set_error fresh (send_plain env wrap i) h m = (x, m')"
    and "x \<noteq> Blocks" "\<forall>w. x \<noteq> Undefined w"
  shows "x = Returns () \<and> replied env t key i m m'"
proof (rule invoke_cases [OF assms(2,4) _ assms(5,6)])
  fix m1 r
  assume q: "quiet {} m m1" and "x = Returns ()" and "m' = fst (snd (send_plain env wrap i (m1, r)))"
  then have "sent_items m' = sent_items m @ reply env i (wrap r) # with_fds []" "med_resources m' = med_resources m1"
    using q by (simp_all add: send_plain_eq [OF assms(3)] quiet_def with_fds_def)
  moreover have "announced (wrap r) = int (length [])" "type_of_result (wrap r) = t" using assms(1) by (simp_all add: announces_none_def)
  ultimately show "x = Returns () \<and> replied env t key i m m'"
    using q \<open>x = Returns ()\<close> unfolding replied_def quiet_def by (metis ext empty_iff)
next
  show "\<exists>m' r'. send_plain env wrap i (m, r) = (Returns (), m', r')" for m r
    by (simp add: send_plain_eq [OF assms(3)])
qed

definition known_methods :: "string list" where
  "known_methods = [''connect'', ''create_surface'', ''next_buffer'', ''release_surface'', ''drm_auth_magic'',
     ''select_focus_by_lightdm_id'', ''configure_surface'', ''disconnect'']"

lemma seq_ret_cases:
  assumes "seq f (ret b) m = (x, m')" and "x \<noteq> Blocks" "\<forall>w. x \<noteq> Undefined w"
  obtains y where "f m = (y, m')" and "y \<noteq> Blocks" and "\<forall>w. y \<noteq> Undefined w" and "\<And>a. y = Returns a \<Longrightarrow> x = Returns b"
  using assms by (cases "fst (f m)") (auto simp: seq_def sbind_def ret_def split: prod.splits)

lemma method_with_fds:
  assumes "announces t wrap extract"
    and "done_last (\<lambda>p. quiet {key} m (fst p)) h" and "socket_ok env"
    and "seq (invoke env set_error fresh (send_with_fds env wrap extract key i) h) (ret b) m = (x, m')"
    and "x \<noteq> Blocks" "\<forall>w. x \<noteq> Undefined w"
  shows "x = Returns b \<and> replied env t key i m m'"
  by (rule seq_ret_cases [OF assms(4-6)]) (use invoke_with_fds_replied [OF assms(1-3)] in blast)

lemma method_plain:
  assumes "announces_none t wrap" and "done_last (\<lambda>p. quiet {} m (fst p)) h" and "socket_ok env"
    and "seq (invoke env set_error fresh (send_plain env wrap i) h) (ret b) m = (x, m')"
    and "x \<noteq> Blocks" "\<forall>w. x \<noteq> Undefined w"
  shows "x = Returns b \<and> replied env t key i m m'"
  by (rule seq_ret_cases [OF assms(4-6)]) (use invoke_plain_replied [OF assms(1-3)] in blast)

lemma call_method_replied:
  assumes ok: "socket_ok env" and run: "call_method env tfd key call m = (x, m')"
    and known: "inv_method call \<in> set known_methods" and x: "x \<noteq> Blocks" "\<forall>w. x \<noteq> Undefined w"
  shows "x = Returns (inv_method call \<noteq> ''disconnect'')
    \<and> (\<exists>t. method_response (inv_method call) = Some t \<and> replied env t key (inv_id call) m m')"
proof -
  note fds = method_with_fds [OF _ _ ok _ x] and plain = method_plain [OF _ _ ok _ x]
  note methods = call_method_def Let_def send_connection_response_def send_surface_response_def send_buffer_response_def
  from known consider "inv_method call = ''connect''" | "inv_method call = ''create_surface''"
    | "inv_method call = ''next_buffer''" | "inv_method call = ''release_surface''"
    | "inv_method call = ''drm_auth_magic''" | "inv_method call = ''select_focus_by_lightdm_id''"
    | "inv_method call = ''configure_surface''" | "inv_method call = ''disconnect''"
    by (auto simp: known_methods_def)
  then show ?thesis
  proof cases
    case 1
    then show ?thesis using fds [OF announces_extract(1) handlers_done_last(1)] run by (simp add: methods method_response_def service_methods_def)
  next
    case 2
    then show ?thesis using fds [OF announces_extract(2) handlers_done_last(2)] run by (simp add: methods method_response_def service_methods_def)
  next
    case 3
    then show ?thesis using fds [OF announces_extract(3) handlers_done_last(3)] run by (simp add: methods method_response_def service_methods_def)
  next
    case 4
    then show ?thesis using plain [OF announces_none(1) handlers_done_last(4)] run by (simp add: methods method_response_def service_methods_def)
  next
    case 5
    then show ?thesis using plain [OF announces_none(2) handlers_done_last(5)] run by (simp add: methods method_response_def service_methods_def)
  next
    case 6
    then show ?thesis using plain [OF announces_none(1) handlers_done_last(6)] run by (simp add: methods method_response_def service_methods_def)
  next
    case 7
    then show ?thesis using plain [OF announces_none(3) handlers_done_last(7)] run by (simp add: methods method_response_def service_methods_def)
  next
    case 8
    then show ?thesis using plain [OF announces_none(1) handlers_done_last(8)] run by (simp add: methods method_response_def service_methods_def)
  qed
qed

lemma call_method_unknown:
  assumes "inv_method call \<notin> insert ''test_file_descriptors'' (set known_methods)"
  shows "call_method env tfd key call = ret False"
  using assms by (simp add: call_method_def known_methods_def Let_def)

section \<open>Properties\<close>

lemma one_reply_per_invocation_parts:
  assumes "socket_ok env" and "call = parse_invocation (env_codec env) msg"
    and "process_message env tfd key msg m = (x, m')"
    and "x \<noteq> Blocks" and "\<forall>w. x \<noteq> Undefined w" and "map_of (med_resources m) key = None"
  shows "inv_method call \<in> set known_methods \<Longrightarrow>
      x = Returns (inv_method call \<noteq> ''disconnect'')
      \<and> (\<exists>r fds. sent_items m' = sent_items m @ reply env (inv_id call) r # with_fds fds \<and> announced r = int (length fds)
        \<and> method_response (inv_method call) = Some (type_of_result r))
      \<and> map_of (med_resources m') = map_of (med_resources m)"
    and "inv_method call \<notin> insert ''test_file_descriptors'' (set known_methods) \<Longrightarrow> x = Returns False \<and> m' = m"
proof -
  obtain y m1 where y: "call_method env tfd key call m = (y, m1)" by fastforce
  show "x = Returns (inv_method call \<noteq> ''disconnect'')
      \<and> (\<exists>r fds. sent_items m' = sent_items m @ reply env (inv_id call) r # with_fds fds \<and> announced r = int (length fds)
        \<and> method_response (inv_method call) = Some (type_of_result r))
      \<and> map_of (med_resources m') = map_of (med_resources m)" if known: "inv_method call \<in> set known_methods"
  proof -
    have "y \<noteq> Blocks" "\<forall>w. y \<noteq> Undefined w"
      using assms(2-5) y by (auto simp: process_message_def dispatch_def try_catch_def)
    from call_method_replied [OF assms(1) y known this]
    have "y = Returns (inv_method call \<noteq> ''disconnect'')"
        "\<exists>t. method_response (inv_method call) = Some t \<and> replied env t key (inv_id call) m m1" by simp_all
    moreover from this have "x = y" "m' = m1"
      using assms(2,3) y by (simp_all add: process_message_def dispatch_def try_catch_def)
    ultimately show ?thesis using assms(6) by (auto simp: replied_def)
  qed
  show "x = Returns False \<and> m' = m" if "inv_method call \<notin> insert ''test_file_descriptors'' (set known_methods)"
    using assms(2,3) call_method_unknown [OF that, of env tfd key]
    by (simp add: process_message_def dispatch_def try_catch_def ret_def)
qed

text \<open>C26: Every invocation of a method that the session mediator implements, with good or bad
  arguments, is answered exactly once while the socket works: the answer has the id of the
  invocation and the type that the service declares for the method, and is followed by exactly the
  file descriptors that it announces; the resources kept
  for the answer are gone afterwards and those of other calls in progress are untouched; the
  connection goes on unless the method was \<^verbatim>\<open>disconnect\<close>. An unknown method is not answered at
  all and ends the connection.\<close>

theorem one_reply_per_invocation:
  assumes "socket_ok env" and "call = parse_invocation (env_codec env) msg"
    and "process_message env tfd key msg m = (x, m')"
    and "x \<noteq> Blocks" and "\<forall>w. x \<noteq> Undefined w" and "map_of (med_resources m) key = None"
  shows "(inv_method call \<in> set known_methods \<longrightarrow>
        x = Returns (inv_method call \<noteq> ''disconnect'')
        \<and> (\<exists>r fds. sent_items m' = sent_items m @ reply env (inv_id call) r # with_fds fds \<and> announced r = int (length fds)
          \<and> method_response (inv_method call) = Some (type_of_result r))
        \<and> map_of (med_resources m') = map_of (med_resources m))
    \<and> (inv_method call \<notin> insert ''test_file_descriptors'' (set known_methods) \<longrightarrow> x = Returns False \<and> m' = m)"
  using one_reply_per_invocation_parts [OF assms] by iprover

definition sample_codec :: wire_codec where
  "sample_codec = \<lparr>
     parse_invocation = (\<lambda>b. \<lparr>inv_id = 7, inv_method = (if b = [1] then ''connect'' else if b = [2] then ''create_surface''
        else if b = [3] then ''disconnect'' else ''bad''), inv_parameters = []\<rparr>),
     serialize_invocation = (\<lambda>_. []),
     parse_connect_parameters = (\<lambda>_. \<lparr>application_name = ''a'', lightdm_id = Some 5\<rparr>),
     parse_surface_parameters = (\<lambda>_. \<lparr>sp_width = 640, sp_height = 480, sp_pixel_format = 1, sp_buffer_usage = 1,
       sp_surface_name = ''s''\<rparr>),
     parse_surface_id = (\<lambda>_. 0), parse_lightdm_id = (\<lambda>_. 5), parse_magic = (\<lambda>_. 0), parse_setting = (\<lambda>_. empty_setting),
     serialize_parameters = (\<lambda>_. []), parse_result = (\<lambda>_. \<lparr>result_id = 0, result_response = None\<rparr>),
     serialize_result = (\<lambda>r. [ucast (result_id r)]), serialize_response = (\<lambda>_. [])\<rparr>"

definition sample_frontend :: "gbm_allocator frontend_env" where
  "sample_frontend = \<lparr>env_shell = sample_view, env_platform_package = (\<lambda>n. Returns ([], [3])),
     env_drm_auth_magic = (\<lambda>n magic. Returns ()), env_supported_formats = gbm_supported_pixel_formats,
     env_socket_write = (\<lambda>n. None), env_diagnostic = (\<lambda>e. ''error''), env_codec = sample_codec\<rparr>"

definition new_mediator :: "('g, 'w) shell \<Rightarrow> ('g, 'w) mediator" where
  "new_mediator s = \<lparr>med_shell = s, med_session = None, med_resources = [], platform_calls = 0, write_calls = 0,
     sent_items = []\<rparr>"

lemma sample_connect:
  "fst (process_message sample_frontend (\<lambda>d. d) 0 [1] (new_mediator sample_shell)) = Returns True"
  by code_simp

theorem one_reply_per_invocation_witness:
  "\<exists>m' r fds. socket_ok sample_frontend
     \<and> process_message sample_frontend (\<lambda>d. d) 0 [1] (new_mediator sample_shell) = (Returns True, m')
     \<and> sent_items m' = reply sample_frontend 7 r # with_fds fds \<and> announced r = int (length fds)
     \<and> map_of (med_resources m') = Map.empty
     \<and> process_message sample_frontend (\<lambda>d. d) 0 [9] (new_mediator sample_shell) = (Returns False, new_mediator sample_shell)"
proof -
  let ?m = "new_mediator sample_shell"
  have ok: "socket_ok sample_frontend" by (simp add: socket_ok_def sample_frontend_def)
  have meth: "inv_method (parse_invocation (env_codec sample_frontend) [1]) = ''connect''"
      "inv_id (parse_invocation (env_codec sample_frontend) [1]) = 7"
      "inv_method (parse_invocation (env_codec sample_frontend) [9]) = ''bad''"
    by (simp_all add: sample_frontend_def sample_codec_def)
  have start: "map_of (med_resources ?m) 0 = None" "sent_items ?m = []" "map_of (med_resources ?m) = Map.empty"
    by (simp_all add: new_mediator_def)
  obtain m' where m': "process_message sample_frontend (\<lambda>d. d) 0 [1] ?m = (Returns True, m')"
    using sample_connect by (metis prod.collapse)
  have "inv_method (parse_invocation (env_codec sample_frontend) [1]) \<in> set known_methods"
    by (simp add: meth known_methods_def)
  from one_reply_per_invocation [THEN conjunct1, THEN mp, OF ok refl m' _ _ start(1) this]
  obtain r fds where r: "sent_items m' = reply sample_frontend 7 r # with_fds fds" "announced r = int (length fds)"
      "map_of (med_resources m') = Map.empty"
    by (auto simp: meth start)
  obtain y m2 where y: "process_message sample_frontend (\<lambda>d. d) 0 [9] ?m = (y, m2)" by fastforce
  have "call_method sample_frontend (\<lambda>d. d) 0 (parse_invocation (env_codec sample_frontend) [9]) ?m = (Returns False, ?m)"
    by (simp add: call_method_unknown meth known_methods_def ret_def)
  then have yF: "y = Returns False"
    using y by (simp add: process_message_def dispatch_def try_catch_def)
  then have defined: "y \<noteq> Blocks" "\<forall>w. y \<noteq> Undefined w" by simp_all
  have "inv_method (parse_invocation (env_codec sample_frontend) [9]) \<notin> insert ''test_file_descriptors'' (set known_methods)"
    by (simp add: meth known_methods_def)
  from one_reply_per_invocation [THEN conjunct2, THEN mp, OF ok refl y defined start(1) this]
  have "m2 = ?m" by (rule conjunct2)
  with y yF have "process_message sample_frontend (\<lambda>d. d) 0 [9] ?m = (Returns False, ?m)" by (simp only:)
  with ok m' r show ?thesis
    by (intro exI [of _ m'] exI [of _ r] exI [of _ fds] conjI)
qed

end
