(* ===== verification/Server.thy ===== *)
theory Server
  imports Message_Processor
begin

text \<open>
  The connections of the server: \<^verbatim>\<open>mfd::ConnectedSessions\<close> (\<^verbatim>\<open>frontend/connected_sessions.h\<close>), the
  reading side of \<^verbatim>\<open>mfd::SocketSession\<close> (\<^verbatim>\<open>frontend/socket_session.cpp\<close>) and
  \<^verbatim>\<open>mf::ProtobufSocketCommunicator\<close> (\<^verbatim>\<open>frontend/protobuf_socket_communicator.cpp\<close>). Handlers of
  different connections run one after the other.
\<close>

section \<open>Connections\<close>

text \<open>\<open>conn_reading\<close>: an asynchronous read has been started for the connection and has not ended in an error.\<close>

record connection =
  conn_session :: "session_ref option"
  conn_reading :: bool
  conn_input :: bytes
  conn_writes :: nat
  conn_sent :: "sent_item list"

definition new_connection :: connection where
  "new_connection = \<lparr>conn_session = None, conn_reading = True, conn_input = [], conn_writes = 0, conn_sent = []\<rparr>"

text \<open>\<open>accepting\<close> is the id of the socket session that waits for the next client.\<close>

record ('g, 'w) server =
  srv_shell :: "('g, 'w) shell"
  srv_resources :: "(message_key, resource) omap"
  srv_platform_calls :: nat
  shell_list :: "(int, connection) omap"
  next_session_id :: int
  accepting :: int

definition connected_add :: "int \<Rightarrow> connection \<Rightarrow> (int, connection) omap \<Rightarrow> (int, connection) omap" where
  "connected_add i c m = omap_set i c m"

definition connected_remove :: "int \<Rightarrow> (int, connection) omap \<Rightarrow> (int, connection) omap" where
  "connected_remove i m = omap_erase i m"

definition connected_includes :: "int \<Rightarrow> (int, connection) omap \<Rightarrow> bool" where
  "connected_includes i m \<longleftrightarrow> map_of m i \<noteq> None"

interpretation connected: keyed_store "[]" connected_add connected_remove map_of omap_wf
  by unfold_locales (simp_all add: connected_add_def connected_remove_def omap_wf_set omap_wf_erase)

text \<open>The mediator of a connection is a view of the server.\<close>

definition mediator_of :: "connection \<Rightarrow> ('g, 'w) server \<Rightarrow> ('g, 'w) mediator" where
  "mediator_of c s = \<lparr>med_shell = srv_shell s, med_session = conn_session c, med_resources = srv_resources s,
     platform_calls = srv_platform_calls s, write_calls = conn_writes c, sent_items = conn_sent c\<rparr>"

definition put_mediator :: "int \<Rightarrow> bytes \<Rightarrow> ('g, 'w) mediator \<Rightarrow> ('g, 'w) server \<Rightarrow> ('g, 'w) server" where
  "put_mediator i input m s =
     s\<lparr>srv_shell := med_shell m, srv_resources := med_resources m, srv_platform_calls := platform_calls m,
       shell_list := omap_set i \<lparr>conn_session = med_session m, conn_reading = True, conn_input = input,
                                 conn_writes = write_calls m, conn_sent = sent_items m\<rparr> (shell_list s)\<rparr>"

definition on_server_shell :: "(('g, 'w) shell, 'a) proc \<Rightarrow> (('g, 'w) server, 'a) proc" where
  "on_server_shell = zoom srv_shell (\<lambda>t s. s\<lparr>srv_shell := t\<rparr>)"

text \<open>\<^verbatim>\<open>connected_sessions->remove(id())\<close>: the socket session goes with its message processor, its mediator
  and the pointer to the session that the mediator has.\<close>

definition remove_connection :: "int \<Rightarrow> (('g, 'w) server, unit) proc" where
  "remove_connection i =
     sbind (gets (\<lambda>s. map_of (shell_list s) i)) (\<lambda>found.
       seq (modify (\<lambda>s. s\<lparr>shell_list := connected_remove i (shell_list s)\<rparr>))
         (case found of
            None \<Rightarrow> ret ()
          | Some c \<Rightarrow> (case conn_session c of None \<Rightarrow> ret () | Some r \<Rightarrow> on_server_shell (release_session r))))"

definition connected_clear :: "(('g, 'w) server, unit) proc" where
  "connected_clear = sbind (gets (\<lambda>s. map fst (shell_list s))) (for_each remove_connection)"

section \<open>Reading from a connection\<close>

text \<open>
  A complete frame is there: \<^verbatim>\<open>on_read_size\<close> without an error reads its body, \<^verbatim>\<open>on_new_message\<close> has it
  processed and either waits for the next one or drops the connection.
\<close>

definition on_new_message ::
  "'g frontend_env \<Rightarrow> (('g, 'w, pb_buffer) handler \<Rightarrow> ('g, 'w, pb_buffer) handler) \<Rightarrow> message_key \<Rightarrow> int \<Rightarrow> (('g, 'w) server, unit) proc" where
  "on_new_message env tfd key i s =
     (case map_of (shell_list s) i of
        None \<Rightarrow> (Returns (), s)
      | Some c \<Rightarrow>
          (case read_frame (conn_input c) of
             None \<Rightarrow> (Returns (), s)
           | Some (body, rest) \<Rightarrow>
               (case process_message env tfd key body (mediator_of c s) of
                  (Returns True, m) \<Rightarrow> (Returns (), put_mediator i rest m s)
                | (Returns False, m) \<Rightarrow> remove_connection i (put_mediator i rest m s)
                | (Throws e, m) \<Rightarrow> (Throws e, put_mediator i rest m s)
                | (Blocks, m) \<Rightarrow> (Blocks, put_mediator i rest m s)
                | (Undefined w, m) \<Rightarrow> (Undefined w, put_mediator i rest m s))))"

text \<open>
  An error while the size is awaited: the handler does nothing, so no read is started for the
  connection any more, and it stays in the list. While the body is awaited the connection is removed and
  an exception leaves the handler.
\<close>

definition on_read_size_error :: "int \<Rightarrow> (('g, 'w) server, unit) proc" where
  "on_read_size_error i =
     modify (\<lambda>s. case map_of (shell_list s) i of
        None \<Rightarrow> s
      | Some c \<Rightarrow> s\<lparr>shell_list := omap_set i (c\<lparr>conn_reading := False\<rparr>) (shell_list s)\<rparr>)"

definition on_new_message_error :: "string \<Rightarrow> int \<Rightarrow> (('g, 'w) server, unit) proc" where
  "on_new_message_error msg i = seq (remove_connection i) (throw (runtime_error msg))"

definition on_response_sent :: "string option \<Rightarrow> int \<Rightarrow> (('g, 'w) server, unit) proc" where
  "on_response_sent error i =
     (case error of None \<Rightarrow> ret () | Some msg \<Rightarrow> seq (remove_connection i) (throw (runtime_error msg)))"

section \<open>The communicator\<close>

definition communicator_next_id :: "(('g, 'w) server, int) proc" where
  "communicator_next_id s = (Returns (next_session_id s), s\<lparr>next_session_id := s32 (next_session_id s + 1)\<rparr>)"

definition start_accept :: "(('g, 'w) server, unit) proc" where
  "start_accept = sbind communicator_next_id (\<lambda>i. modify (\<lambda>s. s\<lparr>accepting := i\<rparr>))"

definition new_server :: "('g, 'w) shell \<Rightarrow> ('g, 'w) server" where
  "new_server sh =
     snd (start_accept \<lparr>srv_shell = sh, srv_resources = [], srv_platform_calls = 0, shell_list = [],
                        next_session_id = 0, accepting = 0\<rparr>)"

text \<open>\<^verbatim>\<open>connected_sessions->add(session)\<close>: a connection that had the id before is replaced, and with it
  its pointer to a session.\<close>

definition add_connection :: "int \<Rightarrow> (('g, 'w) server, unit) proc" where
  "add_connection i =
     seq (remove_connection i)
         (modify (\<lambda>s. s\<lparr>shell_list := connected_add i new_connection (shell_list s)\<rparr>))"

definition on_new_connection :: "bool \<Rightarrow> (('g, 'w) server, unit) proc" where
  "on_new_connection error =
     seq (if \<not> error then sbind (gets accepting) add_connection else ret ()) start_accept"

text \<open>The destructor, once the threads of the service have ended.\<close>

definition destroy_communicator :: "(('g, 'w) server, unit) proc" where
  "destroy_communicator = connected_clear"

text \<open>The handlers of a read run when the read ends, that is, only if there is one.\<close>

definition pending_read :: "int \<Rightarrow> ('g, 'w) server \<Rightarrow> bool" where
  "pending_read i s \<longleftrightarrow> (case map_of (shell_list s) i of None \<Rightarrow> False | Some c \<Rightarrow> conn_reading c)"

definition when_reading :: "int \<Rightarrow> (('g, 'w) server, unit) proc \<Rightarrow> (('g, 'w) server, unit) proc" where
  "when_reading i handler = sbind (gets (pending_read i)) (\<lambda>p. run_if p handler)"

text \<open>Bytes of the client arrive.\<close>

definition receive_bytes :: "int \<Rightarrow> bytes \<Rightarrow> (('g, 'w) server, unit) proc" where
  "receive_bytes i bs =
     modify (\<lambda>s. case map_of (shell_list s) i of
        None \<Rightarrow> s
      | Some c \<Rightarrow> s\<lparr>shell_list := omap_set i (c\<lparr>conn_input := conn_input c @ bs\<rparr>) (shell_list s)\<rparr>)"

end
