(* ===== verification/Frontend_Invariants.thy ===== *)
theory Frontend_Invariants
  imports Server
begin

text \<open>
  The frontend over the shell: the handlers of \<^verbatim>\<open>frontend/session_mediator.cpp\<close> keep the invariant of
  the shell and hold exactly one pointer to the session of their connection, whatever the
  clients send and whatever fails.
\<close>

section \<open>Calls on the shell\<close>

text \<open>The frontend holds the pointers \<open>H\<close>, no two to the same session.\<close>

definition held_by :: "session_ref multiset \<Rightarrow> ('g, 'w) shell \<Rightarrow> bool" where
  "held_by H s \<longleftrightarrow> shell_ok s \<and> distinct (session_holders s) \<and> mset (session_holders s) = H"

lemma held_by_mem: "held_by H s \<Longrightarrow> r \<in># H \<Longrightarrow> r \<in> set (session_holders s)"
  by (auto simp: held_by_def)

definition same_holders :: "session_ref list \<Rightarrow> ('g, 'w) shell \<Rightarrow> bool" where
  "same_holders hs s \<longleftrightarrow> session_holders s = hs"

lemma holders_on_session [keeps]: "preserves (same_holders hs) (on_session r m)"
  by (auto simp: preserves_def same_holders_def on_session_def split: option.splits prod.splits)

lemma holders_modify:
  "(\<And>s. session_holders (f s) = session_holders s) \<Longrightarrow> preserves (same_holders hs) (modify f)"
  by (rule preserves_modify) (simp add: same_holders_def)

lemma holders_collect [keeps]: "preserves (same_holders hs) (collect_session r)"
proof (rule preservesI)
  fix s :: "('g, 'w) shell"
  let ?m = "seq (on_session r destroy_session_object)
    (modify (\<lambda>s :: ('g, 'w) shell. s\<lparr>live_sessions := filter (\<lambda>p. fst p \<noteq> r) (live_sessions s)\<rparr>))"
  assume s: "same_holders hs s"
  have "preserves (same_holders hs) ?m" by (intro keeps holders_modify) simp
  then have "same_holders hs (snd (?m s))" using s by (rule preservesD)
  then show "same_holders hs (snd (collect_session r s))"
    using s by (simp add: collect_session_def)
qed

lemma holders_set_focus_to [keeps]: "preserves (same_holders hs) (set_focus_to f)"
  unfolding set_focus_to_def focus_mechanism_set_focus_to_def for_each_session_def focus_visit_def set_input_focus_to_def
  by (intro keeps holders_modify) simp_all

lemma holders_calls [keeps]:
  "preserves (same_holders hs) (create_surface_for env r params)"
  "preserves (same_holders hs) (close_session r)"
  "preserves (same_holders hs) (tag_session_with_lightdm_id r i)"
  "preserves (same_holders hs) (focus_session_with_lightdm_id i)"
proof -
  show "preserves (same_holders hs) (create_surface_for env r params)"
    unfolding create_surface_for_def by (intro keeps)
  have "preserves (same_holders hs) (remove_session r)"
    by (simp add: remove_session_def preserves_def same_holders_def)
  then show "preserves (same_holders hs) (close_session r)"
    unfolding close_session_def by (intro keeps holders_modify) simp_all
  show "preserves (same_holders hs) (tag_session_with_lightdm_id r i)"
    unfolding tag_session_with_lightdm_id_def by (intro keeps holders_modify) simp_all
  show "preserves (same_holders hs) (focus_session_with_lightdm_id i)"
    unfolding focus_session_with_lightdm_id_def by (intro keeps)
qed

lemma held_by_call:
  assumes "\<And>s x t. held_by H s \<Longrightarrow> f s = (x, t) \<Longrightarrow> \<forall>w. x \<noteq> Undefined w \<Longrightarrow> shell_ok t"
    and "\<And>hs. preserves (same_holders hs) f"
  shows "triple (held_by H) f (\<lambda>_. held_by H) (held_by H)"
proof (rule tripleI)
  fix s x t
  assume s: "held_by H s" "f s = (x, t)" "\<forall>w. x \<noteq> Undefined w"
  have "same_holders (session_holders s) t"
    using preserves_step [OF assms(2) _ s(2), of "session_holders s"] by (simp add: same_holders_def)
  then have "held_by H t"
    using assms(1) [OF s] s(1) by (simp add: held_by_def same_holders_def)
  then show "case x of Returns a \<Rightarrow> held_by H t | _ \<Rightarrow> held_by H t" by (simp split: res.splits)
qed

lemma held_by_session_call:
  assumes "r \<in># H" and "\<And>s x t. shell_ok s \<Longrightarrow> r \<in> set (session_holders s) \<Longrightarrow> f s = (x, t)
      \<Longrightarrow> \<forall>w. x \<noteq> Undefined w \<Longrightarrow> shell_ok t"
    and "\<And>hs. preserves (same_holders hs) f"
  shows "triple (held_by H) f (\<lambda>_. held_by H) (held_by H)"
  using assms held_by_mem [OF _ assms(1)] by (intro held_by_call) (auto simp: held_by_def)

lemma get_surface_ok:
  assumes "shell_ok s" and "on_session r (\<lambda>p. (get_surface j (fst p), p)) s = (x, t)"
  shows "t = s"
proof (cases "session_at r s")
  case None
  then show ?thesis using assms(2) by (simp add: on_session_def)
next
  case (Some a)
  moreover have "distinct (map fst (live_sessions s))" using assms(1) by (simp add: shell_ok_def shell_core_def)
  ultimately show ?thesis using assms(2) put_session_same [of s r a] by (simp add: on_session_def)
qed

lemma configure_ok:
  assumes "shell_ok s" and "r \<in> set (session_holders s)"
    and "on_session r (on_self (configure_surface j attrib v)) s = (x, t)" and "\<forall>w. x \<noteq> Undefined w"
  shows "shell_ok t"
proof -
  obtain y where "forget (on_session r (on_self (configure_surface j attrib v))) s = (y, t)" "\<forall>w. y \<noteq> Undefined w"
    using assms(3,4) by (cases x) (simp_all add: forget_def sbind_def ret_def)
  then show ?thesis
    using assms(2) shell_do_ok [OF assms(1), of "Configure_surface r j attrib v"] by auto
qed

lemma held_by_session_calls [triples]:
  assumes "r \<in># H"
  shows "triple (held_by H) (create_surface_for env r params) (\<lambda>_. held_by H) (held_by H)"
    and "triple (held_by H) (close_session r) (\<lambda>_. held_by H) (held_by H)"
    and "triple (held_by H) (tag_session_with_lightdm_id r i) (\<lambda>_. held_by H) (held_by H)"
    and "triple (held_by H) (on_session r (session_destroy_surface j)) (\<lambda>_. held_by H) (held_by H)"
    and "triple (held_by H) (on_session r (on_self (configure_surface j attrib v))) (\<lambda>_. held_by H) (held_by H)"
    and "triple (held_by H) (on_session r (\<lambda>p. (get_surface j (fst p), p))) (\<lambda>_. held_by H) (held_by H)"
proof -
  note call = held_by_session_call [OF assms]
  show "triple (held_by H) (create_surface_for env r params) (\<lambda>_. held_by H) (held_by H)"
    by (rule call) (blast intro: create_surface_for_ok keeps)+
  show "triple (held_by H) (close_session r) (\<lambda>_. held_by H) (held_by H)"
    by (rule call) (blast intro: close_session_ok(1) keeps)+
  show "triple (held_by H) (tag_session_with_lightdm_id r i) (\<lambda>_. held_by H) (held_by H)"
    by (rule call) (blast intro: tag_session_ok keeps)+
  show "triple (held_by H) (on_session r (session_destroy_surface j)) (\<lambda>_. held_by H) (held_by H)"
    by (rule call) (use shell_do_ok [where c = "Destroy_surface r j"] in \<open>force intro: keeps\<close>)+
  show "triple (held_by H) (on_session r (on_self (configure_surface j attrib v))) (\<lambda>_. held_by H) (held_by H)"
    by (rule call) (blast intro: configure_ok keeps)+
  show "triple (held_by H) (on_session r (\<lambda>p. (get_surface j (fst p), p))) (\<lambda>_. held_by H) (held_by H)"
    by (rule call) (use get_surface_ok in \<open>blast intro: keeps\<close>)+
qed

lemma held_by_focus [triples]:
  "triple (held_by H) (focus_session_with_lightdm_id i) (\<lambda>_. held_by H) (held_by H)"
  by (rule held_by_call)
    (use shell_do_ok [where c = "Focus_tagged i"] in \<open>force intro: keeps simp: held_by_def\<close>)+

lemma held_by_open [triples]:
  "triple (held_by H) (open_session name) (\<lambda>r. held_by (add_mset r H)) (held_by H)"
proof (rule tripleI)
  fix s t :: "('g, 'w) shell" and x
  assume s: "held_by H s" "open_session name s = (x, t)"
  have ok: "shell_ok s" using s(1) by (simp add: held_by_def)
  note o = open_session_ok [OF ok s(2)]
  let ?s = "snd (make_session name s)"
  let ?rest = "\<lambda>r. seq (insert_session r) (seq (modify (\<lambda>s :: ('g, 'w) shell. s\<lparr>focus_application := Some r\<rparr>))
      (seq (focus_mechanism_set_focus_to (Some r)) (ret r)))"
  have keep: "preserves (same_holders (session_holders ?s)) (?rest r)" for r
    unfolding insert_session_def focus_mechanism_set_focus_to_def for_each_session_def focus_visit_def set_input_focus_to_def
    by (intro keeps holders_modify) simp_all
  have "?rest (next_session s) ?s = (x, t)"
    using s(2) by (simp add: open_session_def sbind_def make_session_def)
  from preserves_step [OF keep _ this] have "session_holders t = session_holders ?s"
    by (simp add: same_holders_def)
  moreover have "next_session s \<notin> set (session_holders s)"
  proof
    assume "next_session s \<in> set (session_holders s)"
    then obtain a where "session_at (next_session s) s = Some a" by (rule holder_at [OF ok])
    then have "next_session s \<in> live s" by (force simp: live_def session_at_def dest: map_of_SomeD)
    then show False using ok by (auto simp: shell_ok_def shell_core_def)
  qed
  ultimately have "held_by (add_mset (next_session s) H) t"
    using o(1) s(1) by (simp add: held_by_def make_session_def)
  then show "case x of Returns r \<Rightarrow> held_by (add_mset r H) t | _ \<Rightarrow> held_by H t"
    using o(2) by simp
qed

lemma held_by_release [triples]:
  "triple (held_by (add_mset r H)) (release_session r) (\<lambda>_. held_by H) (held_by H)"
proof (rule tripleI)
  fix s t :: "('g, 'w) shell" and x
  assume s: "held_by (add_mset r H) s" "release_session r s = (x, t)" "\<forall>w. x \<noteq> Undefined w"
  have r: "r \<in> set (session_holders s)" "shell_ok s"
    using s(1) held_by_mem [of "add_mset r H" s r] by (simp_all add: held_by_def)
  let ?s = "s\<lparr>session_holders := remove1 r (session_holders s)\<rparr>"
  have "collect_session r ?s = (x, t)"
    using s(2) by (simp add: release_session_def seq_def sbind_def modify_def)
  then have "same_holders (session_holders ?s) t"
    using preserves_step [OF holders_collect, of "session_holders ?s" ?s] by (simp add: same_holders_def)
  then have "held_by H t"
    using release_session_ok(1) [OF r(2,1) s(2,3)] s(1) by (simp add: held_by_def same_holders_def)
  then show "case x of Returns _ \<Rightarrow> held_by H t | _ \<Rightarrow> held_by H t" by (simp split: res.splits)
qed

section \<open>The surfaces through a handler\<close>

lemma shell_ok_stack:
  assumes "shell_ok s" and "refs_ok k" and "next_surface k = next_surface (shell_stack s)"
    and "visibility k = visibility (shell_stack s)"
  shows "shell_ok (s\<lparr>shell_base := (shell_base s)\<lparr>base_stack := k\<rparr>\<rparr>)"
proof -
  let ?t = "s\<lparr>shell_base := (shell_base s)\<lparr>base_stack := k\<rparr>\<rparr>"
  have alive: "surface_alive k = surface_alive (shell_stack s)"
    using assms(4) by (auto simp: surface_alive_visibility fun_eq_iff)
  have core: "shell_core s" using assms(1) by (simp add: shell_ok_def)
  then have "shell_core ?t"
    using assms(2,3) alive unfolding shell_core_def by (simp add: session_owns_def)
  moreover have "owned ?t = owned s" by (simp add: owned_def)
  ultimately show ?thesis
    using assms(1,4) by (simp add: shell_ok_def focus_shown_def)
qed

text \<open>The calls of a shell surface that a handler makes.\<close>

definition stack_quiet :: "(('g, 'w) surface_stack, 'a) proc \<Rightarrow> bool" where
  "stack_quiet f \<longleftrightarrow> (\<forall>k x k'. refs_ok k \<longrightarrow> f k = (x, k') \<longrightarrow>
     refs_ok k' \<and> next_surface k' = next_surface k \<and> visibility k' = visibility k)"

lemma stack_quiet_read: "stack_quiet (locked sh invalid_surface (on_self (gets f)))"
  unfolding stack_quiet_def
  by (intro allI impI, erule locked_keeps_visibility [rotated], assumption)
    (auto simp: invalid_surface_def throw_def zoom_def gets_def)

lemma stack_quiet_calls:
  "stack_quiet (shell_surface_size sh)" "stack_quiet (shell_surface_pixel_format sh)"
  "stack_quiet (shell_surface_client_buffer sh)" "stack_quiet (shell_surface_advance_client_buffer sh)"
proof -
  show "stack_quiet (shell_surface_size sh)" "stack_quiet (shell_surface_pixel_format sh)"
      "stack_quiet (shell_surface_client_buffer sh)"
    unfolding shell_surface_size_def shell_surface_pixel_format_def shell_surface_client_buffer_def
    by (rule stack_quiet_read)+
  show "stack_quiet (shell_surface_advance_client_buffer sh)"
    unfolding stack_quiet_def shell_surface_advance_client_buffer_def
    by (intro allI impI, erule locked_keeps_visibility [rotated], assumption)
      (auto simp: ret_def dest: advance_client_buffer_keeps)
qed

section \<open>The mediator\<close>

text \<open>Beside the pointers \<open>H\<close> of the other connections the mediator has one to its session.\<close>

definition mediator_ok :: "session_ref multiset \<Rightarrow> ('g, 'w) mediator \<Rightarrow> bool" where
  "mediator_ok H m \<longleftrightarrow> held_by (H + mset (case med_session m of None \<Rightarrow> [] | Some r \<Rightarrow> [r])) (med_shell m)"

definition mediator_has :: "session_ref multiset \<Rightarrow> session_ref \<Rightarrow> ('g, 'w) mediator \<Rightarrow> bool" where
  "mediator_has H r m \<longleftrightarrow> med_session m = Some r \<and> held_by (add_mset r H) (med_shell m)"

lemma mediator_has_ok: "mediator_has H r m \<Longrightarrow> mediator_ok H m"
  by (simp add: mediator_has_def mediator_ok_def)

lemma triple_valid_session [triples]:
  "triple (mediator_ok H) valid_session (mediator_has H) (mediator_ok H)"
  by (rule tripleI) (auto simp: valid_session_def mediator_ok_def mediator_has_def split: option.splits)

lemma triple_on_shell [triples]:
  assumes "triple (held_by (add_mset r H)) f (\<lambda>_. held_by (add_mset r H)) (held_by (add_mset r H))"
  shows "triple (mediator_has H r) (on_shell f) (\<lambda>_. mediator_has H r) (mediator_ok H)"
  unfolding on_shell_def
  by (rule triple_zoom [OF assms]) (auto simp: mediator_has_def mediator_ok_def)

lemma triple_on_shell_stack [triples]:
  assumes "stack_quiet f"
  shows "triple (mediator_has H r) (on_shell_stack f) (\<lambda>_. mediator_has H r) (mediator_ok H)"
proof -
  have "triple (held_by (add_mset r H)) (zoom shell_base (\<lambda>b s. s\<lparr>shell_base := b\<rparr>) (on_stack f))
    (\<lambda>_. held_by (add_mset r H)) (held_by (add_mset r H))"
  proof (rule tripleI)
    fix s t x
    assume s: "held_by (add_mset r H) s"
      and run: "zoom shell_base (\<lambda>b s. s\<lparr>shell_base := b\<rparr>) (on_stack f) s = (x, t)"
    obtain y k where k: "f (shell_stack s) = (y, k)" by fastforce
    have t: "t = s\<lparr>shell_base := (shell_base s)\<lparr>base_stack := k\<rparr>\<rparr>"
      using run k by (simp add: zoom_def)
    have "shell_ok s" using s by (simp add: held_by_def)
    moreover from this have "refs_ok (shell_stack s)" by (simp add: shell_ok_def shell_core_def)
    ultimately have "shell_ok t"
      using assms k unfolding t stack_quiet_def by (intro shell_ok_stack) blast+
    then have "held_by (add_mset r H) t" using s by (simp add: held_by_def t)
    then show "case x of Returns a \<Rightarrow> held_by (add_mset r H) t | _ \<Rightarrow> held_by (add_mset r H) t"
      by (simp split: res.splits)
  qed
  then show ?thesis unfolding on_shell_stack_def by (rule triple_on_shell)
qed

lemma triple_save [triples]: "triple (mediator_has H r) (save key v) (\<lambda>_. mediator_has H r) E"
  unfolding save_def by (rule triple_modify) (simp add: mediator_has_def)

lemma triple_platform_package [triples]:
  "triple (mediator_has H r) (get_platform_package env) (\<lambda>_. mediator_has H r) (mediator_ok H)"
  by (rule tripleI) (auto simp: get_platform_package_def mediator_has_def mediator_ok_def split: res.splits)

lemma triple_find_surface [triples]:
  "triple (mediator_has H r) (find_surface r i) (\<lambda>_. mediator_has H r) (mediator_ok H)"
  unfolding find_surface_def by (intro triple_on_shell held_by_session_calls) simp

lemma triple_take_client_buffer [triples]:
  "triple (mediator_has H r) (take_client_buffer sh) (\<lambda>_. mediator_has H r) (mediator_ok H)"
  unfolding take_client_buffer_def
  by (intro stays triple_on_shell_stack stack_quiet_calls triple_undef triple_lift_res triple_ret)
    (simp_all add: mediator_has_ok)

lemma triple_on_mediator [triples]:
  assumes "triple P f Q E"
  shows "triple (\<lambda>p. P (fst p)) (on_mediator f) (\<lambda>a p. Q a (fst p)) (\<lambda>p. E (fst p))"
  by (rule triple_zoom [OF assms]) simp_all

lemma triple_respond [triples]: "triple (\<lambda>p. P (fst p)) (respond f) (\<lambda>_ p. P (fst p)) E"
  unfolding respond_def by (rule triple_modify) simp

lemma triple_assign_session:
  "triple (\<lambda>m. held_by (add_mset r H + mset (case med_session m of None \<Rightarrow> [] | Some q \<Rightarrow> [q])) (med_shell m))
    (assign_session (Some r)) (\<lambda>_. mediator_has H r) (mediator_ok H)"
  "triple (mediator_has H r) (assign_session None) (\<lambda>_. mediator_ok H) (mediator_ok H)"
proof -
  have drop: "\<forall>w. y \<noteq> Undefined w \<Longrightarrow> held_by H' t" if "release_session q s = (y, t)" "held_by (add_mset q H') s"
    for q y H' and s t :: "('x, 'y) shell"
    using tripleD [OF held_by_release that(2,1)] by (cases y) simp_all
  show "triple (\<lambda>m. held_by (add_mset r H + mset (case med_session m of None \<Rightarrow> [] | Some q \<Rightarrow> [q])) (med_shell m))
      (assign_session (Some r)) (\<lambda>_. mediator_has H r) (mediator_ok H)"
    by (rule tripleI) (auto simp: assign_session_def proc_simps on_shell_def mediator_has_def mediator_ok_def
        add_mset_commute split: option.splits prod.splits res.splits dest!: drop)
  show "triple (mediator_has H r) (assign_session None) (\<lambda>_. mediator_ok H) (mediator_ok H)"
    by (rule tripleI) (auto simp: assign_session_def proc_simps on_shell_def mediator_has_def mediator_ok_def
        split: option.splits prod.splits res.splits dest!: drop)
qed

section \<open>The handlers\<close>

abbreviation med_has :: "session_ref multiset \<Rightarrow> session_ref \<Rightarrow> ('g, 'w) mediator \<times> 'r \<Rightarrow> bool" where
  "med_has H r p \<equiv> mediator_has H r (fst p)"

abbreviation med_ok :: "session_ref multiset \<Rightarrow> ('g, 'w) mediator \<times> 'r \<Rightarrow> bool" where
  "med_ok H p \<equiv> mediator_ok H (fst p)"

lemma triple_done: "triple (med_ok H) d (\<lambda>_. med_ok H) (med_ok H) \<Longrightarrow> triple (med_has H r) d (\<lambda>_. med_ok H) (med_ok H)"
  by (erule triple_weaken) (simp_all add: mediator_has_ok)

lemma triple_with_session:
  assumes "\<And>r. triple (med_has H r) (f r) (\<lambda>_. med_ok H) (med_ok H)"
  shows "triple (med_ok H) (sbind (on_mediator valid_session) f) (\<lambda>_. med_ok H) (med_ok H)"
  by (rule triple_sbind [OF triple_on_mediator [OF triple_valid_session] assms])

lemma triple_after_session:
  assumes "\<And>r. triple (med_has H r) n (\<lambda>_. med_ok H) (med_ok H)"
  shows "triple (med_ok H) (seq (on_mediator valid_session) n) (\<lambda>_. med_ok H) (med_ok H)"
  unfolding seq_def by (rule triple_with_session [OF assms])

lemmas mediator_steps = stays triple_on_mediator triple_respond triple_on_shell triple_on_shell_stack
  stack_quiet_calls triple_save triple_platform_package triple_find_surface triple_take_client_buffer
  held_by_session_calls held_by_focus

lemma release_surface_keeps:
  "triple (med_ok H) d (\<lambda>_. med_ok H) (med_ok H) \<Longrightarrow> triple (med_ok H) (release_surface i d) (\<lambda>_. med_ok H) (med_ok H)"
  unfolding release_surface_def
  by (intro triple_with_session mediator_steps triple_done) simp_all

lemma select_focus_keeps:
  "triple (med_ok H) d (\<lambda>_. med_ok H) (med_ok H) \<Longrightarrow> triple (med_ok H) (select_focus_by_lightdm_id i d) (\<lambda>_. med_ok H) (med_ok H)"
  unfolding select_focus_by_lightdm_id_def
  by (intro triple_after_session mediator_steps triple_done)

lemma next_buffer_keeps:
  "triple (med_ok H) d (\<lambda>_. med_ok H) (med_ok H) \<Longrightarrow> triple (med_ok H) (next_buffer key i d) (\<lambda>_. med_ok H) (med_ok H)"
  unfolding next_buffer_def
  by (intro triple_with_session mediator_steps triple_done)

lemma create_surface_keeps:
  "triple (med_ok H) d (\<lambda>_. med_ok H) (med_ok H)
   \<Longrightarrow> triple (med_ok H) (create_surface_request env key sp d) (\<lambda>_. med_ok H) (med_ok H)"
  unfolding create_surface_request_def
  by (intro triple_with_session mediator_steps triple_done triple_lift_res triple_ret)
    (simp_all add: mediator_has_ok)

lemma configure_surface_keeps:
  "triple (med_ok H) d (\<lambda>_. med_ok H) (med_ok H)
   \<Longrightarrow> triple (med_ok H) (configure_surface_request setting d) (\<lambda>_. med_ok H) (med_ok H)"
  unfolding configure_surface_request_def Let_def
  by (intro stays_seq triple_respond triple_with_session mediator_steps triple_done) simp_all

lemma drm_auth_magic_keeps:
  assumes "triple (med_ok H) d (\<lambda>_. med_ok H) (med_ok H)"
  shows "triple (med_ok H) (drm_auth_magic env magic d) (\<lambda>_. med_ok H) (med_ok H)"
  unfolding drm_auth_magic_def
proof (intro triple_after_session stays_seq triple_done assms triple_try_catch)
  fix r
  show "triple (med_has H r) (on_mediator (\<lambda>m. (env_drm_auth_magic env (platform_calls m) magic,
      m\<lparr>platform_calls := Suc (platform_calls m)\<rparr>))) (\<lambda>_. med_has H r) (med_has H r)"
    by (rule triple_on_mediator, rule tripleI) (auto simp: mediator_has_def split: res.splits)
  show "triple (med_has H r) (respond (\<lambda>r. r\<lparr>pb_status_code := Some 0\<rparr>)) (\<lambda>_. med_has H r) (med_has H r)"
    by (rule triple_respond)
  show "triple (med_has H r) (case e of errno_error w n \<Rightarrow> respond (\<lambda>r. r\<lparr>pb_status_code := Some n\<rparr>) | _ \<Rightarrow> throw e)
      (\<lambda>_. med_has H r) (med_ok H)" for e
    by (cases e) (auto intro: triple_respond triple_throw mediator_has_ok)
qed (rule mediator_has_ok)

lemma disconnect_keeps:
  assumes "triple (med_ok H) d (\<lambda>_. med_ok H) (med_ok H)"
  shows "triple (med_ok H) (disconnect d) (\<lambda>_. med_ok H) (med_ok H)"
  unfolding disconnect_def
proof (rule triple_with_session)
  fix r
  have "triple (med_has H r) (on_mediator (on_shell (close_session r))) (\<lambda>_. med_has H r) (med_ok H)"
    by (intro mediator_steps) simp
  then show "triple (med_has H r) (seq (on_mediator (on_shell (close_session r))) (seq (on_mediator (assign_session None)) d))
      (\<lambda>_. med_ok H) (med_ok H)"
    by (rule stays_seq) (rule triple_seq [OF triple_on_mediator [OF triple_assign_session(2)] assms])
qed

lemma connect_keeps:
  assumes "triple (med_ok H) d (\<lambda>_. med_ok H) (med_ok H)"
  shows "triple (med_ok H) (connect env key cp d) (\<lambda>_. med_ok H) (med_ok H)"
  unfolding connect_def
proof (rule triple_sbind)
  show "triple (med_ok H) (on_mediator (on_shell (open_session (application_name cp))))
    (\<lambda>r p. held_by (add_mset r H + mset (case med_session (fst p) of None \<Rightarrow> [] | Some q \<Rightarrow> [q])) (med_shell (fst p))) (med_ok H)"
  proof (rule triple_on_mediator, rule tripleI)
    fix m t x
    assume m: "mediator_ok H m" and run: "on_shell (open_session (application_name cp)) m = (x, t)"
      and x: "\<forall>w. x \<noteq> Undefined w"
    obtain u where u: "open_session (application_name cp) (med_shell m) = (x, u)" "t = m\<lparr>med_shell := u\<rparr>"
      using run by (auto simp: on_shell_def zoom_def split: prod.splits)
    then show "case x of Returns r \<Rightarrow> held_by (add_mset r H + mset (case med_session t of None \<Rightarrow> [] | Some q \<Rightarrow> [q])) (med_shell t)
        | _ \<Rightarrow> mediator_ok H t"
      using tripleD [OF held_by_open m [unfolded mediator_ok_def] u(1) x]
      by (auto simp: mediator_ok_def split: res.splits)
  qed
  fix r
  show "triple (\<lambda>p. held_by (add_mset r H + mset (case med_session (fst p) of None \<Rightarrow> [] | Some q \<Rightarrow> [q])) (med_shell (fst p)))
    (seq (on_mediator (assign_session (Some r)))
       (sbind (on_mediator (get_platform_package env)) (\<lambda>package.
           seq (respond (fill_connection env (fst package) (snd package)))
             (seq (on_mediator (save key (Platform_package (fst package) (snd package))))
               (seq (case lightdm_id cp of
                       None \<Rightarrow> ret ()
                     | Some i \<Rightarrow> on_mediator (on_shell (tag_session_with_lightdm_id r i)))
                    d))))) (\<lambda>_. med_ok H) (med_ok H)"
    by (rule triple_seq [OF triple_on_mediator [OF triple_assign_session(1)]])
      (intro mediator_steps triple_done assms triple_ret; simp)
qed

section \<open>Messages\<close>

lemma send_keeps [triples]: "triple (mediator_ok H) (send env body) (\<lambda>_. mediator_ok H) (mediator_ok H)"
  by (rule tripleI) (auto simp: send_def mediator_ok_def Let_def split: option.splits res.splits)

lemma send_fds_keeps [triples]: "triple (mediator_ok H) (send_fds fds) (\<lambda>_. mediator_ok H) (mediator_ok H)"
  unfolding send_fds_def by (intro triple_if triple_modify triple_ret) (simp_all add: mediator_ok_def)

lemma free_keeps [triples]: "triple (mediator_ok H) (free key) (\<lambda>_. mediator_ok H) (mediator_ok H)"
  unfolding free_def by (intro triple_modify) (simp add: mediator_ok_def)

lemma send_with_fds_keeps:
  "triple (med_ok H) (send_with_fds env wrap extract key i) (\<lambda>_. med_ok H) (med_ok H)"
  unfolding send_with_fds_def send_message_def
  by (intro stays triple_gets triple_respond triple_on_mediator send_keeps send_fds_keeps free_keeps)

lemma send_plain_keeps: "triple (med_ok H) (send_plain env wrap i) (\<lambda>_. med_ok H) (med_ok H)"
  unfolding send_plain_def send_message_def by (intro stays triple_gets triple_on_mediator send_keeps)

lemma invoke_keeps:
  assumes "triple (\<lambda>p. I (fst p)) send_response (\<lambda>_ p. I (fst p)) (\<lambda>p. I (fst p))"
    and "triple (\<lambda>p. I (fst p)) (h send_response) (\<lambda>_ p. I (fst p)) (\<lambda>p. I (fst p))"
  shows "triple I (invoke env set_error fresh send_response h) (\<lambda>_. I) I"
proof (rule tripleI)
  fix m x t
  assume m: "I m" and run: "invoke env set_error fresh send_response h m = (x, t)"
    and x: "\<forall>w. x \<noteq> Undefined w"
  have all: "triple (\<lambda>p. I (fst p)) (try_catch (h send_response)
      (\<lambda>x. seq (respond (set_error (env_diagnostic env x))) send_response)) (\<lambda>_ p. I (fst p)) (\<lambda>p. I (fst p))"
    by (rule triple_try_catch [OF assms(2)]) (intro stays_seq triple_respond assms(1))
  obtain r where "try_catch (h send_response) (\<lambda>x. seq (respond (set_error (env_diagnostic env x))) send_response) (m, fresh)
      = (x, (t, r))"
    using run by (auto simp: invoke_def split: prod.splits)
  from tripleD [OF all _ this x] m
  show "case x of Returns a \<Rightarrow> I t | _ \<Rightarrow> I t" by (cases x) simp_all
qed

text \<open>What the generated class does for a method that is not overridden: it runs the closure at most.\<close>

definition generated_default :: "(('g, 'w, 'r) handler \<Rightarrow> ('g, 'w, 'r) handler) \<Rightarrow> bool" where
  "generated_default h \<longleftrightarrow> (\<forall>d p. h d p = d p \<or> (\<exists>w q. h d p = (Undefined w, q)))"

lemma generated_default_keeps:
  assumes "generated_default h" and "triple P d Q E"
  shows "triple P (h d) Q E"
proof (rule tripleI)
  fix s x t
  assume s: "P s" "h d s = (x, t)" and x: "\<forall>w. x \<noteq> Undefined w"
  then have "d s = (x, t)" using assms(1) unfolding generated_default_def by (metis prod.inject)
  with s x show "case x of Returns a \<Rightarrow> Q a t | _ \<Rightarrow> E t" by (intro tripleD [OF assms(2)])
qed

lemma process_message_keeps:
  assumes "generated_default tfd"
  shows "triple (mediator_ok H) (process_message env tfd key msg) (\<lambda>_. mediator_ok H) (mediator_ok H)"
proof -
  have "triple (mediator_ok H) (call_method env tfd key call) (\<lambda>_. mediator_ok H) (mediator_ok H)" for call
    unfolding call_method_def Let_def send_connection_response_def send_surface_response_def send_buffer_response_def
    by (intro triple_if stays_seq triple_ret invoke_keeps send_with_fds_keeps send_plain_keeps
        connect_keeps create_surface_keeps next_buffer_keeps release_surface_keeps generated_default_keeps [OF assms]
        drm_auth_magic_keeps select_focus_keeps configure_surface_keeps disconnect_keeps)
  then show ?thesis
    unfolding process_message_def dispatch_def by (intro triple_try_catch triple_ret)
qed

section \<open>Connections\<close>

definition conn_pointer :: "connection \<Rightarrow> session_ref multiset" where
  "conn_pointer c = mset (case conn_session c of None \<Rightarrow> [] | Some r \<Rightarrow> [r])"

definition conn_pointers :: "(int, connection) omap \<Rightarrow> session_ref multiset" where
  "conn_pointers m = sum_mset (image_mset (\<lambda>p. conn_pointer (snd p)) (mset m))"

lemma conn_pointers_set: "omap_wf m \<Longrightarrow> conn_pointers (omap_set i c m) = conn_pointer c + conn_pointers (omap_erase i m)"
  by (simp add: conn_pointers_def mset_omap_set)

lemma conn_pointers_erase:
  "omap_wf m \<Longrightarrow> map_of m i = Some c \<Longrightarrow> conn_pointers m = conn_pointer c + conn_pointers (omap_erase i m)"
  by (simp add: conn_pointers_def omap_erase_known)

definition server_ok :: "('g, 'w) server \<Rightarrow> bool" where
  "server_ok s \<longleftrightarrow> omap_wf (shell_list s) \<and> held_by (conn_pointers (shell_list s)) (srv_shell s)"

lemma remove_connection_keeps: "triple server_ok (remove_connection i) (\<lambda>_. server_ok) server_ok"
proof (rule tripleI)
  fix s t :: "('g, 'w) server" and x
  assume s: "server_ok s" and run: "remove_connection i s = (x, t)" and x: "\<forall>w. x \<noteq> Undefined w"
  have wf: "omap_wf (shell_list s)" using s by (simp add: server_ok_def)
  let ?l = "omap_erase i (shell_list s)"
  have "server_ok t"
  proof (cases "map_of (shell_list s) i")
    case None
    then have "t = s\<lparr>shell_list := ?l\<rparr>" "?l = shell_list s"
      using run by (auto simp: remove_connection_def connected_remove_def proc_simps omap_erase_missing)
    then show ?thesis using s by simp
  next
    case (Some c)
    note p = conn_pointers_erase [OF wf Some]
    show ?thesis
    proof (cases "conn_session c")
      case None
      then have "t = s\<lparr>shell_list := ?l\<rparr>"
        using run Some by (auto simp: remove_connection_def connected_remove_def proc_simps)
      then show ?thesis
        using s p None wf by (simp add: server_ok_def conn_pointer_def omap_wf_erase)
    next
      case (Some r)
      obtain y u where y: "release_session r (srv_shell s) = (y, u)" by fastforce
      then have t: "t = s\<lparr>shell_list := ?l, srv_shell := u\<rparr>" "x = y"
        using run \<open>map_of (shell_list s) i = Some c\<close> Some
        by (auto simp: remove_connection_def connected_remove_def on_server_shell_def proc_simps)
      have "held_by (add_mset r (conn_pointers ?l)) (srv_shell s)"
        using s p Some by (simp add: server_ok_def conn_pointer_def)
      from tripleD [OF held_by_release this y] x t have "held_by (conn_pointers ?l) u"
        by (cases y) simp_all
      then show ?thesis using wf t by (simp add: server_ok_def omap_wf_erase)
    qed
  qed
  then show "case x of Returns a \<Rightarrow> server_ok t | _ \<Rightarrow> server_ok t" by (simp split: res.splits)
qed

lemma put_mediator_ok:
  assumes "omap_wf (shell_list s)" and "mediator_ok (conn_pointers (omap_erase i (shell_list s))) m"
  shows "server_ok (put_mediator i input m s)"
  using assms by (simp add: server_ok_def put_mediator_def conn_pointers_set omap_wf_set conn_pointer_def mediator_ok_def add.commute)

lemma on_new_message_keeps:
  assumes "generated_default tfd"
  shows "triple server_ok (on_new_message env tfd key i) (\<lambda>_. server_ok) server_ok"
proof (rule tripleI)
  fix s t x
  assume s: "server_ok s" and run: "on_new_message env tfd key i s = (x, t)" and x: "\<forall>w. x \<noteq> Undefined w"
  have wf: "omap_wf (shell_list s)" using s by (simp add: server_ok_def)
  have "server_ok t"
  proof (cases "\<exists>c body rest. map_of (shell_list s) i = Some c \<and> read_frame (conn_input c) = Some (body, rest)")
    case False
    then have "t = s" using run by (auto simp: on_new_message_def split: option.splits)
    then show ?thesis using s by simp
  next
    case True
    then obtain c body rest where c: "map_of (shell_list s) i = Some c" and f: "read_frame (conn_input c) = Some (body, rest)"
      by blast
    let ?H = "conn_pointers (omap_erase i (shell_list s))"
    obtain y m where y: "process_message env tfd key body (mediator_of c s) = (y, m)" by fastforce
    have before: "mediator_ok ?H (mediator_of c s)"
      using s conn_pointers_erase [OF wf c]
      by (simp add: server_ok_def mediator_ok_def mediator_of_def conn_pointer_def add.commute)
    let ?t = "put_mediator i rest m s"
    have y_defined: "\<forall>w. y \<noteq> Undefined w" using run c f y x by (auto simp: on_new_message_def)
    from tripleD [OF process_message_keeps [OF assms] before y this] have "mediator_ok ?H m" by (cases y) simp_all
    then have t: "server_ok ?t" by (rule put_mediator_ok [OF wf])
    show ?thesis
    proof (cases "y = Returns False")
      case True
      then have "remove_connection i ?t = (x, t)" using run c f y by (simp add: on_new_message_def)
      from tripleD [OF remove_connection_keeps t this x] show ?thesis by (cases x) simp_all
    next
      case False
      then have "t = ?t"
        using run c f y y_defined by (cases y) (auto simp: on_new_message_def split: bool.splits)
      then show ?thesis using t by simp
    qed
  qed
  then show "case x of Returns a \<Rightarrow> server_ok t | _ \<Rightarrow> server_ok t" by (simp split: res.splits)
qed

lemma start_accept_keeps: "triple server_ok start_accept (\<lambda>_. server_ok) E"
  by (simp add: triple_def start_accept_def communicator_next_id_def sbind_def modify_def server_ok_def)

lemma add_connection_keeps: "triple server_ok (add_connection i) (\<lambda>_. server_ok) server_ok"
  unfolding add_connection_def
proof (rule tripleI)
  fix s t :: "('g, 'w) server" and x
  let ?add = "modify (\<lambda>s. s\<lparr>shell_list := connected_add i new_connection (shell_list s)\<rparr>)"
  assume s: "server_ok s" and run: "seq (remove_connection i) ?add s = (x, t)" and x: "\<forall>w. x \<noteq> Undefined w"
  obtain y u where y: "remove_connection i s = (y, u)" by fastforce
  have "\<forall>w. y \<noteq> Undefined w" using run y x by (auto simp: seq_def sbind_def)
  from tripleD [OF remove_connection_keeps s y this] have u: "server_ok u" by (cases y) simp_all
  have "shell_list u = omap_erase i (shell_list s)"
    using y by (auto simp: remove_connection_def connected_remove_def on_server_shell_def proc_simps
        split: option.splits prod.splits)
  then have "omap_erase i (shell_list u) = shell_list u" by (simp add: omap_erase_missing)
  moreover have "t = u \<or> t = u\<lparr>shell_list := connected_add i new_connection (shell_list u)\<rparr>"
    using run y by (cases y) (auto simp: seq_def sbind_def modify_def)
  ultimately have "server_ok t"
    using u by (auto simp: server_ok_def connected_add_def conn_pointers_set omap_wf_set conn_pointer_def new_connection_def)
  then show "case x of Returns a \<Rightarrow> server_ok t | _ \<Rightarrow> server_ok t" by (simp split: res.splits)
qed

lemma on_new_connection_keeps: "triple server_ok (on_new_connection e) (\<lambda>_. server_ok) server_ok"
  unfolding on_new_connection_def
  by (intro stays_seq triple_if stays_sbind triple_gets triple_ret start_accept_keeps add_connection_keeps)

lemma connection_update_keeps:
  assumes "\<And>c. conn_session (f c) = conn_session c"
  shows "triple server_ok (modify (\<lambda>s. case map_of (shell_list s) i of None \<Rightarrow> s
      | Some c \<Rightarrow> s\<lparr>shell_list := omap_set i (f c) (shell_list s)\<rparr>)) (\<lambda>_. server_ok) E"
proof (rule triple_modify)
  fix s :: "('g, 'w) server"
  assume s: "server_ok s"
  show "server_ok (case map_of (shell_list s) i of None \<Rightarrow> s
      | Some c \<Rightarrow> s\<lparr>shell_list := omap_set i (f c) (shell_list s)\<rparr>)"
  proof (cases "map_of (shell_list s) i")
    case (Some c)
    then show ?thesis
      using s conn_pointers_erase [of "shell_list s" i c] assms
      by (simp add: server_ok_def conn_pointers_set omap_wf_set conn_pointer_def)
  qed (simp add: s)
qed

lemma receive_bytes_keeps: "triple server_ok (receive_bytes i bs) (\<lambda>_. server_ok) E"
  unfolding receive_bytes_def by (rule connection_update_keeps) simp

lemma on_read_size_error_keeps: "triple server_ok (on_read_size_error i) (\<lambda>_. server_ok) E"
  unfolding on_read_size_error_def by (rule connection_update_keeps) simp

lemma when_reading_keeps:
  "triple server_ok handler (\<lambda>_. server_ok) E \<Longrightarrow> triple server_ok (when_reading i handler) (\<lambda>_. server_ok) E"
  unfolding when_reading_def run_if_def by (intro stays_sbind triple_gets triple_if triple_ret)

section \<open>The server\<close>

text \<open>What happens to the server: clients connect, send bytes and go away.\<close>

datatype server_event =
    New_connection bool
  | Bytes_arrive int bytes
  | Message_complete int message_key
  | Size_error int
  | Body_error int string

fun server_do ::
  "'g frontend_env \<Rightarrow> (('g, 'w, pb_buffer) handler \<Rightarrow> ('g, 'w, pb_buffer) handler) \<Rightarrow> server_event \<Rightarrow> (('g, 'w) server, unit) proc" where
  "server_do env tfd (New_connection e) = on_new_connection e"
| "server_do env tfd (Bytes_arrive i bs) = receive_bytes i bs"
| "server_do env tfd (Message_complete i key) = when_reading i (on_new_message env tfd key i)"
| "server_do env tfd (Size_error i) = when_reading i (on_read_size_error i)"
| "server_do env tfd (Body_error i msg) = when_reading i (on_new_message_error msg i)"

inductive server_reachable ::
  "'g frontend_env \<Rightarrow> (('g, 'w, pb_buffer) handler \<Rightarrow> ('g, 'w, pb_buffer) handler) \<Rightarrow> ('g, 'w) server \<Rightarrow> bool"
  for env tfd where
  start: "refs_ok (base_stack b) \<Longrightarrow> surfaces (base_stack b) = [] \<Longrightarrow> server_reachable env tfd (new_server (new_shell b))"
| event: "server_reachable env tfd s \<Longrightarrow> server_do env tfd e s = (x, t) \<Longrightarrow> \<forall>w. x \<noteq> Undefined w
    \<Longrightarrow> server_reachable env tfd t"

lemma server_do_keeps:
  assumes "generated_default tfd"
  shows "triple server_ok (server_do env tfd e) (\<lambda>_. server_ok) server_ok"
proof (cases e)
  case (Body_error i msg)
  show ?thesis
    unfolding Body_error server_do.simps on_new_message_error_def
    by (intro when_reading_keeps stays_seq remove_connection_keeps triple_throw)
qed (simp_all add: on_new_connection_keeps receive_bytes_keeps on_read_size_error_keeps when_reading_keeps
    on_new_message_keeps [OF assms])

lemma server_reachable_ok: "server_reachable env tfd s \<Longrightarrow> generated_default tfd \<Longrightarrow> server_ok s"
proof (induction rule: server_reachable.induct)
  case (start b)
  then show ?case
    using shell_ok_new [of b]
    by (simp add: server_ok_def new_server_def start_accept_def communicator_next_id_def sbind_def modify_def
        held_by_def conn_pointers_def new_shell_def)
next
  case (event s e x t)
  from tripleD [OF server_do_keeps [OF event.prems] event.IH [OF event.prems] event.hyps(2,3)]
  show ?case by (cases x) simp_all
qed

fun server_run ::
  "'g frontend_env \<Rightarrow> (('g, 'w, pb_buffer) handler \<Rightarrow> ('g, 'w, pb_buffer) handler) \<Rightarrow> server_event list
   \<Rightarrow> ('g, 'w) server \<Rightarrow> ('g, 'w) server option" where
  "server_run env tfd [] s = Some s"
| "server_run env tfd (e # es) s =
     (case server_do env tfd e s of (Undefined w, t) \<Rightarrow> None | (_, t) \<Rightarrow> server_run env tfd es t)"

lemma server_run_reachable:
  "server_reachable env tfd s \<Longrightarrow> server_run env tfd es s = Some t \<Longrightarrow> server_reachable env tfd t"
proof (induction es arbitrary: s)
  case Nil
  then show ?case by simp
next
  case (Cons e es)
  obtain x u where u: "server_do env tfd e s = (x, u)" by fastforce
  with Cons.prems(2) have "\<forall>w. x \<noteq> Undefined w" "server_run env tfd es u = Some t"
    by (auto split: res.splits)
  then show ?case
    using Cons.IH server_reachable.event [OF Cons.prems(1) u] by blast
qed

definition sample_server :: "(gbm_allocator, nat) server" where
  "sample_server = new_server (new_shell sample_base)"

definition sample_events :: "server_event list" where
  "sample_events = [New_connection False, Bytes_arrive 0 (whole_message [1]), Message_complete 0 0,
     Bytes_arrive 0 (whole_message [2]), Message_complete 0 0]"

lemma sample_server_run:
  "map_option (\<lambda>s. (map (\<lambda>p. (fst p, conn_session (snd p))) (shell_list s), apps (srv_shell s),
      session_holders (srv_shell s), map fst (live_sessions (srv_shell s)), map fst (surfaces (shell_stack (srv_shell s)))))
    (server_run sample_frontend (\<lambda>d. d) sample_events sample_server)
   = Some ([(0, Some 0)], [0], [0], [0], [0])"
  by code_simp

lemma sample_server_reachable: "server_reachable sample_frontend tfd sample_server"
  unfolding sample_server_def
  by (rule server_reachable.start) (simp_all add: sample_base_def sample_stack_def new_surface_stack_def refs_ok_def)

lemma generated_default_id: "generated_default (\<lambda>d. d)"
  by (simp add: generated_default_def)

section \<open>Properties\<close>

lemma server_sessions_in_order_parts:
  assumes "server_reachable env tfd s" and "generated_default tfd"
  shows "mset (session_holders (srv_shell s)) = conn_pointers (shell_list s)"
    and "owned (srv_shell s) = live (srv_shell s)"
    and "map_of (shell_list s) i = Some c \<Longrightarrow> conn_session c = Some r \<Longrightarrow> \<exists>a. session_at r (srv_shell s) = Some a"
    and "r \<in> set (apps (srv_shell s)) \<Longrightarrow> session_at r (srv_shell s) = Some a \<Longrightarrow> q \<in> set (session_refs a) \<Longrightarrow>
      visibility (shell_stack (srv_shell s)) q = Some (focus_application (srv_shell s) \<noteq> Some r)"
proof -
  have s: "server_ok s" using assms by (rule server_reachable_ok)
  then have sh: "shell_ok (srv_shell s)" by (simp add: server_ok_def held_by_def)
  show h: "mset (session_holders (srv_shell s)) = conn_pointers (shell_list s)"
    using s by (simp add: server_ok_def held_by_def)
  show "owned (srv_shell s) = live (srv_shell s)" using sh by (simp add: shell_ok_def)
  show "\<exists>a. session_at r (srv_shell s) = Some a" if "map_of (shell_list s) i = Some c" "conn_session c = Some r"
  proof -
    have "r \<in># conn_pointers (shell_list s)"
      using s that conn_pointers_erase [of "shell_list s" i c] by (simp add: server_ok_def conn_pointer_def)
    then have "r \<in> set (session_holders (srv_shell s))" using h by (metis set_mset_mset)
    then show ?thesis by (rule holder_at [OF sh]) blast
  qed
  show "visibility (shell_stack (srv_shell s)) q = Some (focus_application (srv_shell s) \<noteq> Some r)"
    if "r \<in> set (apps (srv_shell s))" "session_at r (srv_shell s) = Some a" "q \<in> set (session_refs a)"
    using sh that by (simp add: shell_ok_def focus_shown_def)
qed

text \<open>C27: Whatever bytes the clients send, in whatever order connections come, go and fail, the
  frontend holds exactly one pointer to the session of each connection that has one and no other,
  every such session exists, every session that exists is referred to, and of the sessions in the
  container only the one with the focus is visible.\<close>

theorem server_sessions_in_order:
  assumes "server_reachable env tfd s" and "generated_default tfd"
  shows "mset (session_holders (srv_shell s)) = conn_pointers (shell_list s)
    \<and> owned (srv_shell s) = live (srv_shell s)
    \<and> (\<forall>i c r. map_of (shell_list s) i = Some c \<longrightarrow> conn_session c = Some r \<longrightarrow> (\<exists>a. session_at r (srv_shell s) = Some a))
    \<and> (\<forall>r a q. r \<in> set (apps (srv_shell s)) \<longrightarrow> session_at r (srv_shell s) = Some a \<longrightarrow> q \<in> set (session_refs a) \<longrightarrow>
      visibility (shell_stack (srv_shell s)) q = Some (focus_application (srv_shell s) \<noteq> Some r))"
  using server_sessions_in_order_parts [OF assms] by (intro conjI allI impI)

theorem server_sessions_in_order_witness:
  "\<exists>s a. server_run sample_frontend (\<lambda>d. d) sample_events sample_server = Some s
     \<and> map (\<lambda>p. (fst p, conn_session (snd p))) (shell_list s) = [(0, Some 0)]
     \<and> mset (session_holders (srv_shell s)) = conn_pointers (shell_list s)
     \<and> owned (srv_shell s) = live (srv_shell s) \<and> session_at 0 (srv_shell s) = Some a
     \<and> (\<forall>q \<in> set (session_refs a). visibility (shell_stack (srv_shell s)) q = Some (focus_application (srv_shell s) \<noteq> Some 0))"
proof -
  obtain s where s: "server_run sample_frontend (\<lambda>d. d) sample_events sample_server = Some s"
      and l: "map (\<lambda>p. (fst p, conn_session (snd p))) (shell_list s) = [(0, Some 0)]" and a: "apps (srv_shell s) = [0]"
    using sample_server_run by (auto simp: map_option_case split: option.splits)
  have reach: "server_reachable sample_frontend (\<lambda>d. d) s"
    by (rule server_run_reachable [OF sample_server_reachable s])
  note order = server_sessions_in_order [OF reach generated_default_id]
  obtain c where c: "shell_list s = [(0, c)]" "conn_session c = Some 0" using l by auto
  have "map_of (shell_list s) 0 = Some c" using c(1) by simp
  with order c(2) obtain a where a0: "session_at 0 (srv_shell s) = Some a" by blast
  have "0 \<in> set (apps (srv_shell s))" using a by simp
  then have "\<forall>q \<in> set (session_refs a). visibility (shell_stack (srv_shell s)) q = Some (focus_application (srv_shell s) \<noteq> Some 0)"
    using order a0 by blast
  with s l order [THEN conjunct1] order [THEN conjunct2, THEN conjunct1] a0 show ?thesis
    by (intro exI [of _ s] exI [of _ a] conjI)
qed

end
