(* ===== verification/Lost_Clients.thy ===== *)
theory Lost_Clients
  imports Frontend_Invariants
begin

text \<open>
  What becomes of the server when a client goes away without \<^verbatim>\<open>disconnect\<close>. The handlers run in threads
  of \<^verbatim>\<open>io_service::run\<close> that nothing guards (\<^verbatim>\<open>ProtobufSocketCommunicator::start\<close>): an exception that
  leaves a handler ends the process. A read that ends in an error between two messages leaves the
  connection without a read, and its session with nobody who could close it.
\<close>

section \<open>The process\<close>

text \<open>\<open>Terminated\<close> is \<^verbatim>\<open>std::terminate\<close> on an exception, \<open>Broken\<close> is undefined behaviour. A handler that
  waits keeps its thread; the other threads go on.\<close>

datatype ('g, 'w) server_process =
    Running "('g, 'w) server"
  | Terminated exn
  | Broken string

fun process_do ::
  "'g frontend_env \<Rightarrow> (('g, 'w, pb_buffer) handler \<Rightarrow> ('g, 'w, pb_buffer) handler) \<Rightarrow> server_event
   \<Rightarrow> ('g, 'w) server_process \<Rightarrow> ('g, 'w) server_process" where
  "process_do env tfd e (Running s) =
     (case server_do env tfd e s of
        (Returns _, t) \<Rightarrow> Running t
      | (Blocks, t) \<Rightarrow> Running t
      | (Throws x, t) \<Rightarrow> Terminated x
      | (Undefined w, t) \<Rightarrow> Broken w)"
| "process_do env tfd e (Terminated x) = Terminated x"
| "process_do env tfd e (Broken w) = Broken w"

fun process_run ::
  "'g frontend_env \<Rightarrow> (('g, 'w, pb_buffer) handler \<Rightarrow> ('g, 'w, pb_buffer) handler) \<Rightarrow> server_event list
   \<Rightarrow> ('g, 'w) server_process \<Rightarrow> ('g, 'w) server_process" where
  "process_run env tfd [] p = p"
| "process_run env tfd (e # es) p = process_run env tfd es (process_do env tfd e p)"

lemma process_run_ended [simp]:
  "process_run env tfd es (Terminated x) = Terminated x" "process_run env tfd es (Broken w) = Broken w"
  by (induction es) simp_all

lemma process_do_RunningE:
  assumes "process_do env tfd e p = Running t"
  obtains s x where "p = Running s" and "server_do env tfd e s = (x, t)" and "\<forall>w. x \<noteq> Undefined w"
  using assms by (cases p) (auto split: prod.splits res.splits)

lemma process_run_Running:
  assumes "process_run env tfd es (Running s) = Running t" and "P s"
    and "\<And>s e x t. P s \<Longrightarrow> server_do env tfd e s = (x, t) \<Longrightarrow> \<forall>w. x \<noteq> Undefined w \<Longrightarrow> P t"
  shows "P t"
  using assms(1,2)
proof (induction es arbitrary: s)
  case (Cons e es)
  then obtain u where u: "process_do env tfd e (Running s) = Running u" "process_run env tfd es (Running u) = Running t"
    by (cases "process_do env tfd e (Running s)") auto
  then have "P u"
    by (elim process_do_RunningE) (use assms(3) Cons.prems(2) in blast)
  with u(2) show ?case by (rule Cons.IH)
qed simp

section \<open>Calls on the shell by others\<close>

text \<open>Session \<open>r\<close> is in the container and in the state \<open>a\<close>.\<close>

definition registered :: "session_ref \<Rightarrow> application_session \<Rightarrow> ('g, 'w) shell \<Rightarrow> bool" where
  "registered r a s \<longleftrightarrow> r \<in> set (apps s) \<and> session_at r s = Some a \<and> r < next_session s"

lemma registered_on_other: "q \<noteq> r \<Longrightarrow> preserves (registered r a) (on_session q m)"
  by (auto simp: preserves_def registered_def on_session_def session_at_put split: option.splits prod.splits)

lemma registered_on_same:
  fixes m :: "(application_session \<times> ('g, 'w) shell_base, 'a) proc"
  assumes "\<And>p. fst (snd (m p)) = fst p"
  shows "preserves (registered r a) (on_session q m)"
proof (rule preservesI)
  fix s :: "('g, 'w) shell"
  assume s: "registered r a s"
  show "registered r a (snd (on_session q m s))"
  proof (cases "session_at q s")
    case None
    then show ?thesis using s by (simp add: on_session_def)
  next
    case (Some b)
    obtain x b' base where m: "m (b, shell_base s) = (x, b', base)" by (metis prod_cases3)
    then have "b' = b" using assms [of "(b, shell_base s)"] by simp
    then show ?thesis using s Some m by (auto simp: on_session_def registered_def session_at_put)
  qed
qed

lemma same_session_calls:
  "fst (snd (session_show p)) = fst p" "fst (snd (session_hide p)) = fst p"
  "fst (snd (on_self (gets f) p)) = fst p"
  by (auto simp: session_show_def session_hide_def for_session_surfaces_def sbind_def zoom_def gets_def
      split: prod.splits res.splits)

lemma registered_modify [keeps]:
  assumes "\<And>s. set (apps s) \<subseteq> set (apps (f s))" and "\<And>s. live_sessions (f s) = live_sessions s"
    and "\<And>s. next_session (f s) = next_session s"
  shows "preserves (registered r a) (modify f)"
  by (rule preserves_modify) (use assms in \<open>auto simp: registered_def session_at_def\<close>)

lemma registered_focus [keeps]: "preserves (registered r a) (focus_mechanism_set_focus_to f)"
  unfolding focus_mechanism_set_focus_to_def for_each_session_def focus_visit_def set_input_focus_to_def
  by (intro keeps registered_on_same same_session_calls) simp_all

lemma registered_set_focus_to [keeps]: "preserves (registered r a) (set_focus_to f)"
  unfolding set_focus_to_def by (intro keeps) simp_all

lemma map_of_filter_other: "r \<noteq> q \<Longrightarrow> map_of (filter (\<lambda>p. fst p \<noteq> q) xs) r = map_of xs r"
  by (induction xs) auto

lemma registered_collect [keeps]: "preserves (registered r a :: ('g, 'w) shell \<Rightarrow> bool) (collect_session q)"
proof (cases "q = r")
  case True
  then show ?thesis by (simp add: preserves_def collect_session_def registered_def)
next
  case False
  have "preserves (registered r a :: ('g, 'w) shell \<Rightarrow> bool)
      (seq (on_session q destroy_session_object) (modify (\<lambda>s. s\<lparr>live_sessions := filter (\<lambda>p. fst p \<noteq> q) (live_sessions s)\<rparr>)))"
    using False
    by (intro preserves_seq registered_on_other preserves_modify)
      (auto simp: registered_def session_at_def map_of_filter_other)
  then show ?thesis by (simp add: preserves_def collect_session_def)
qed

lemma registered_release [keeps]: "preserves (registered r a) (release_session q)"
  unfolding release_session_def by (intro keeps) simp_all

lemma registered_close:
  assumes "q \<noteq> r"
  shows "preserves (registered r a) (close_session q)"
proof -
  have "preserves (registered r a) (remove_session q)"
    using assms by (auto simp: preserves_def remove_session_def registered_def session_at_def)
  then show ?thesis unfolding close_session_def by (intro keeps) simp_all
qed

lemma registered_make [keeps]: "preserves (registered r a) (make_session name)"
  by (auto simp: preserves_def make_session_def registered_def session_at_def map_add_def split: option.splits)

lemma registered_open [keeps]: "preserves (registered r a) (open_session name)"
  unfolding open_session_def insert_session_def by (intro keeps) auto

lemma open_session_fresh: "open_session name s = (Returns q, t) \<Longrightarrow> q = next_session s"
  by (auto simp: open_session_def make_session_def sbind_Returns seq_def ret_def insert_session_def modify_def
      split: prod.splits)

lemma registered_tag [keeps]: "preserves (registered r a) (tag_session_with_lightdm_id q i)"
  unfolding tag_session_with_lightdm_id_def by (intro keeps) simp_all

lemma registered_focus_lightdm [keeps]: "preserves (registered r a) (focus_session_with_lightdm_id i)"
  unfolding focus_session_with_lightdm_id_def by (intro keeps)

lemma registered_create:
  "q \<noteq> r \<Longrightarrow> preserves (registered r a) (create_surface_for env q params)"
  unfolding create_surface_for_def by (intro keeps registered_on_other)

section \<open>Handlers of other connections\<close>

text \<open>The mediator has another session or none.\<close>

definition elsewhere :: "session_ref \<Rightarrow> application_session \<Rightarrow> ('g, 'w) mediator \<Rightarrow> bool" where
  "elsewhere r a m \<longleftrightarrow> med_session m \<noteq> Some r \<and> registered r a (med_shell m)"

lemma elsewhere_on_shell: "preserves (registered r a) f \<Longrightarrow> preserves (elsewhere r a) (on_shell f)"
  unfolding on_shell_def by (erule preserves_zoom) (simp_all add: elsewhere_def)

lemma elsewhere_on_shell_stack [keeps]: "preserves (elsewhere r a) (on_shell_stack f)"
  unfolding on_shell_stack_def
  by (rule elsewhere_on_shell)
    (auto simp: preserves_def zoom_def registered_def session_at_def split: prod.splits)

lemma elsewhere_on_mediator:
  "preserves (elsewhere r a) f \<Longrightarrow> preserves (\<lambda>p. elsewhere r a (fst p)) (on_mediator f)"
  by (rule preserves_zoom [where Q = "elsewhere r a"]) simp_all

lemma elsewhere_respond [keeps]: "preserves (\<lambda>p. elsewhere r a (fst p)) (respond f)"
  by (simp add: respond_def preserves_def modify_def)

lemma elsewhere_small [keeps]:
  "preserves (elsewhere r a) (save key v)" "preserves (elsewhere r a) (free key)"
  "preserves (elsewhere r a) (send env body)" "preserves (elsewhere r a) (send_fds fds)"
  "preserves (elsewhere r a) (get_platform_package env)" "preserves (elsewhere r a) valid_session"
  by (auto simp: preserves_def elsewhere_def save_def free_def modify_def send_def send_fds_def ret_def Let_def
      get_platform_package_def valid_session_def split: option.splits)

lemma elsewhere_assign: "s \<noteq> Some r \<Longrightarrow> preserves (elsewhere r a) (assign_session s)"
  unfolding assign_session_def
  by (intro keeps elsewhere_on_shell preserves_modify) (simp add: elsewhere_def)

lemma elsewhere_take_client_buffer [keeps]: "preserves (elsewhere r a) (take_client_buffer sh)"
  unfolding take_client_buffer_def by (intro keeps)

lemma elsewhere_find_surface [keeps]: "preserves (elsewhere r a) (find_surface q i)"
  unfolding find_surface_def by (intro elsewhere_on_shell registered_on_same) simp

lemma elsewhere_with_session:
  assumes "\<And>q. q \<noteq> r \<Longrightarrow> preserves (\<lambda>p. elsewhere r a (fst p)) (f q)"
  shows "preserves (\<lambda>p. elsewhere r a (fst p)) (sbind (on_mediator valid_session) f)"
proof (rule preservesI)
  fix p :: "('a, 'b) mediator \<times> 'c"
  assume p: "elsewhere r a (fst p)"
  show "elsewhere r a (fst (snd (sbind (on_mediator valid_session) f p)))"
  proof (cases "med_session (fst p)")
    case None
    then show ?thesis using p by (simp add: sbind_def zoom_def valid_session_def)
  next
    case (Some q)
    then have "q \<noteq> r" using p by (auto simp: elsewhere_def)
    from preservesD [OF assms [OF this] p] Some show ?thesis
      by (simp add: sbind_def zoom_def valid_session_def)
  qed
qed

lemma elsewhere_with_new_session:
  assumes "\<And>q. q \<noteq> r \<Longrightarrow> preserves (\<lambda>p. elsewhere r a (fst p)) (f q)"
  shows "preserves (\<lambda>p. elsewhere r a (fst p)) (sbind (on_mediator (on_shell (open_session name))) f)"
proof (rule preservesI)
  fix p :: "('a, 'b) mediator \<times> 'c"
  assume p: "elsewhere r a (fst p)"
  obtain x sh where o: "open_session name (med_shell (fst p)) = (x, sh)" by fastforce
  let ?p = "((fst p)\<lparr>med_shell := sh\<rparr>, snd p)"
  have "registered r a sh"
    by (rule preserves_step [OF registered_open _ o]) (use p in \<open>simp add: elsewhere_def\<close>)
  then have p': "elsewhere r a (fst ?p)" using p by (simp add: elsewhere_def)
  have run: "on_mediator (on_shell (open_session name)) p = (x, ?p)"
    using o by (simp add: zoom_def on_shell_def)
  show "elsewhere r a (fst (snd (sbind (on_mediator (on_shell (open_session name))) f p)))"
  proof (cases x)
    case (Returns q)
    then have "q \<noteq> r" using open_session_fresh [of name "med_shell (fst p)" q sh] o p
      by (auto simp: elsewhere_def registered_def)
    from preservesD [OF assms [OF this] p'] run Returns show ?thesis by (simp add: sbind_def)
  qed (use run p' in \<open>simp_all add: sbind_def\<close>)
qed

lemmas elsewhere_steps = elsewhere_with_session elsewhere_with_new_session elsewhere_on_mediator elsewhere_on_shell
  elsewhere_assign registered_create registered_close registered_on_other

abbreviation away :: "session_ref \<Rightarrow> application_session \<Rightarrow> ('g, 'w) mediator \<times> 'r \<Rightarrow> bool" where
  "away r a p \<equiv> elsewhere r a (fst p)"

lemma elsewhere_connect: "preserves (away r a) d \<Longrightarrow> preserves (away r a) (connect env key cp d)"
  unfolding connect_def by (intro elsewhere_steps keeps) simp_all

lemma elsewhere_create_surface: "preserves (away r a) d \<Longrightarrow> preserves (away r a) (create_surface_request env key sp d)"
  unfolding create_surface_request_def by (intro elsewhere_steps keeps)

lemma elsewhere_next_buffer: "preserves (away r a) d \<Longrightarrow> preserves (away r a) (next_buffer key i d)"
  unfolding next_buffer_def by (intro elsewhere_steps keeps)

lemma elsewhere_release_surface: "preserves (away r a) d \<Longrightarrow> preserves (away r a) (release_surface i d)"
  unfolding release_surface_def by (intro elsewhere_steps keeps)

lemma elsewhere_select_focus: "preserves (away r a) d \<Longrightarrow> preserves (away r a) (select_focus_by_lightdm_id i d)"
  unfolding select_focus_by_lightdm_id_def by (intro elsewhere_steps keeps)

lemma elsewhere_configure: "preserves (away r a) d \<Longrightarrow> preserves (away r a) (configure_surface_request setting d)"
  unfolding configure_surface_request_def Let_def by (intro elsewhere_steps keeps)

lemma elsewhere_disconnect: "preserves (away r a) d \<Longrightarrow> preserves (away r a) (disconnect d)"
  unfolding disconnect_def by (intro elsewhere_steps keeps) simp_all

lemma elsewhere_drm_auth_magic: "preserves (away r a) d \<Longrightarrow> preserves (away r a) (drm_auth_magic env magic d)"
  unfolding drm_auth_magic_def
  by (intro elsewhere_steps keeps)
    (auto simp: preserves_def elsewhere_def respond_def modify_def throw_def zoom_def split: exn.splits)

lemma elsewhere_send:
  "preserves (away r a) (send_with_fds env wrap extract key i)" "preserves (away r a) (send_plain env wrap i)"
  unfolding send_with_fds_def send_plain_def send_message_def by (intro elsewhere_on_mediator keeps)+

lemma preserves_triple: "preserves P m \<Longrightarrow> triple P m (\<lambda>_. P) P"
  by (rule tripleI) (auto dest: preserves_step split: res.splits)

lemma elsewhere_process_message:
  assumes "generated_default tfd"
  shows "triple (elsewhere r a) (process_message env tfd key msg) (\<lambda>_. elsewhere r a) (elsewhere r a)"
proof -
  have "triple (elsewhere r a) (call_method env tfd key call) (\<lambda>_. elsewhere r a) (elsewhere r a)" for call
    unfolding call_method_def Let_def send_connection_response_def send_surface_response_def send_buffer_response_def
    by (intro triple_if stays_seq triple_ret invoke_keeps generated_default_keeps [OF assms] preserves_triple
        elsewhere_send elsewhere_connect elsewhere_create_surface elsewhere_next_buffer elsewhere_release_surface
        elsewhere_drm_auth_magic elsewhere_select_focus elsewhere_configure elsewhere_disconnect)
  then show ?thesis
    unfolding process_message_def dispatch_def by (intro triple_try_catch triple_ret)
qed

section \<open>Connections without a read\<close>

text \<open>No connection that is still read from has session \<open>r\<close>.\<close>

definition abandoned :: "session_ref \<Rightarrow> application_session \<Rightarrow> ('g, 'w) server \<Rightarrow> bool" where
  "abandoned r a s \<longleftrightarrow> registered r a (srv_shell s)
     \<and> (\<forall>j c. map_of (shell_list s) j = Some c \<longrightarrow> conn_session c = Some r \<longrightarrow> \<not> conn_reading c)"

lemma abandoned_remove: "preserves (abandoned r a) (remove_connection i)"
proof -
  have "preserves (abandoned r a) (modify (\<lambda>s. s\<lparr>shell_list := connected_remove i (shell_list s)\<rparr>))"
    by (rule preserves_modify) (simp add: abandoned_def connected_remove_def)
  moreover have "preserves (abandoned r a) (on_server_shell (release_session q))" for q
    unfolding on_server_shell_def by (rule preserves_zoom [OF registered_release]) (simp_all add: abandoned_def)
  ultimately show ?thesis unfolding remove_connection_def by (intro keeps)
qed

lemma abandoned_put:
  "abandoned r a s \<Longrightarrow> elsewhere r a m \<Longrightarrow> abandoned r a (put_mediator i input m s)"
  by (simp add: abandoned_def elsewhere_def put_mediator_def)

lemma abandoned_message:
  assumes tfd: "generated_default tfd" and s: "abandoned r a s" "pending_read i s"
    and run: "on_new_message env tfd key i s = (x, t)" and x: "\<forall>w. x \<noteq> Undefined w"
  shows "abandoned r a t"
proof (cases "\<exists>c body rest. map_of (shell_list s) i = Some c \<and> read_frame (conn_input c) = Some (body, rest)")
  case False
  then show ?thesis using run s(1) by (auto simp: on_new_message_def split: option.splits)
next
  case True
  then obtain c body rest where c: "map_of (shell_list s) i = Some c" and f: "read_frame (conn_input c) = Some (body, rest)"
    by blast
  obtain y m where y: "process_message env tfd key body (mediator_of c s) = (y, m)" by fastforce
  have before: "elsewhere r a (mediator_of c s)"
    using s c by (auto simp: elsewhere_def abandoned_def mediator_of_def pending_read_def)
  have y_defined: "\<forall>w. y \<noteq> Undefined w" using run c f y x by (auto simp: on_new_message_def)
  from tripleD [OF elsewhere_process_message [OF tfd] before y this] have "elsewhere r a m" by (cases y) simp_all
  then have put: "abandoned r a (put_mediator i rest m s)" by (rule abandoned_put [OF s(1)])
  show ?thesis
  proof (cases "y = Returns False")
    case True
    then have "remove_connection i (put_mediator i rest m s) = (x, t)" using run c f y by (simp add: on_new_message_def)
    then show ?thesis by (rule preserves_step [OF abandoned_remove put])
  next
    case False
    then have "t = put_mediator i rest m s"
      using run c f y y_defined by (cases y) (auto simp: on_new_message_def split: bool.splits)
    then show ?thesis using put by simp
  qed
qed

lemma abandoned_update:
  assumes "\<And>c. conn_session (f c) = conn_session c" and "\<And>c. conn_reading (f c) \<Longrightarrow> conn_reading c"
  shows "preserves (abandoned r a) (modify (\<lambda>s. case map_of (shell_list s) i of None \<Rightarrow> s
      | Some c \<Rightarrow> s\<lparr>shell_list := omap_set i (f c) (shell_list s)\<rparr>))"
  by (rule preserves_modify) (use assms in \<open>auto simp: abandoned_def split: option.splits if_splits\<close>)

lemma abandoned_new_connection: "preserves (abandoned r a) (on_new_connection e)"
proof -
  have "preserves (abandoned r a) (modify (\<lambda>s. s\<lparr>shell_list := connected_add i new_connection (shell_list s)\<rparr>))" for i
    by (rule preserves_modify) (simp add: abandoned_def connected_add_def new_connection_def)
  moreover have "preserves (abandoned r a) start_accept"
    by (simp add: preserves_def start_accept_def communicator_next_id_def sbind_def modify_def abandoned_def)
  ultimately show ?thesis
    unfolding on_new_connection_def add_connection_def by (intro keeps abandoned_remove)
qed

lemma when_reading_cases:
  "when_reading i h s = (if pending_read i s then h s else (Returns (), s))"
  by (simp add: when_reading_def run_if_def proc_simps)

lemma abandoned_event:
  assumes "generated_default tfd" and "abandoned r a s" and "server_do env tfd e s = (x, t)" and "\<forall>w. x \<noteq> Undefined w"
  shows "abandoned r a t"
proof (cases e)
  case (New_connection b)
  then show ?thesis using preserves_step [OF abandoned_new_connection assms(2)] assms(3) by simp
next
  case (Bytes_arrive i bs)
  have "preserves (abandoned r a) (receive_bytes i bs)"
    unfolding receive_bytes_def by (rule abandoned_update) simp_all
  from preserves_step [OF this assms(2)] show ?thesis using assms(3) Bytes_arrive by simp
next
  case (Message_complete i key)
  then show ?thesis
    using abandoned_message [OF assms(1,2) _ _ assms(4)] assms(2,3)
    by (auto simp: when_reading_cases split: if_splits)
next
  case (Size_error i)
  have "preserves (abandoned r a) (on_read_size_error i)"
    unfolding on_read_size_error_def by (rule abandoned_update) simp_all
  from preserves_step [OF this assms(2)] show ?thesis
    using assms(2,3) Size_error by (auto simp: when_reading_cases split: if_splits)
next
  case (Body_error i msg)
  have "preserves (abandoned r a) (on_new_message_error msg i)"
    unfolding on_new_message_error_def by (intro keeps abandoned_remove)
  from preserves_step [OF this assms(2)] show ?thesis
    using assms(2,3) Body_error by (auto simp: when_reading_cases split: if_splits)
qed

section \<open>Properties\<close>

lemma held_once:
  assumes "server_ok s" and "map_of (shell_list s) i = Some c" and "conn_session c = Some r"
    and "map_of (shell_list s) j = Some d" and "conn_session d = Some r"
  shows "j = i"
proof (rule ccontr)
  assume "j \<noteq> i"
  let ?m = "omap_erase i (shell_list s)"
  have wf: "omap_wf (shell_list s)" and h: "distinct (session_holders (srv_shell s))"
      "mset (session_holders (srv_shell s)) = conn_pointers (shell_list s)"
    using assms(1) by (simp_all add: server_ok_def held_by_def)
  have "map_of ?m j = Some d" using assms(4) \<open>j \<noteq> i\<close> by simp
  then have "conn_pointers (shell_list s) = add_mset r (add_mset r (conn_pointers (omap_erase j ?m)))"
    using conn_pointers_erase [OF wf assms(2)] conn_pointers_erase [of ?m j d] assms(3,5) wf
    by (simp add: conn_pointer_def omap_wf_erase)
  then have "2 \<le> count (mset (session_holders (srv_shell s))) r" by (simp add: h(2))
  with h(1) show False by (simp add: distinct_count_atmost_1 split: if_splits)
qed

lemma size_error_abandons:
  assumes s: "server_ok s" and c: "map_of (shell_list s) i = Some c" "conn_reading c" "conn_session c = Some r"
    and r: "r \<in> set (apps (srv_shell s))" "session_at r (srv_shell s) = Some a"
  obtains t where "server_do env tfd (Size_error i) s = (Returns (), t)"
    and "map_of (shell_list t) i = Some (c\<lparr>conn_reading := False\<rparr>)" and "abandoned r a t"
proof -
  let ?t = "s\<lparr>shell_list := omap_set i (c\<lparr>conn_reading := False\<rparr>) (shell_list s)\<rparr>"
  have "r \<in> live (srv_shell s)" using r(2) by (force simp: live_def session_at_def dest: map_of_SomeD)
  then have "registered r a (srv_shell s)"
    using s r by (auto simp: registered_def server_ok_def held_by_def shell_ok_def shell_core_def)
  then have "abandoned r a ?t"
    using held_once [OF s c(1,3)] by (auto simp: abandoned_def split: if_splits)
  moreover have "server_do env tfd (Size_error i) s = (Returns (), ?t)"
    using c by (simp add: when_reading_cases pending_read_def on_read_size_error_def modify_def)
  ultimately show ?thesis by (intro that) simp_all
qed

lemma body_error_terminates:
  assumes "map_of (shell_list s) i = Some c" "conn_reading c" "conn_session c = Some r" "r \<in> set (apps (srv_shell s))"
  shows "process_do env tfd (Body_error i msg) (Running s) = Terminated (runtime_error msg)"
  using assms
  by (simp add: when_reading_cases pending_read_def on_new_message_error_def remove_connection_def connected_remove_def
      on_server_shell_def release_session_def collect_session_def proc_simps)

lemma process_run_reachable:
  "server_reachable env tfd s \<Longrightarrow> process_run env tfd es (Running s) = Running t \<Longrightarrow> server_reachable env tfd t"
  by (rule process_run_Running [where P = "server_reachable env tfd"]) (auto intro: server_reachable.event)

lemma abandoned_for_good:
  assumes "server_reachable env tfd s" and "generated_default tfd" and "abandoned r a s"
    and run: "process_run env tfd es (Running s) = Running t"
  shows "abandoned r a t" and "q \<in> set (session_refs a) \<Longrightarrow>
    visibility (shell_stack (srv_shell t)) q = Some (focus_application (srv_shell t) \<noteq> Some r)"
proof -
  show t: "abandoned r a t"
    using run assms(3) abandoned_event [OF assms(2)] by (rule process_run_Running)
  show "visibility (shell_stack (srv_shell t)) q = Some (focus_application (srv_shell t) \<noteq> Some r)"
    if "q \<in> set (session_refs a)"
    using t server_sessions_in_order_parts(4) [OF process_run_reachable [OF assms(1) run] assms(2) _ _ that]
    by (simp add: abandoned_def registered_def)
qed

text \<open>C28: What a client leaves behind that goes away without \<^verbatim>\<open>disconnect\<close>. If the socket fails
  between two messages the server goes on: the connection stays in the list without a read, and
  whatever happens afterwards, as long as the process runs, its session stays registered in the same
  state, its surfaces stay on the stack and are shown whenever the session has the focus, and no connection
  that is still read from has the session, so nobody can close it. If the socket fails inside a
  message, the exception of the handler ends the process, for all clients.\<close>

theorem lost_client_keeps_session:
  assumes "server_reachable env tfd s" and "generated_default tfd" and "map_of (shell_list s) i = Some c"
    and "conn_reading c" and "conn_session c = Some r" and "r \<in> set (apps (srv_shell s))"
  shows "\<exists>a. session_at r (srv_shell s) = Some a
    \<and> (\<exists>t. process_run env tfd [Size_error i] (Running s) = Running t \<and> connected_includes i (shell_list t))
    \<and> (\<forall>es t. process_run env tfd (Size_error i # es) (Running s) = Running t \<longrightarrow>
         r \<in> set (apps (srv_shell t)) \<and> session_at r (srv_shell t) = Some a
         \<and> (\<forall>q \<in> set (session_refs a).
              visibility (shell_stack (srv_shell t)) q = Some (focus_application (srv_shell t) \<noteq> Some r))
         \<and> (\<forall>j d. map_of (shell_list t) j = Some d \<longrightarrow> conn_session d = Some r \<longrightarrow> \<not> conn_reading d))
    \<and> (\<forall>es msg. process_run env tfd (Body_error i msg # es) (Running s) = Terminated (runtime_error msg))"
proof -
  note s = server_reachable_ok [OF assms(1,2)]
  obtain a where a: "session_at r (srv_shell s) = Some a"
    using server_sessions_in_order_parts(3) [OF assms(1,2,3,5)] by blast
  obtain u where u: "server_do env tfd (Size_error i) s = (Returns (), u)"
      "map_of (shell_list u) i = Some (c\<lparr>conn_reading := False\<rparr>)" "abandoned r a u"
    using size_error_abandons [OF s assms(3-6) a] .
  have reach: "server_reachable env tfd u" by (rule server_reachable.event [OF assms(1) u(1)]) simp
  note after = abandoned_for_good [OF reach assms(2) u(3)]
  show ?thesis
    using a u(1,2) after body_error_terminates [OF assms(3-6)]
    by (intro exI [of _ a]) (auto simp: connected_includes_def abandoned_def registered_def simp del: server_do.simps)
qed

text \<open>After the first client is lost a second one connects and disconnects; bytes for the lost
  connection do nothing.\<close>

definition later_events :: "server_event list" where
  "later_events = [New_connection False, Bytes_arrive 1 (whole_message [1]), Message_complete 1 0,
     Bytes_arrive 0 (whole_message [3]), Message_complete 0 0, Bytes_arrive 1 (whole_message [3]), Message_complete 1 0]"

definition running :: "('g, 'w) server_process \<Rightarrow> ('g, 'w) server option" where
  "running p = (case p of Running s \<Rightarrow> Some s | _ \<Rightarrow> None)"

lemma running_Some: "running p = Some s \<longleftrightarrow> p = Running s"
  by (simp add: running_def split: server_process.splits)

lemma process_run_append: "process_run env tfd (es @ fs) p = process_run env tfd fs (process_run env tfd es p)"
  by (induction es arbitrary: p) simp_all

lemma sample_process_run:
  "map_option (\<lambda>s. (map (\<lambda>p. (fst p, conn_session (snd p), conn_reading (snd p))) (shell_list s), apps (srv_shell s),
      map_option session_refs (session_at 0 (srv_shell s))))
    (running (process_run sample_frontend (\<lambda>d. d) sample_events (Running sample_server)))
   = Some ([(0, Some 0, True)], [0], Some [0])"
  by code_simp

lemma sample_process_later:
  "map_option (\<lambda>s. (map (\<lambda>p. (fst p, conn_session (snd p), conn_reading (snd p))) (shell_list s), focus_application (srv_shell s)))
    (running (process_run sample_frontend (\<lambda>d. d) (sample_events @ Size_error 0 # later_events) (Running sample_server)))
   = Some ([(0, Some 0, False)], Some 0)"
  by code_simp

theorem lost_client_keeps_session_witness:
  "\<exists>s t. process_run sample_frontend (\<lambda>d. d) sample_events (Running sample_server) = Running s
     \<and> process_run sample_frontend (\<lambda>d. d) (Size_error 0 # later_events) (Running s) = Running t
     \<and> apps (srv_shell s) = [0] \<and> 0 \<in> set (apps (srv_shell t))
     \<and> visibility (shell_stack (srv_shell t)) 0 = Some False
     \<and> map (\<lambda>p. (fst p, conn_session (snd p), conn_reading (snd p))) (shell_list t) = [(0, Some 0, False)]
     \<and> process_run sample_frontend (\<lambda>d. d) (Body_error 0 ''End of file'' # later_events) (Running s)
       = Terminated (runtime_error ''End of file'')"
proof -
  let ?run = "process_run sample_frontend (\<lambda>d. d)"
  obtain s where s: "?run sample_events (Running sample_server) = Running s"
      and l: "map (\<lambda>p. (fst p, conn_session (snd p), conn_reading (snd p))) (shell_list s) = [(0, Some 0, True)]"
      and apps: "apps (srv_shell s) = [0]" and refs: "map_option session_refs (session_at 0 (srv_shell s)) = Some [0]"
    using sample_process_run by (auto simp: map_option_case running_Some split: option.splits)
  obtain t where t: "?run (Size_error 0 # later_events) (Running s) = Running t"
      and lt: "map (\<lambda>p. (fst p, conn_session (snd p), conn_reading (snd p))) (shell_list t) = [(0, Some 0, False)]"
      and focus: "focus_application (srv_shell t) = Some 0"
    using sample_process_later s
    by (auto simp: map_option_case process_run_append running_Some simp del: process_run.simps split: option.splits)
  have reach: "server_reachable sample_frontend (\<lambda>d. d) s"
    by (rule process_run_reachable [OF sample_server_reachable s])
  obtain c where c: "map_of (shell_list s) 0 = Some c" "conn_reading c" "conn_session c = Some 0" using l by auto
  have reg: "0 \<in> set (apps (srv_shell s))" using apps by simp
  from lost_client_keeps_session [OF reach generated_default_id c reg] obtain a where
      a: "session_at 0 (srv_shell s) = Some a" and after: "\<And>es t. ?run (Size_error 0 # es) (Running s) = Running t \<Longrightarrow>
         0 \<in> set (apps (srv_shell t)) \<and> (\<forall>q \<in> set (session_refs a).
              visibility (shell_stack (srv_shell t)) q = Some (focus_application (srv_shell t) \<noteq> Some 0))"
      and ended: "?run (Body_error 0 ''End of file'' # later_events) (Running s) = Terminated (runtime_error ''End of file'')"
    by blast
  have "0 \<in> set (session_refs a)" using a refs by simp
  with after [OF t] focus have "0 \<in> set (apps (srv_shell t))" "visibility (shell_stack (srv_shell t)) 0 = Some False"
    by simp_all
  with s t apps lt ended show ?thesis
    by - (rule exI [of _ s], rule exI [of _ t], intro conjI)
qed

end
