(* ===== verification/Wait_Handle.thy ===== *)
theory Wait_Handle
  imports Mir_Prelude
begin

text \<open>
  \<^verbatim>\<open>MirWaitHandle\<close> (\<^verbatim>\<open>client/mir_wait_handle.cpp\<close>): the counter of expected and received results that
  the threads of a client wait on, and the interleavings of threads that use one handle.
\<close>

section \<open>The handle\<close>

record wait_handle =
  expecting :: int
  received :: int

definition new_wait_handle :: wait_handle where
  "new_wait_handle = \<lparr>expecting = 0, received = 0\<rparr>"

text \<open>The counters are \<^verbatim>\<open>int\<close>: counting past the greatest value is undefined.\<close>

definition int_max :: int where
  "int_max = 2147483647"

definition expect_result :: "(wait_handle, unit) proc" where
  "expect_result h =
     (if expecting h = int_max then (Undefined ''signed overflow'', h) else (Returns (), h\<lparr>expecting := expecting h + 1\<rparr>))"

definition result_received :: "(wait_handle, unit) proc" where
  "result_received h =
     (if received h = int_max then (Undefined ''signed overflow'', h) else (Returns (), h\<lparr>received := received h + 1\<rparr>))"

definition must_wait :: "wait_handle \<Rightarrow> bool" where
  "must_wait h \<longleftrightarrow> (expecting h = 0 \<and> received h = 0) \<or> received h < expecting h"

definition wait_for_result :: "(wait_handle, unit) proc" where
  "wait_for_result h = (if must_wait h then (Blocks, h) else (Returns (), h\<lparr>received := 0, expecting := 0\<rparr>))"

section \<open>Threads on one handle\<close>

text \<open>
  A thread inside \<^verbatim>\<open>wait_for_result\<close> is asleep on the condition variable or has been notified (or
  woken spuriously) and tests the condition again once it has the mutex. The totals count what
  has happened since the handle was made.
\<close>

record waiting =
  wh :: wait_handle
  asleep :: "nat set"
  woken :: "nat set"
  total_expected :: nat
  total_received :: nat
  waits_done :: nat

datatype wait_event =
    Expect
  | Receive
  | Wait_call nat
  | Spurious nat
  | Retry nat

definition new_waiting :: waiting where
  "new_waiting = \<lparr>wh = new_wait_handle, asleep = {}, woken = {}, total_expected = 0, total_received = 0, waits_done = 0\<rparr>"

text \<open>The condition is tested with the mutex held: the thread leaves or goes to sleep.\<close>

definition test_condition :: "nat \<Rightarrow> waiting \<Rightarrow> waiting" where
  "test_condition t s =
     (case wait_for_result (wh s) of
        (Returns _, h) \<Rightarrow> s\<lparr>wh := h, woken := woken s - {t}, waits_done := Suc (waits_done s)\<rparr>
      | (_, h) \<Rightarrow> s\<lparr>wh := h, woken := woken s - {t}, asleep := insert t (asleep s)\<rparr>)"

fun wait_do :: "wait_event \<Rightarrow> waiting \<Rightarrow> waiting option" where
  "wait_do Expect s =
     (case expect_result (wh s) of
        (Returns _, h) \<Rightarrow> Some (s\<lparr>wh := h, total_expected := Suc (total_expected s)\<rparr>)
      | _ \<Rightarrow> None)"
| "wait_do Receive s =
     (case result_received (wh s) of
        (Returns _, h) \<Rightarrow> Some (s\<lparr>wh := h, woken := woken s \<union> asleep s, asleep := {}, total_received := Suc (total_received s)\<rparr>)
      | _ \<Rightarrow> None)"
| "wait_do (Wait_call t) s = (if t \<in> asleep s \<union> woken s then None else Some (test_condition t s))"
| "wait_do (Spurious t) s =
     (if t \<in> asleep s then Some (s\<lparr>woken := insert t (woken s), asleep := asleep s - {t}\<rparr>) else None)"
| "wait_do (Retry t) s = (if t \<in> woken s then Some (test_condition t s) else None)"

inductive wait_reachable :: "waiting \<Rightarrow> bool" where
  fresh_handle: "wait_reachable new_waiting"
| wait_step: "wait_reachable s \<Longrightarrow> wait_do e s = Some t \<Longrightarrow> wait_reachable t"

fun wait_run :: "wait_event list \<Rightarrow> waiting \<Rightarrow> waiting option" where
  "wait_run [] s = Some s"
| "wait_run (e # es) s = (case wait_do e s of None \<Rightarrow> None | Some t \<Rightarrow> wait_run es t)"

lemma wait_run_reachable:
  "wait_reachable s \<Longrightarrow> wait_run es s = Some t \<Longrightarrow> wait_reachable t"
  by (induction es arbitrary: s) (auto split: option.splits intro: wait_step)

text \<open>
  Nobody sleeps while the condition holds; a return takes all that was counted, at least one
  result and as many as were expected.
\<close>

definition wait_ok :: "waiting \<Rightarrow> bool" where
  "wait_ok s \<longleftrightarrow> 0 \<le> expecting (wh s) \<and> 0 \<le> received (wh s) \<and> (asleep s = {} \<or> must_wait (wh s))
     \<and> int (waits_done s) + received (wh s) \<le> int (total_received s)
     \<and> received (wh s) - expecting (wh s) \<le> int (total_received s) - int (total_expected s)"

lemma test_condition_ok:
  assumes "wait_ok s"
  shows "wait_ok (test_condition t s)"
proof (cases "must_wait (wh s)")
  case True
  then show ?thesis
    using assms by (simp add: test_condition_def wait_for_result_def wait_ok_def)
next
  case False
  then have "0 < received (wh s)" "expecting (wh s) \<le> received (wh s)" "asleep s = {}"
    using assms by (auto simp: must_wait_def wait_ok_def)
  then show ?thesis
    using False assms by (simp add: test_condition_def wait_for_result_def wait_ok_def)
qed

lemma wait_do_ok:
  assumes "wait_ok s" and "wait_do e s = Some t"
  shows "wait_ok t"
proof (cases e)
  case Expect
  then show ?thesis
    using assms by (auto simp: wait_ok_def must_wait_def expect_result_def split: if_splits)
next
  case Receive
  then show ?thesis
    using assms by (auto simp: wait_ok_def must_wait_def result_received_def split: if_splits)
next
  case (Spurious u)
  then show ?thesis
    using assms by (auto simp: wait_ok_def split: if_splits)
qed (use assms test_condition_ok in \<open>auto split: if_splits\<close>)

lemma new_waiting_ok: "wait_ok new_waiting"
  by (simp add: new_waiting_def new_wait_handle_def wait_ok_def)

lemma wait_reachable_ok: "wait_reachable s \<Longrightarrow> wait_ok s"
  by (induction rule: wait_reachable.induct) (auto intro: new_waiting_ok wait_do_ok)

lemma test_condition_done:
  "waits_done (test_condition t s) = (if must_wait (wh s) then waits_done s else Suc (waits_done s))"
  "wh (test_condition t s) = (if must_wait (wh s) then wh s else new_wait_handle)"
  by (simp_all add: test_condition_def wait_for_result_def new_wait_handle_def)

lemma wait_do_done:
  assumes "wait_do e s = Some t" and "waits_done t \<noteq> waits_done s"
  shows "\<not> must_wait (wh s) \<and> wh t = new_wait_handle \<and> waits_done t = Suc (waits_done s)"
  using assms by (cases e) (auto simp: test_condition_done expect_result_def result_received_def split: if_splits)

section \<open>Properties\<close>

text \<open>C31: However the threads of a client interleave on a wait handle, no wake-up is lost: a
  thread sleeps only while the condition to wait holds, and a woken thread that finds it false
  returns. No wait returns before every result that was announced with \<^verbatim>\<open>expect_result\<close> has been
  received, there are at most as many returns as results, and a return takes all the results
  received so far and starts the handle afresh, so that every other thread on it goes back to sleep.\<close>

theorem wait_handle_rounds:
  assumes "wait_reachable s"
  shows "(asleep s = {} \<or> must_wait (wh s)) \<and> waits_done s \<le> total_received s
    \<and> (\<forall>t \<in> woken s. \<exists>u. wait_do (Retry t) s = Some u
         \<and> (if must_wait (wh s) then t \<in> asleep u else t \<notin> asleep u \<union> woken u \<and> waits_done u = Suc (waits_done s)))
    \<and> (\<forall>e t. wait_do e s = Some t \<longrightarrow> waits_done t \<noteq> waits_done s \<longrightarrow>
         total_expected s \<le> total_received s \<and> must_wait (wh t) \<and> wh t = new_wait_handle)"
proof -
  have ok: "wait_ok s" using assms by (rule wait_reachable_ok)
  then have "asleep s = {} \<or> must_wait (wh s)" "waits_done s \<le> total_received s"
    by (auto simp: wait_ok_def)
  moreover have "\<exists>u. wait_do (Retry t) s = Some u
      \<and> (if must_wait (wh s) then t \<in> asleep u else t \<notin> asleep u \<union> woken u \<and> waits_done u = Suc (waits_done s))"
    if "t \<in> woken s" for t
    using that ok by (auto simp: test_condition_def wait_for_result_def wait_ok_def)
  moreover have "total_expected s \<le> total_received s \<and> must_wait (wh t) \<and> wh t = new_wait_handle"
    if "wait_do e s = Some t" "waits_done t \<noteq> waits_done s" for e t
    using wait_do_done [OF that] ok by (auto simp: wait_ok_def must_wait_def new_wait_handle_def)
  ultimately show ?thesis by blast
qed

definition sample_rounds :: "wait_event list" where
  "sample_rounds = [Expect, Wait_call 1, Wait_call 2, Expect, Receive, Retry 1, Receive]"

lemma sample_rounds_run:
  "map_option (\<lambda>s. (expecting (wh s), received (wh s), waits_done s, total_received s, total_expected s,
      1 \<in> woken s, 2 \<in> woken s)) (wait_run sample_rounds new_waiting) = Some (2, 2, 0, 2, 2, True, True)"
  by code_simp

theorem wait_handle_rounds_witness:
  "\<exists>s u. wait_run sample_rounds new_waiting = Some s \<and> wait_do (Retry 2) s = Some u
     \<and> waits_done u = 1 \<and> must_wait (wh u) \<and> total_expected s \<le> total_received s"
proof -
  obtain s where s: "wait_run sample_rounds new_waiting = Some s"
      and h: "expecting (wh s) = 2" "received (wh s) = 2" "waits_done s = 0" "2 \<in> woken s"
    using sample_rounds_run by (auto simp: map_option_case split: option.splits)
  have reach: "wait_reachable s" by (rule wait_run_reachable [OF fresh_handle s])
  have "\<not> must_wait (wh s)" using h by (simp add: must_wait_def)
  note rounds = wait_handle_rounds [OF reach]
  have "\<exists>u. wait_do (Retry 2) s = Some u \<and> waits_done u = Suc (waits_done s)"
    using rounds h(4) \<open>\<not> must_wait (wh s)\<close> by (metis (no_types, lifting))
  then obtain u where u: "wait_do (Retry 2) s = Some u" "waits_done u = Suc (waits_done s)" by blast
  then have "waits_done u \<noteq> waits_done s" by simp
  with rounds u(1) have "total_expected s \<le> total_received s" "must_wait (wh u)" by blast+
  with s u h(3) show ?thesis by - (rule exI [of _ s], rule exI [of _ u], simp)
qed

end
