(* ===== verification/Rpc_Channel.thy ===== *)
theory Rpc_Channel
  imports Messages Wait_Handle
begin

text \<open>
  The client's end of the socket: \<^verbatim>\<open>PendingCallCache\<close> and \<^verbatim>\<open>MirBasicRpcChannel\<close>
  (\<^verbatim>\<open>client/mir_basic_rpc_channel.cpp\<close>) and \<^verbatim>\<open>MirSocketRpcChannel\<close>
  (\<^verbatim>\<open>client/mir_socket_rpc_channel.cpp\<close>). The channel is a part of the state of its client; the
  messages that responses are parsed into belong to the rest of that state and are reached through
  the interface \<open>reply_store\<close>.
\<close>

section \<open>State\<close>

text \<open>
  \<open>'r\<close> is a pointer to a response message, \<open>'c\<close> the closure to run when it has arrived. What has
  come in on the socket and has not been read yet are bytes and descriptor messages.
\<close>

record ('r, 'c) pending_call =
  pc_send_buffer :: bytes
  pc_response :: 'r
  pc_complete :: 'c

record ('r, 'c) channel =
  next_message_id :: int
  pending_calls :: "(int, ('r, 'c) pending_call) omap"
  cache_locked :: bool
  sent_frames :: "bytes list"
  incoming :: bytes
  fd_messages :: "int list list"
  logged_errors :: "string list"

type_synonym ('r, 'c, 'z, 'a) channel_proc = "(('r, 'c, 'z) channel_scheme, 'a) proc"

definition log_error :: "string \<Rightarrow> ('r, 'c, 'z, unit) channel_proc" where
  "log_error msg = modify (\<lambda>s. s\<lparr>logged_errors := logged_errors s @ [msg]\<rparr>)"

section \<open>Pending calls\<close>

text \<open>The mutex of the cache is not recursive. It is released when the scope is left, by an
  exception as well.\<close>

definition with_cache_lock :: "('r, 'c, 'z, 'a) channel_proc \<Rightarrow> ('r, 'c, 'z, 'a) channel_proc" where
  "with_cache_lock m s =
     (if cache_locked s then (Blocks, s)
      else case m (s\<lparr>cache_locked := True\<rparr>) of
        (Returns a, t) \<Rightarrow> (Returns a, t\<lparr>cache_locked := False\<rparr>)
      | (Throws e, t) \<Rightarrow> (Throws e, t\<lparr>cache_locked := False\<rparr>)
      | (Blocks, t) \<Rightarrow> (Blocks, t)
      | (Undefined w, t) \<Rightarrow> (Undefined w, t))"

text \<open>The ids are unsigned in the messages and signed in the map.\<close>

definition call_key :: "u32 \<Rightarrow> int" where
  "call_key n = s32 (uint n)"

definition save_completion_details :: "invocation \<Rightarrow> 'r \<Rightarrow> 'c \<Rightarrow> ('r, 'c, 'z, unit) channel_proc" where
  "save_completion_details call response complete =
     with_cache_lock (modify (\<lambda>s. s\<lparr>pending_calls :=
       omap_set (call_key (inv_id call)) \<lparr>pc_send_buffer = [], pc_response = response, pc_complete = complete\<rparr>
         (pending_calls s)\<rparr>))"

text \<open>\<open>parse_into\<close> is \<^verbatim>\<open>ParseFromString\<close> on the response, \<open>run\<close> the closure that was saved with it.\<close>

definition complete_response ::
  "('r \<Rightarrow> bytes \<Rightarrow> ('r, 'c, 'z, unit) channel_proc) \<Rightarrow> ('r \<Rightarrow> 'c \<Rightarrow> ('r, 'c, 'z, unit) channel_proc) \<Rightarrow>
   wire_result \<Rightarrow> ('r, 'c, 'z, unit) channel_proc" where
  "complete_response parse_into run result =
     with_cache_lock (sbind (gets (\<lambda>s. map_of (pending_calls s) (call_key (result_id result)))) (\<lambda>call.
       case call of
         None \<Rightarrow> log_error ''orphaned result''
       | Some completion \<Rightarrow>
           seq (parse_into (pc_response completion) (case result_response result of None \<Rightarrow> [] | Some b \<Rightarrow> b))
           (seq (run (pc_response completion) (pc_complete completion))
            (modify (\<lambda>s. s\<lparr>pending_calls := omap_erase (call_key (result_id result)) (pending_calls s)\<rparr>)))))"

section \<open>Calls\<close>

text \<open>\<^verbatim>\<open>id + 1\<close> is computed on \<^verbatim>\<open>int\<close>; the loop with \<^verbatim>\<open>compare_exchange_weak\<close> takes effect at once.\<close>

definition next_message :: "('r, 'c, 'z, int) channel_proc" where
  "next_message s =
     (if next_message_id s = int_max then (Undefined ''signed overflow'', s)
      else (Returns (next_message_id s), s\<lparr>next_message_id := next_message_id s + 1\<rparr>))"

definition invocation_for :: "wire_codec \<Rightarrow> string \<Rightarrow> parameter_message \<Rightarrow> ('r, 'c, 'z, invocation) channel_proc" where
  "invocation_for codec method request =
     sbind next_message (\<lambda>n.
       ret \<lparr>inv_id = word_of_int n, inv_method = method, inv_parameters = serialize_parameters codec request\<rparr>)"

definition send_call :: "int \<Rightarrow> bytes \<Rightarrow> ('r, 'c, 'z, unit) channel_proc" where
  "send_call key body =
     modify (\<lambda>s. s\<lparr>pending_calls := map (\<lambda>(k, p). (k, if k = key then p\<lparr>pc_send_buffer := whole_message body\<rparr> else p)) (pending_calls s),
       sent_frames := sent_frames s @ [whole_message body]\<rparr>)"

definition rpc_call ::
  "wire_codec \<Rightarrow> string \<Rightarrow> parameter_message \<Rightarrow> 'r \<Rightarrow> 'c \<Rightarrow> ('r, 'c, 'z, unit) channel_proc" where
  "rpc_call codec method parameters response complete =
     sbind (invocation_for codec method parameters) (\<lambda>inv.
     seq (save_completion_details inv response complete)
      (send_call (call_key (inv_id inv)) (serialize_invocation codec inv)))"

definition on_message_sent :: "string option \<Rightarrow> ('r, 'c, 'z, unit) channel_proc" where
  "on_message_sent error = (case error of None \<Rightarrow> ret () | Some msg \<Rightarrow> log_error msg)"

section \<open>Descriptors on the side channel\<close>

text \<open>
  \<^verbatim>\<open>while ((received = ancil_recv_fds(...)) == -1)\<close>: the thread spins until a descriptor message is
  there and takes as many as it has room for. The messages with descriptors are a queue of their own:
  that each is carried by a byte of the stream, so that a receiver out of step would take a byte of
  the next frame with it, is left out.
\<close>

definition recv_fds :: "int \<Rightarrow> ('r, 'c, 'z, int list) channel_proc" where
  "recv_fds n s =
     (case fd_messages s of
        [] \<Rightarrow> (Blocks, s)
      | fds # rest \<Rightarrow> (Returns (take (nat n) fds), s\<lparr>fd_messages := rest\<rparr>))"

text \<open>The field counts as 0 when it is not set.\<close>

definition side_fds :: "int option \<Rightarrow> ('r, 'c, 'z, int list) channel_proc" where
  "side_fds announced =
     (case announced of None \<Rightarrow> ret [] | Some n \<Rightarrow> if 0 < n then recv_fds n else ret [])"

definition receive_buffer_fds :: "pb_buffer \<Rightarrow> ('r, 'c, 'z, pb_buffer) channel_proc" where
  "receive_buffer_fds b =
     sbind (side_fds (pb_buffer_side_fds b)) (\<lambda>fds. ret (b\<lparr>pb_buffer_fd := fds\<rparr>))"

definition receive_platform_fds :: "pb_platform \<Rightarrow> ('r, 'c, 'z, pb_platform) channel_proc" where
  "receive_platform_fds p =
     sbind (side_fds (pb_platform_side_fds p)) (\<lambda>fds. ret (p\<lparr>pb_platform_fd := fds\<rparr>))"

definition receive_surface_fds :: "pb_surface \<Rightarrow> ('r, 'c, 'z, pb_surface) channel_proc" where
  "receive_surface_fds sf =
     sbind (side_fds (pb_surface_side_fds sf)) (\<lambda>fds.
       case pb_surface_buffer sf of
         None \<Rightarrow> ret (sf\<lparr>pb_surface_fd := fds\<rparr>)
       | Some b \<Rightarrow> sbind (receive_buffer_fds b) (\<lambda>b'. ret (sf\<lparr>pb_surface_fd := fds, pb_surface_buffer := Some b'\<rparr>)))"

fun receive_file_descriptors :: "result_message \<Rightarrow> ('r, 'c, 'z, result_message) channel_proc" where
  "receive_file_descriptors (R_surface sf) = sbind (receive_surface_fds sf) (\<lambda>x. ret (R_surface x))"
| "receive_file_descriptors (R_buffer b) = sbind (receive_buffer_fds b) (\<lambda>x. ret (R_buffer x))"
| "receive_file_descriptors (R_connection c) =
     (case pb_platform_part c of
        None \<Rightarrow> ret (R_connection c)
      | Some p \<Rightarrow> sbind (receive_platform_fds p) (\<lambda>x. ret (R_connection (c\<lparr>pb_platform_part := Some x\<rparr>))))"
| "receive_file_descriptors r = ret r"

section \<open>Reading\<close>

text \<open>
  How a client holds the messages that responses go to: \<open>get\<close> is \<open>None\<close> when the object that has
  the message has been deleted.
\<close>

record ('r, 's) reply_access =
  get_reply :: "'r \<Rightarrow> 's \<Rightarrow> result_message option"
  put_reply :: "'r \<Rightarrow> result_message \<Rightarrow> 's \<Rightarrow> 's"

definition parse_into ::
  "(response_type \<Rightarrow> bytes \<Rightarrow> result_message) \<Rightarrow> ('r, ('r, 'c, 'z) channel_scheme) reply_access \<Rightarrow> 'r \<Rightarrow> bytes \<Rightarrow>
   ('r, 'c, 'z, unit) channel_proc" where
  "parse_into parse access response body =
     sbind (gets (get_reply access response)) (\<lambda>old.
       case old of
         None \<Rightarrow> undef ''use after free''
       | Some m \<Rightarrow> modify (put_reply access response (parse (type_of_result m) body)))"

definition run_complete ::
  "('r, ('r, 'c, 'z) channel_scheme) reply_access \<Rightarrow> ('c \<Rightarrow> ('r, 'c, 'z, unit) channel_proc) \<Rightarrow> 'r \<Rightarrow> 'c \<Rightarrow>
   ('r, 'c, 'z, unit) channel_proc" where
  "run_complete access run response complete =
     sbind (gets (get_reply access response)) (\<lambda>old.
       case old of
         None \<Rightarrow> undef ''use after free''
       | Some m \<Rightarrow>
           sbind (receive_file_descriptors m) (\<lambda>m'.
           seq (modify (put_reply access response m')) (run complete)))"

definition read_message ::
  "wire_codec \<Rightarrow> (response_type \<Rightarrow> bytes \<Rightarrow> result_message) \<Rightarrow> ('r, ('r, 'c, 'z) channel_scheme) reply_access \<Rightarrow>
   ('c \<Rightarrow> ('r, 'c, 'z, unit) channel_proc) \<Rightarrow> bytes \<Rightarrow> ('r, 'c, 'z, unit) channel_proc" where
  "read_message codec parse access run body =
     try_catch
       (complete_response (parse_into parse access) (run_complete access run) (parse_result codec body))
       (\<lambda>e. log_error ''read_message'')"

text \<open>A header and its body are there; otherwise the channel goes on waiting.\<close>

definition on_header_read ::
  "wire_codec \<Rightarrow> (response_type \<Rightarrow> bytes \<Rightarrow> result_message) \<Rightarrow> ('r, ('r, 'c, 'z) channel_scheme) reply_access \<Rightarrow>
   ('c \<Rightarrow> ('r, 'c, 'z, unit) channel_proc) \<Rightarrow> ('r, 'c, 'z, unit) channel_proc" where
  "on_header_read codec parse access run s =
     (case read_frame (incoming s) of
        None \<Rightarrow> (Returns (), s)
      | Some (body, rest) \<Rightarrow> read_message codec parse access run body (s\<lparr>incoming := rest\<rparr>))"

definition on_header_error :: "bool \<Rightarrow> string \<Rightarrow> ('r, 'c, 'z, unit) channel_proc" where
  "on_header_error eof msg =
     sbind (gets (\<lambda>s. pending_calls s \<noteq> [])) (\<lambda>pending. run_if (pending \<or> \<not> eof) (log_error msg))"

text \<open>An error while the body is read is an exception that \<^verbatim>\<open>read_message\<close> catches.\<close>

definition on_body_error :: "('r, 'c, 'z, unit) channel_proc" where
  "on_body_error = log_error ''read_message''"

definition receive_on_channel :: "bytes \<Rightarrow> ('r, 'c, 'z, unit) channel_proc" where
  "receive_on_channel bs = modify (\<lambda>s. s\<lparr>incoming := incoming s @ bs\<rparr>)"

definition receive_fd_message :: "int list \<Rightarrow> ('r, 'c, 'z, unit) channel_proc" where
  "receive_fd_message fds = modify (\<lambda>s. s\<lparr>fd_messages := fd_messages s @ [fds]\<rparr>)"

end
