(* ===== verification/Client_Buffers.thy ===== *)
theory Client_Buffers
  imports Std_Map Buffers
begin

text \<open>
  The buffers of a client surface (\<^verbatim>\<open>client/aging_buffer.cpp\<close>, \<^verbatim>\<open>client/client_buffer_depository.cpp\<close>)
  and their implementation on GBM (\<^verbatim>\<open>client/gbm/gbm_client_buffer.cpp\<close>) with the handles and mappings it
  takes from the kernel. The depository is compared with a reference that only looks at the
  history of the buffers the server sent.
\<close>

section \<open>Buffers of the client\<close>

text \<open>\<^verbatim>\<open>MirBufferPackage\<close>, with its arrays of fixed length.\<close>

definition mir_buffer_package_max :: nat where
  "mir_buffer_package_max = 32"

record buffer_package =
  pkg_data_items :: int
  pkg_fd_items :: int
  pkg_data :: "int list"
  pkg_fd :: "int list"
  pkg_stride :: int
  pkg_age :: int

definition zero_package :: buffer_package where
  "zero_package = \<lparr>pkg_data_items = 0, pkg_fd_items = 0, pkg_data = replicate mir_buffer_package_max 0,
     pkg_fd = replicate mir_buffer_package_max 0, pkg_stride = 0, pkg_age = 0\<rparr>"

record client_buffer =
  creation_package :: buffer_package
  cb_size :: geom_size
  cb_format :: pixel_format
  buffer_age :: u32

definition increment_age :: "client_buffer \<Rightarrow> client_buffer" where
  "increment_age b = (if buffer_age b \<noteq> 0 then b\<lparr>buffer_age := buffer_age b + 1\<rparr> else b)"

definition mark_as_submitted :: "client_buffer \<Rightarrow> client_buffer" where
  "mark_as_submitted b = b\<lparr>buffer_age := 1\<rparr>"

section \<open>The depository\<close>

text \<open>The iterator to the current buffer is its key, \<open>None\<close> is \<^verbatim>\<open>end()\<close>.\<close>

record depository =
  held_buffers :: "(int, client_buffer) omap"
  current_buffer_iter :: "int option"
  max_age :: u32
  factory_calls :: nat

definition new_depository :: "int \<Rightarrow> depository" where
  "new_depository max_buffers =
     \<lparr>held_buffers = [], current_buffer_iter = None, max_age = word_of_int (max_buffers - 1), factory_calls = 0\<rparr>"

text \<open>A factory may fail; it is asked once per new buffer.\<close>

type_synonym buffer_factory = "nat \<Rightarrow> buffer_package \<Rightarrow> geom_size \<Rightarrow> pixel_format \<Rightarrow> client_buffer res"

definition drop_aged :: "int \<Rightarrow> depository \<Rightarrow> depository" where
  "drop_aged i d = d\<lparr>held_buffers := filter (\<lambda>(k, b).
     \<not> (Some k \<noteq> current_buffer_iter d \<and> k \<noteq> i \<and> max_age d \<le> buffer_age b)) (held_buffers d)\<rparr>"

definition age_buffers :: "depository \<Rightarrow> depository" where
  "age_buffers d = d\<lparr>held_buffers := map (\<lambda>(k, b). (k, increment_age b)) (held_buffers d)\<rparr>"

definition submit_current :: "depository \<Rightarrow> depository" where
  "submit_current d = d\<lparr>held_buffers := map (\<lambda>(k, b).
     (k, if Some k = current_buffer_iter d then mark_as_submitted b else b)) (held_buffers d)\<rparr>"

definition deposit_package ::
  "buffer_factory \<Rightarrow> buffer_package \<Rightarrow> int \<Rightarrow> geom_size \<Rightarrow> pixel_format \<Rightarrow> (depository, unit) proc" where
  "deposit_package create package i sz pf =
     seq (modify (\<lambda>d. submit_current (age_buffers (drop_aged i d))))
      (sbind (gets (\<lambda>d. map_of (held_buffers d) i)) (\<lambda>found.
        case found of
          Some b \<Rightarrow> modify (\<lambda>d. d\<lparr>current_buffer_iter := Some i\<rparr>)
        | None \<Rightarrow>
            sbind (gets factory_calls) (\<lambda>n.
            seq (modify (\<lambda>d. d\<lparr>current_buffer_iter := None, factory_calls := Suc n\<rparr>))
             (sbind (lift_res (create n package sz pf)) (\<lambda>new_buffer.
               modify (\<lambda>d. d\<lparr>held_buffers := omap_set i new_buffer (held_buffers d), current_buffer_iter := Some i\<rparr>))))))"

definition current_buffer :: "(depository, client_buffer) proc" where
  "current_buffer d =
     (case current_buffer_iter d of
        None \<Rightarrow> (Undefined ''dereference of end()'', d)
      | Some k \<Rightarrow> (case map_of (held_buffers d) k of None \<Rightarrow> (Undefined ''dangling iterator'', d) | Some b \<Rightarrow> (Returns b, d)))"

section \<open>The reference: the last buffers of the history\<close>

text \<open>
  The history has the latest deposit first, \<open>None\<close> for one whose buffer could not be created.
  Held are the buffers of the last deposits; the age of a buffer is the number of deposits since
  it was last current, 0 when it has been created for the current deposit.
\<close>

definition position :: "'a \<Rightarrow> 'a list \<Rightarrow> nat" where
  "position y xs = length (takeWhile (\<lambda>x. x \<noteq> y) xs)"

definition reference_age :: "nat \<Rightarrow> int option list \<Rightarrow> int \<Rightarrow> nat option" where
  "reference_age window history x =
     (if Some x \<notin> set (take window history) then None
      else if Some x \<in> set (take window (tl history)) then Some (Suc (position (Some x) (tl history)))
      else Some 0)"

fun reference_calls :: "nat \<Rightarrow> int option list \<Rightarrow> nat" where
  "reference_calls window [] = 0"
| "reference_calls window (c # history) =
     (if c \<noteq> None \<and> c \<in> set (take window history) then 0 else 1) + reference_calls window history"

fun deposits ::
  "buffer_factory \<Rightarrow> (buffer_package \<times> int \<times> geom_size \<times> pixel_format) list \<Rightarrow> int option list \<times> depository
   \<Rightarrow> int option list \<times> depository" where
  "deposits create [] s = s"
| "deposits create ((package, i, sz, pf) # ds) (history, d) =
     (case deposit_package create package i sz pf d of
        (Returns _, e) \<Rightarrow> deposits create ds (Some i # history, e)
      | (_, e) \<Rightarrow> deposits create ds (None # history, e))"

definition deposit_window :: "int \<Rightarrow> nat" where
  "deposit_window max_buffers = max 2 (nat max_buffers)"

section \<open>Equivalence\<close>

lemma position_take: "y \<in> set (take n xs) \<longleftrightarrow> position y xs < n \<and> position y xs < length xs"
proof (induction xs arbitrary: n)
  case (Cons x xs)
  then show ?case by (cases n) (auto simp: position_def)
qed (simp add: position_def)

lemma position_Cons: "position y (x # xs) = (if x = y then 0 else Suc (position y xs))"
  by (simp add: position_def)

lemma map_of_filter_distinct:
  "distinct (map fst m) \<Longrightarrow>
     map_of (filter (\<lambda>(k, b). P k b) m) x = (case map_of m x of Some b \<Rightarrow> if P x b then Some b else None | None \<Rightarrow> None)"
  by (induction m) (auto simp: map_of_eq_None_iff split: option.splits)

lemma map_of_map_values: "map_of (map (\<lambda>(k, b). (k, f k b)) m) x = map_option (f x) (map_of m x)"
  by (induction m) auto

lemma keys_map_values: "map fst (map (\<lambda>(k, b). (k, f k b)) m) = map fst m"
  by (induction m) auto

definition depository_is :: "nat \<Rightarrow> nat \<Rightarrow> int option list \<Rightarrow> depository \<Rightarrow> bool" where
  "depository_is window oldest history d \<longleftrightarrow>
     window = max 2 (Suc oldest) \<and> window < 2 ^ 32 \<and> max_age d = word_of_nat oldest
     \<and> omap_wf (held_buffers d)
     \<and> current_buffer_iter d = (case history of [] \<Rightarrow> None | c # _ \<Rightarrow> c)
     \<and> (\<forall>x. map_option buffer_age (map_of (held_buffers d) x) = map_option word_of_nat (reference_age window history x))
     \<and> factory_calls d = reference_calls window history"

lemma reference_age_bound: "reference_age window history x = Some a \<Longrightarrow> a \<le> window"
  by (auto simp: reference_age_def position_take split: if_splits)

text \<open>The three passes over the buffers, seen from one of them.\<close>

definition passed_age :: "nat \<Rightarrow> int option list \<Rightarrow> int \<Rightarrow> int \<Rightarrow> nat option" where
  "passed_age window history i x =
     (if Some x \<in> set (take (window - 1) history) \<or> x = i \<and> Some x \<in> set (take window history)
      then Some (Suc (position (Some x) history)) else None)"

lemma reference_age_hd:
  assumes "2 \<le> window"
  shows "reference_age window (c # history) x =
    (if Some x = c then Some (if Some x \<in> set (take window history) then Suc (position (Some x) history) else 0)
     else if Some x \<in> set (take (window - 1) history) then Some (Suc (position (Some x) history)) else None)"
proof -
  obtain w where "window = Suc w" using assms by (cases window) auto
  then show ?thesis
    by (auto simp: reference_age_def position_take)
qed

lemma keep_rule:
  assumes "window = max 2 (Suc oldest)" and "reference_age window history x = Some a"
    and "current = (case history of [] \<Rightarrow> None | c # _ \<Rightarrow> c)"
  shows "(Some x = current \<or> x = i \<or> a < oldest) \<longleftrightarrow> passed_age window history i x \<noteq> None"
    and "Some x \<noteq> current \<Longrightarrow> a = position (Some x) history \<and> 0 < a"
    and "Some x = current \<Longrightarrow> position (Some x) history = 0"
proof -
  have held: "Some x \<in> set (take window history)"
    using assms(2) by (simp add: reference_age_def split: if_splits)
  then obtain c h where h: "history = c # h" by (cases history) auto
  show one: "Some x = current \<Longrightarrow> position (Some x) history = 0"
    using assms(3) h by (simp add: position_Cons)
  show two: "a = position (Some x) history \<and> 0 < a" if "Some x \<noteq> current"
  proof -
    have c: "c \<noteq> Some x" using that assms(3) h by auto
    then have "Some x \<in> set (take window h)"
      using held h assms(1) by (cases window) (auto simp: position_take)
    then show ?thesis using assms(2) held c h by (simp add: reference_age_def position_Cons)
  qed
  show "(Some x = current \<or> x = i \<or> a < oldest) \<longleftrightarrow> passed_age window history i x \<noteq> None"
  proof (cases "Some x = current")
    case True
    then show ?thesis
      using one held assms(1) by (auto simp: passed_age_def position_take)
  next
    case False
    then show ?thesis
      using two held assms(1) by (auto simp: passed_age_def position_take)
  qed
qed


lemma passes_map_of:
  assumes "distinct (map fst (held_buffers d))"
  shows "map_of (held_buffers (submit_current (age_buffers (drop_aged i d)))) x =
    (case map_of (held_buffers d) x of
       None \<Rightarrow> None
     | Some b \<Rightarrow>
         if Some x = current_buffer_iter d \<or> x = i \<or> \<not> max_age d \<le> buffer_age b
         then Some (if Some x = current_buffer_iter d then mark_as_submitted (increment_age b) else increment_age b)
         else None)"
  using assms
  by (simp add: submit_current_def age_buffers_def drop_aged_def map_of_map_values map_of_filter_distinct
      del: map_map split: option.split)

lemma passes_ages:
  assumes "depository_is window oldest history d" and "e = submit_current (age_buffers (drop_aged i d))"
  shows "omap_wf (held_buffers e)"
    and "map_option buffer_age (map_of (held_buffers e) x) = map_option word_of_nat (passed_age window history i x)"
proof -
  note d = assms(1) [unfolded depository_is_def]
  have "omap_wf (held_buffers (drop_aged i d))"
    using d by (auto simp: drop_aged_def omap_wf_def sorted_wrt_map intro: sorted_wrt_filter)
  then show "omap_wf (held_buffers e)"
    by (simp add: assms(2) submit_current_def age_buffers_def omap_wf_def keys_map_values del: map_map)
  have dist: "distinct (map fst (held_buffers d))" using d by (simp add: omap_wf_distinct)
  show "map_option buffer_age (map_of (held_buffers e) x) = map_option word_of_nat (passed_age window history i x)"
  proof (cases "reference_age window history x")
    case None
    then have "Some x \<notin> set (take window history)" by (simp add: reference_age_def split: if_splits)
    then have "passed_age window history i x = None" by (auto simp: passed_age_def position_take)
    moreover have "map_of (held_buffers d) x = None" using d None by (metis map_option_is_None)
    ultimately show ?thesis by (simp add: assms(2) passes_map_of [OF dist])
  next
    case (Some a)
    then obtain b where b: "map_of (held_buffers d) x = Some b" "buffer_age b = word_of_nat a"
      using d by (metis (no_types, lifting) map_option_eq_Some option.map(2))
    have small: "a < 2 ^ 32" "Suc a < 2 ^ 32 \<or> a = window" "oldest < 2 ^ 32" using d reference_age_bound [OF Some] by auto
    then have le: "max_age d \<le> buffer_age b \<longleftrightarrow> oldest \<le> a"
      using d b by (simp add: word_le_nat_alt unat_of_nat)
    have nz: "buffer_age b = 0 \<longleftrightarrow> a = 0"
      using small(1) by (auto simp: b(2) word_of_nat_eq_0_iff dest: nat_dvd_not_less)
    have cur: "current_buffer_iter d = (case history of [] \<Rightarrow> None | c # _ \<Rightarrow> c)"
      and w: "window = max 2 (Suc oldest)" using d by blast+
    note keep = keep_rule(1) [OF w Some cur, of i] keep_rule(2,3) [OF w Some cur]
    have pa: "passed_age window history i x =
        (if Some x = current_buffer_iter d \<or> x = i \<or> a < oldest then Some (Suc (position (Some x) history)) else None)"
      using keep(1) by (simp add: passed_age_def split: if_splits)
    show ?thesis
    proof (cases "Some x = current_buffer_iter d")
      case True
      then show ?thesis
        using b(1) keep(3) by (simp add: assms(2) passes_map_of [OF dist] mark_as_submitted_def pa)
    next
      case False
      then have "increment_age b = b\<lparr>buffer_age := word_of_nat (Suc a)\<rparr>"
        using keep(2) nz by (simp add: increment_age_def b(2))
      then show ?thesis
        using b(1) keep(2) le False by (simp add: assms(2) passes_map_of [OF dist] pa not_le)
    qed
  qed
qed


text \<open>A buffer starts with age 0, the value that the constructor of \<^verbatim>\<open>AgingBuffer\<close> gives it.\<close>

definition fresh_factory :: "buffer_factory \<Rightarrow> bool" where
  "fresh_factory create \<longleftrightarrow> (\<forall>n package sz pf b. create n package sz pf = Returns b \<longrightarrow> buffer_age b = 0)"

lemma passed_reference:
  assumes "2 \<le> window"
  shows "c = Some i \<Longrightarrow> reference_age window (c # history) x = (if x = i \<and> passed_age window history i i = None then Some 0
        else passed_age window history i x)"
    and "passed_age window history i i = None \<Longrightarrow> reference_age window (None # history) x = passed_age window history i x"
  using assms by (auto simp: reference_age_hd passed_age_def position_take)

lemma passes_frame [simp]:
  "max_age (submit_current (age_buffers (drop_aged i d))) = max_age d"
  "factory_calls (submit_current (age_buffers (drop_aged i d))) = factory_calls d"
  "current_buffer_iter (submit_current (age_buffers (drop_aged i d))) = current_buffer_iter d"
  by (simp_all add: submit_current_def age_buffers_def drop_aged_def)

lemma deposit_step:
  assumes d: "depository_is window oldest history d" and "fresh_factory create"
    and "deposit_package create package i sz pf d = (r, e)"
  shows "depository_is window oldest ((case r of Returns _ \<Rightarrow> Some i | _ \<Rightarrow> None) # history) e"
proof -
  let ?p = "submit_current (age_buffers (drop_aged i d))"
  note passes = passes_ages [OF d refl, of i]
  have w: "2 \<le> window" and calls: "factory_calls d = reference_calls window history"
    using d by (auto simp: depository_is_def)
  have held: "map_of (held_buffers ?p) i = None \<longleftrightarrow> passed_age window history i i = None"
    using passes(2) [of i] by (metis map_option_is_None)
  have member: "Some i \<in> set (take window history) \<longleftrightarrow> passed_age window history i i \<noteq> None"
    by (auto simp: passed_age_def position_take)
  show ?thesis
  proof (cases "map_of (held_buffers ?p) i")
    case (Some b)
    then have "r = Returns ()" "e = ?p\<lparr>current_buffer_iter := Some i\<rparr>"
      using assms(3) by (simp_all add: deposit_package_def proc_simps)
    moreover have "passed_age window history i i \<noteq> None" using held Some by simp
    ultimately show ?thesis
      using d passes calls member passed_reference(1) [OF w, of "Some i" i history]
      by (auto simp: depository_is_def)
  next
    case None
    then have gone: "passed_age window history i i = None" using held by simp
    let ?q = "?p\<lparr>current_buffer_iter := None, factory_calls := Suc (factory_calls d)\<rparr>"
    show ?thesis
    proof (cases "create (factory_calls d) package sz pf")
      case (Returns b)
      then have r: "r = Returns ()" "e = ?q\<lparr>held_buffers := omap_set i b (held_buffers ?p), current_buffer_iter := Some i\<rparr>"
        using assms(3) None by (simp_all add: deposit_package_def proc_simps)
      moreover have "buffer_age b = 0" using Returns assms(2) by (auto simp: fresh_factory_def)
      ultimately show ?thesis
        using d passes calls member gone passed_reference(1) [OF w, of "Some i" i history]
        by (auto simp: depository_is_def omap_wf_set)
    qed (use assms(3) None d passes calls gone passed_reference(2) [OF w gone] in
        \<open>auto simp: depository_is_def deposit_package_def proc_simps\<close>)
  qed
qed

lemma deposits_step:
  "depository_is window oldest history d \<Longrightarrow> fresh_factory create \<Longrightarrow> deposits create ds (history, d) = (history', d')
    \<Longrightarrow> depository_is window oldest history' d'"
proof (induction ds arbitrary: history d)
  case (Cons x ds)
  obtain package i sz pf where x: "x = (package, i, sz, pf)" by (cases x)
  obtain r e where e: "deposit_package create package i sz pf d = (r, e)" by fastforce
  show ?case
    using Cons.IH [OF deposit_step [OF Cons.prems(1,2) e] Cons.prems(2)] Cons.prems(3) e
    by (cases r) (simp_all add: x)
qed simp

lemma new_depository_is:
  assumes "1 \<le> max_buffers" and "max_buffers \<le> 2147483647"
  shows "depository_is (deposit_window max_buffers) (nat (max_buffers - 1)) [] (new_depository max_buffers)"
proof -
  have "(word_of_nat (nat (max_buffers - 1)) :: u32) = word_of_int (max_buffers - 1)"
    using assms(1) of_int_of_nat_eq [of "nat (max_buffers - 1)", where 'a = u32] by simp
  then show ?thesis
    using assms by (auto simp: depository_is_def new_depository_def deposit_window_def reference_age_def)
qed

section \<open>Buffers on GBM\<close>

text \<open>
  What the kernel answers to the calls on the DRM device, one answer per call: an error number or
  the handle, the offset, the address.
\<close>

record drm_env =
  drm_gem_open :: "nat \<Rightarrow> u32 \<Rightarrow> int + u32"
  drm_map_dumb :: "nat \<Rightarrow> u32 \<Rightarrow> int + u64"
  drm_mmap :: "nat \<Rightarrow> u64 \<Rightarrow> u64 \<Rightarrow> int + nat"

record drm_client =
  drm_calls :: nat
  gem_handles :: "u32 list"
  mappings :: "(nat \<times> u64) list"

text \<open>An answer that is an error number becomes the exception.\<close>

definition drm_call :: "string \<Rightarrow> (nat \<Rightarrow> int + 'a) \<Rightarrow> (drm_client, 'a) proc" where
  "drm_call msg ask s =
     (let s' = s\<lparr>drm_calls := Suc (drm_calls s)\<rparr> in
      case ask (drm_calls s) of Inl err \<Rightarrow> (Throws (errno_error msg err), s') | Inr a \<Rightarrow> (Returns a, s'))"

definition gem_handle_open :: "drm_env \<Rightarrow> u32 \<Rightarrow> (drm_client, u32) proc" where
  "gem_handle_open env gem_name =
     sbind (drm_call ''Failed to open GEM handle for DRM buffer'' (\<lambda>n. drm_gem_open env n gem_name)) (\<lambda>h.
     seq (modify (\<lambda>s. s\<lparr>gem_handles := h # gem_handles s\<rparr>)) (ret h))"

definition gem_handle_close :: "u32 \<Rightarrow> (drm_client, unit) proc" where
  "gem_handle_close h = modify (\<lambda>s. s\<lparr>gem_handles := remove1 h (gem_handles s), drm_calls := Suc (drm_calls s)\<rparr>)"

record memory_region =
  region_size :: geom_size
  region_stride :: dimension
  region_format :: pixel_format
  region_vaddr :: nat
  region_handle :: u32
  size_in_bytes :: u64

text \<open>
  The constructor of \<^verbatim>\<open>GBMMemoryRegion\<close>: when it throws, the handle that it has opened is closed
  again. The product of height and stride is computed with 32 bits.
\<close>

definition new_memory_region ::
  "drm_env \<Rightarrow> u32 \<Rightarrow> geom_size \<Rightarrow> dimension \<Rightarrow> pixel_format \<Rightarrow> (drm_client, memory_region) proc" where
  "new_memory_region env gem_name sz stride pf =
     sbind (gem_handle_open env gem_name) (\<lambda>h.
       let bytes = ucast (height sz * stride) in
       try_catch
        (sbind (drm_call ''Failed to map dumb DRM buffer'' (\<lambda>n. drm_map_dumb env n h)) (\<lambda>offset.
         sbind (drm_call ''Failed to mmap DRM buffer'' (\<lambda>n. drm_mmap env n bytes offset)) (\<lambda>vaddr.
         seq (modify (\<lambda>s. s\<lparr>mappings := (vaddr, bytes) # mappings s\<rparr>))
          (ret \<lparr>region_size = sz, region_stride = stride, region_format = pf, region_vaddr = vaddr,
             region_handle = h, size_in_bytes = bytes\<rparr>))))
        (\<lambda>e. seq (gem_handle_close h) (throw e)))"

definition release_memory_region :: "memory_region \<Rightarrow> (drm_client, unit) proc" where
  "release_memory_region r =
     seq (modify (\<lambda>s. s\<lparr>mappings := remove1 (region_vaddr r, size_in_bytes r) (mappings s)\<rparr>))
       (gem_handle_close (region_handle r))"

definition gbm_create_buffer :: buffer_factory where
  "gbm_create_buffer n package sz pf =
     Returns \<lparr>creation_package = package, cb_size = sz, cb_format = pf, buffer_age = 0\<rparr>"

definition cb_stride :: "client_buffer \<Rightarrow> dimension" where
  "cb_stride b = dimension_of (pkg_stride (creation_package b))"

definition secure_for_cpu_write :: "drm_env \<Rightarrow> client_buffer \<Rightarrow> (drm_client, memory_region) proc" where
  "secure_for_cpu_write env b =
     new_memory_region env (word_of_int (pkg_data (creation_package b) ! 0)) (cb_size b) (cb_stride b) (cb_format b)"

text \<open>The package is shared: the age is written into it.\<close>

definition get_buffer_package :: "client_buffer \<Rightarrow> buffer_package \<times> client_buffer" where
  "get_buffer_package b =
     (let p = (creation_package b)\<lparr>pkg_age := s32 (uint (buffer_age b))\<rparr> in (p, b\<lparr>creation_package := p\<rparr>))"

text \<open>Nothing is left behind, whether the region is made or not.\<close>

definition holdings :: "drm_client \<Rightarrow> u32 list \<times> (nat \<times> u64) list" where
  "holdings s = (gem_handles s, mappings s)"

lemma region_balanced:
  "new_memory_region env g sz st pf s = (Returns r, t) \<Longrightarrow> release_memory_region r t = (x, u)
     \<Longrightarrow> x = Returns () \<and> holdings u = holdings s"
  "new_memory_region env g sz st pf s = (Throws e, t) \<Longrightarrow> holdings t = holdings s"
  by (auto simp: new_memory_region_def gem_handle_open_def gem_handle_close_def drm_call_def
      release_memory_region_def holdings_def Let_def proc_simps split: sum.splits)

lemma gbm_fresh_factory: "fresh_factory gbm_create_buffer"
  by (simp add: fresh_factory_def gbm_create_buffer_def)


section \<open>Properties\<close>

text \<open>C30: After any sequence of buffers from the server, including ones whose creation failed, the
  depository of a surface is the reference computed from the history alone: it holds exactly the
  buffers of the last \<^verbatim>\<open>max_buffers\<close> deposits (the last two if that is less), the age of each is the
  number of deposits since the client last drew it and 0 if it was created for this deposit, the
  factory was asked exactly for the buffers that were not held, and there is a current buffer if and
  only if the last deposit succeeded.\<close>

theorem depository_matches_history:
  assumes "1 \<le> max_buffers" and "max_buffers \<le> 2147483647" and "fresh_factory create"
    and "deposits create ds ([], new_depository max_buffers) = (history, d)"
  shows "(\<forall>x. map_option buffer_age (map_of (held_buffers d) x) =
        map_option word_of_nat (reference_age (deposit_window max_buffers) history x))
    \<and> factory_calls d = reference_calls (deposit_window max_buffers) history
    \<and> (case history of
         Some i # _ \<Rightarrow> \<exists>b. current_buffer d = (Returns b, d) \<and> map_of (held_buffers d) i = Some b
       | _ \<Rightarrow> current_buffer d = (Undefined ''dereference of end()'', d))"
proof -
  have d: "depository_is (deposit_window max_buffers) (nat (max_buffers - 1)) history d"
    by (rule deposits_step [OF new_depository_is [OF assms(1,2)] assms(3,4)])
  have "\<exists>b. map_of (held_buffers d) i = Some b" if "history = Some i # h" for i h
  proof -
    have "0 < deposit_window max_buffers" by (simp add: deposit_window_def)
    then have "reference_age (deposit_window max_buffers) history i \<noteq> None"
      by (simp add: reference_age_def that take_Cons')
    then show ?thesis
      using d unfolding depository_is_def by (metis map_option_is_None option.exhaust)
  qed
  then have "case history of
         Some i # _ \<Rightarrow> \<exists>b. current_buffer d = (Returns b, d) \<and> map_of (held_buffers d) i = Some b
       | _ \<Rightarrow> current_buffer d = (Undefined ''dereference of end()'', d)"
    using d by (auto simp: depository_is_def current_buffer_def split: list.split option.split)
  with d show ?thesis unfolding depository_is_def by blast
qed

definition sample_deposits :: "(buffer_package \<times> int \<times> geom_size \<times> pixel_format) list" where
  "sample_deposits = map (\<lambda>i. (zero_package, i, size_zero, 1)) [1, 2, 3, 4, 2]"

lemma sample_deposits_run:
  "(case deposits gbm_create_buffer sample_deposits ([], new_depository 3) of (history, d) \<Rightarrow>
      (history, map (\<lambda>p. (fst p, buffer_age (snd p))) (held_buffers d)))
   = ([Some 2, Some 4, Some 3, Some 2, Some 1], [(2, 3), (3, 2), (4, 1)])"
  by code_simp

theorem depository_matches_history_witness:
  "\<exists>history d. fresh_factory gbm_create_buffer
     \<and> deposits gbm_create_buffer sample_deposits ([], new_depository 3) = (history, d)
     \<and> map_option buffer_age (map_of (held_buffers d) 2) = Some 3 \<and> map_of (held_buffers d) 1 = None
     \<and> factory_calls d = 4 \<and> fst (current_buffer d) \<noteq> Undefined ''dereference of end()''"
proof -
  obtain history d where run: "deposits gbm_create_buffer sample_deposits ([], new_depository 3) = (history, d)"
    by fastforce
  then have h: "history = [Some 2, Some 4, Some 3, Some 2, Some 1]"
    using sample_deposits_run by simp
  have "1 \<le> (3 :: int)" "(3 :: int) \<le> 2147483647" by simp_all
  note match = depository_matches_history [OF this gbm_fresh_factory run]
  have "reference_age (deposit_window 3) history 2 = Some 3" "reference_age (deposit_window 3) history 1 = None"
      "reference_calls (deposit_window 3) history = 4"
    unfolding h by code_simp+
  then have "map_option buffer_age (map_of (held_buffers d) 2) = Some 3" "map_of (held_buffers d) 1 = None" "factory_calls d = 4"
    using match [THEN conjunct1, THEN spec, of 2] match [THEN conjunct1, THEN spec, of 1]
      match [THEN conjunct2, THEN conjunct1] by simp_all
  moreover have "fst (current_buffer d) \<noteq> Undefined ''dereference of end()''"
    using match [THEN conjunct2, THEN conjunct2] by (auto simp: h)
  ultimately show ?thesis
    using run gbm_fresh_factory by - (rule exI [of _ history], rule exI [of _ d], intro conjI)
qed

end
