(* ===== verification/Client.thy ===== *)
theory Client
  imports Rpc_Channel Client_Buffers Shell_Surface
begin

text \<open>
  A connection of the client library (\<^verbatim>\<open>client/mir_connection.cpp\<close>) with its surfaces
  (\<^verbatim>\<open>client/mir_surface.cpp\<close>) on the GBM platform (\<^verbatim>\<open>client/gbm/gbm_client_platform.cpp\<close>). Requests go
  out from the application's threads; their completions run on the thread that reads the socket and
  call back into the application, which may call the library again.
\<close>

section \<open>State\<close>

text \<open>The places a response is parsed into, and what runs afterwards; the last number of a closure
  names the application's callback with its context.\<close>

datatype slot =
    Connect_slot
  | Void_slot
  | Ignored_slot
  | Magic_slot
  | Surface_slot nat
  | Buffer_slot nat
  | Configure_slot nat

datatype closure =
    On_connected nat
  | On_created nat nat
  | On_new_buffer nat nat
  | On_released nat nat nat
  | On_done_disconnect
  | On_done_drm_auth_magic nat
  | On_configured nat
  | Do_nothing

record client_surface =
  surface_reply :: pb_surface
  create_wait_handle :: wait_handle
  next_buffer_wait_handle :: wait_handle
  configure_wait_handle :: wait_handle
  secured_region :: "memory_region option"
  buffer_depository :: depository
  accelerated_window :: bool
  configure_result :: pb_setting
  attrib_cache :: "int list"

text \<open>Surfaces and the handles of releases are heap objects, named in the order they are made; a
  missing name is a deleted object.\<close>

record client = "(slot, closure) channel" +
  connect_result :: pb_connection
  connect_request :: connect_parameters
  void_response :: pb_void
  ignored :: pb_void
  drm_auth_magic_status :: pb_magic_status
  client_platform :: "int option"
  native_display :: bool
  error_message :: string
  connect_wait_handle :: wait_handle
  disconnect_wait_handle :: wait_handle
  drm_auth_magic_wait_handle :: wait_handle
  release_wait_handles :: "nat list"
  wait_handles :: "(nat, wait_handle) omap"
  next_wait_handle :: nat
  client_surfaces :: "(nat, client_surface) omap"
  next_client_surface :: nat
  client_drm :: drm_client
  callbacks_run :: "nat list"

text \<open>
  The pointer that a reply is parsed into. The buffer of a surface message is an object of its own
  that outlives a reply for the surface in which it is missing; such a reply leaves it empty, and what is
  parsed into it afterwards counts as the surface's buffer.
\<close>

definition client_get :: "slot \<Rightarrow> client \<Rightarrow> result_message option" where
  "client_get r c =
     (case r of
        Connect_slot \<Rightarrow> Some (R_connection (connect_result c))
      | Void_slot \<Rightarrow> Some (R_void (void_response c))
      | Ignored_slot \<Rightarrow> Some (R_void (ignored c))
      | Magic_slot \<Rightarrow> Some (R_magic_status (drm_auth_magic_status c))
      | Surface_slot p \<Rightarrow> map_option (\<lambda>sf. R_surface (surface_reply sf)) (map_of (client_surfaces c) p)
      | Buffer_slot p \<Rightarrow>
          (case map_of (client_surfaces c) p of
             None \<Rightarrow> None
           | Some sf \<Rightarrow>
               Some (R_buffer (case pb_surface_buffer (surface_reply sf) of None \<Rightarrow> empty_buffer | Some b \<Rightarrow> b)))
      | Configure_slot p \<Rightarrow> map_option (\<lambda>sf. R_setting (configure_result sf)) (map_of (client_surfaces c) p))"

definition change_surface :: "nat \<Rightarrow> (client_surface \<Rightarrow> client_surface) \<Rightarrow> client \<Rightarrow> client" where
  "change_surface p f c =
     (case map_of (client_surfaces c) p of
        None \<Rightarrow> c
      | Some sf \<Rightarrow> c\<lparr>client_surfaces := omap_set p (f sf) (client_surfaces c)\<rparr>)"

fun client_put :: "slot \<Rightarrow> result_message \<Rightarrow> client \<Rightarrow> client" where
  "client_put Connect_slot (R_connection m) c = c\<lparr>connect_result := m\<rparr>"
| "client_put Void_slot (R_void m) c = c\<lparr>void_response := m\<rparr>"
| "client_put Ignored_slot (R_void m) c = c\<lparr>ignored := m\<rparr>"
| "client_put Magic_slot (R_magic_status m) c = c\<lparr>drm_auth_magic_status := m\<rparr>"
| "client_put (Surface_slot p) (R_surface m) c = change_surface p (\<lambda>sf. sf\<lparr>surface_reply := m\<rparr>) c"
| "client_put (Buffer_slot p) (R_buffer m) c =
     change_surface p (\<lambda>sf. sf\<lparr>surface_reply := (surface_reply sf)\<lparr>pb_surface_buffer := Some m\<rparr>\<rparr>) c"
| "client_put (Configure_slot p) (R_setting m) c = change_surface p (\<lambda>sf. sf\<lparr>configure_result := m\<rparr>) c"
| "client_put r m c = c"

definition client_replies :: "(slot, client) reply_access" where
  "client_replies = \<lparr>get_reply = client_get, put_reply = client_put\<rparr>"

text \<open>A call on a surface; using a deleted one is undefined.\<close>

definition on_surface :: "nat \<Rightarrow> (client_surface, 'a) proc \<Rightarrow> (client, 'a) proc" where
  "on_surface p m c =
     (case map_of (client_surfaces c) p of
        None \<Rightarrow> (Undefined ''use after free'', c)
      | Some sf \<Rightarrow> (case m sf of (r, sf') \<Rightarrow> (r, c\<lparr>client_surfaces := omap_set p sf' (client_surfaces c)\<rparr>)))"

section \<open>Surfaces\<close>

text \<open>\<^verbatim>\<open>MirSurfaceParameters\<close>; a null name is \<open>None\<close>.\<close>

record mir_surface_parameters =
  msp_name :: "string option"
  msp_width :: int
  msp_height :: int
  msp_pixel_format :: int
  msp_buffer_usage :: int

definition new_client_surface :: client_surface where
  "new_client_surface =
     \<lparr>surface_reply = empty_surface, create_wait_handle = new_wait_handle, next_buffer_wait_handle = new_wait_handle,
      configure_wait_handle = new_wait_handle, secured_region = None, buffer_depository = new_depository 3,
      accelerated_window = False, configure_result = empty_setting, attrib_cache = [mir_surface_type_normal]\<rparr>"

definition surface_request :: "mir_surface_parameters \<Rightarrow> surface_parameters" where
  "surface_request params =
     \<lparr>sp_width = msp_width params, sp_height = msp_height params, sp_pixel_format = msp_pixel_format params,
      sp_buffer_usage = msp_buffer_usage params, sp_surface_name = (case msp_name params of None \<Rightarrow> '''' | Some n \<Rightarrow> n)\<rparr>"

definition or_zero :: "int option \<Rightarrow> int" where
  "or_zero v = (case v of None \<Rightarrow> 0 | Some n \<Rightarrow> n)"

definition get_parameters :: "client_surface \<Rightarrow> mir_surface_parameters" where
  "get_parameters sf = (let m = surface_reply sf in
     \<lparr>msp_name = None, msp_width = or_zero (pb_surface_width m), msp_height = or_zero (pb_surface_height m),
      msp_pixel_format = or_zero (pb_surface_pixel_format m), msp_buffer_usage = or_zero (pb_surface_buffer_usage m)\<rparr>)"

definition surface_error_message :: "client_surface \<Rightarrow> string" where
  "surface_error_message sf = (case pb_surface_error (surface_reply sf) of None \<Rightarrow> '''' | Some e \<Rightarrow> e)"

definition surface_id :: "client_surface \<Rightarrow> int" where
  "surface_id sf = or_zero (pb_surface_id (surface_reply sf))"

definition surface_is_valid :: "client_surface \<Rightarrow> bool" where
  "surface_is_valid sf \<longleftrightarrow> pb_surface_error (surface_reply sf) = None"

text \<open>The format of the mapped region is always reported as \<^verbatim>\<open>abgr_8888\<close>.\<close>

record graphics_region =
  gr_width :: u32
  gr_height :: u32
  gr_stride :: u32
  gr_pixel_format :: pixel_format
  gr_vaddr :: nat

definition release_cpu_region :: "nat \<Rightarrow> (client, unit) proc" where
  "release_cpu_region p =
     sbind (on_surface p (\<lambda>sf. (Returns (secured_region sf), sf\<lparr>secured_region := None\<rparr>))) (\<lambda>region.
       case region of
         None \<Rightarrow> ret ()
       | Some r \<Rightarrow> zoom client_drm (\<lambda>d c. c\<lparr>client_drm := d\<rparr>) (release_memory_region r))"

definition surface_current_buffer :: "nat \<Rightarrow> (client, client_buffer) proc" where
  "surface_current_buffer p = on_surface p (zoom buffer_depository (\<lambda>d sf. sf\<lparr>buffer_depository := d\<rparr>) current_buffer)"

text \<open>The new region replaces the one that may still be secured, which is released then.\<close>

definition get_cpu_region :: "drm_env \<Rightarrow> nat \<Rightarrow> (client, graphics_region) proc" where
  "get_cpu_region env p =
     sbind (surface_current_buffer p) (\<lambda>b.
     sbind (zoom client_drm (\<lambda>d c. c\<lparr>client_drm := d\<rparr>) (secure_for_cpu_write env b)) (\<lambda>r.
     seq (release_cpu_region p)
     (seq (on_surface p (modify (\<lambda>sf. sf\<lparr>secured_region := Some r\<rparr>)))
      (ret \<lparr>gr_width = width (region_size r), gr_height = height (region_size r), gr_stride = region_stride r,
         gr_pixel_format = abgr_8888, gr_vaddr = region_vaddr r\<rparr>))))"

definition get_current_buffer_package :: "nat \<Rightarrow> (client, buffer_package) proc" where
  "get_current_buffer_package p =
     sbind (surface_current_buffer p) (\<lambda>b. case get_buffer_package b of (package, b') \<Rightarrow>
       seq (on_surface p (modify (\<lambda>sf. sf\<lparr>buffer_depository := (buffer_depository sf)\<lparr>
         held_buffers := map (\<lambda>(k, x). (k, if Some k = current_buffer_iter (buffer_depository sf) then b' else x))
           (held_buffers (buffer_depository sf))\<rparr>\<rparr>)))
        (ret package))"

definition convert_ipc_pf_to_geometry :: "int \<Rightarrow> pixel_format" where
  "convert_ipc_pf_to_geometry pf = (if pf = 1 then abgr_8888 else pf_invalid)"

text \<open>The arrays of the package are written without a check of their length.\<close>

definition populate_buffer :: "client_surface \<Rightarrow> buffer_package res" where
  "populate_buffer sf =
     (case (surface_is_valid sf, pb_surface_buffer (surface_reply sf)) of
        (True, Some b) \<Rightarrow>
          if mir_buffer_package_max < length (pb_buffer_data b) \<or> mir_buffer_package_max < length (pb_buffer_fd b)
          then Undefined ''array index''
          else Returns (zero_package\<lparr>
            pkg_data_items := int (length (pb_buffer_data b)),
            pkg_fd_items := int (length (pb_buffer_fd b)),
            pkg_data := pb_buffer_data b @ drop (length (pb_buffer_data b)) (pkg_data zero_package),
            pkg_fd := pb_buffer_fd b @ drop (length (pb_buffer_fd b)) (pkg_fd zero_package),
            pkg_stride := or_zero (pb_buffer_stride b)\<rparr>)
      | _ \<Rightarrow> Returns zero_package)"

text \<open>A \<^verbatim>\<open>std::runtime_error\<close> of the factory is only logged; the surface's logger drops the message.\<close>

definition catch_runtime_error :: "('s, unit) proc \<Rightarrow> ('s, unit) proc" where
  "catch_runtime_error m = try_catch m (\<lambda>e. case e of logic_error msg \<Rightarrow> throw e | _ \<Rightarrow> ret ())"

definition process_incoming_buffer :: "buffer_factory \<Rightarrow> (client_surface, unit) proc" where
  "process_incoming_buffer factory sf =
     (let m = surface_reply sf;
          surface_size = \<lparr>width = dimension_of (or_zero (pb_surface_width m)), height = dimension_of (or_zero (pb_surface_height m))\<rparr>;
          surface_pf = convert_ipc_pf_to_geometry (or_zero (pb_surface_pixel_format m));
          buffer_id = (case pb_surface_buffer m of None \<Rightarrow> 0 | Some b \<Rightarrow> or_zero (pb_buffer_id b))
      in sbind (lift_res (populate_buffer sf)) (\<lambda>package.
         catch_runtime_error (zoom buffer_depository (\<lambda>d sf. sf\<lparr>buffer_depository := d\<rparr>)
           (deposit_package factory package buffer_id surface_size surface_pf))) sf)"

definition surface_attrib :: "int \<Rightarrow> client_surface \<Rightarrow> int res" where
  "surface_attrib attr sf =
     (if 0 \<le> attr \<and> attr < int (length (attrib_cache sf)) then Returns (attrib_cache sf ! nat attr) else Undefined ''array index'')"

section \<open>Requests\<close>

datatype handle_ref =
    Connect_handle
  | Disconnect_handle
  | Drm_auth_magic_handle
  | Create_handle nat
  | Next_buffer_handle nat
  | Configure_handle nat
  | Release_handle nat

definition on_handle :: "handle_ref \<Rightarrow> (wait_handle, 'a) proc \<Rightarrow> (client, 'a) proc" where
  "on_handle h m =
     (case h of
        Connect_handle \<Rightarrow> zoom connect_wait_handle (\<lambda>x c. c\<lparr>connect_wait_handle := x\<rparr>) m
      | Disconnect_handle \<Rightarrow> zoom disconnect_wait_handle (\<lambda>x c. c\<lparr>disconnect_wait_handle := x\<rparr>) m
      | Drm_auth_magic_handle \<Rightarrow> zoom drm_auth_magic_wait_handle (\<lambda>x c. c\<lparr>drm_auth_magic_wait_handle := x\<rparr>) m
      | Create_handle p \<Rightarrow> on_surface p (zoom create_wait_handle (\<lambda>x sf. sf\<lparr>create_wait_handle := x\<rparr>) m)
      | Next_buffer_handle p \<Rightarrow> on_surface p (zoom next_buffer_wait_handle (\<lambda>x sf. sf\<lparr>next_buffer_wait_handle := x\<rparr>) m)
      | Configure_handle p \<Rightarrow> on_surface p (zoom configure_wait_handle (\<lambda>x sf. sf\<lparr>configure_wait_handle := x\<rparr>) m)
      | Release_handle n \<Rightarrow> (\<lambda>c.
          case map_of (wait_handles c) n of
            None \<Rightarrow> (Undefined ''use after free'', c)
          | Some x \<Rightarrow> (case m x of (r, y) \<Rightarrow> (r, c\<lparr>wait_handles := omap_set n y (wait_handles c)\<rparr>))))"

datatype client_call =
    Call_connect "int option" string nat
  | Call_create_surface mir_surface_parameters nat
  | Call_next_buffer nat nat
  | Call_configure nat int int
  | Call_release_surface nat nat
  | Call_drm_auth_magic u32 nat
  | Call_select_focus int
  | Call_disconnect
  | Call_get_region nat
  | Call_get_package nat
  | Call_wait handle_ref

text \<open>What the code around the library does: the generated serialisation, the buffer factory of
  the platform, the kernel, and the calls that the application makes in a callback.\<close>

record client_env =
  ce_codec :: wire_codec
  ce_parse :: "response_type \<Rightarrow> bytes \<Rightarrow> result_message"
  ce_factory :: buffer_factory
  ce_drm :: drm_env
  ce_user :: "nat \<Rightarrow> client_call list"

definition client_connect :: "client_env \<Rightarrow> int option \<Rightarrow> string \<Rightarrow> nat \<Rightarrow> (client, handle_ref) proc" where
  "client_connect env lightdm app_name cb =
     seq (modify (\<lambda>c. c\<lparr>connect_request := \<lparr>application_name = app_name,
            lightdm_id = (case lightdm of None \<Rightarrow> lightdm_id (connect_request c) | Some n \<Rightarrow> Some n)\<rparr>\<rparr>))
     (sbind (gets connect_request) (\<lambda>request.
      seq (rpc_call (ce_codec env) ''connect'' (P_connect request) Connect_slot (On_connected cb))
       (ret Connect_handle)))"

definition client_create_surface :: "client_env \<Rightarrow> mir_surface_parameters \<Rightarrow> nat \<Rightarrow> (client, handle_ref) proc" where
  "client_create_surface env params cb =
     sbind (gets client_platform) (\<lambda>platform.
       case platform of
         None \<Rightarrow> undef ''null dereference''
       | Some fd \<Rightarrow>
           sbind (gets next_client_surface) (\<lambda>p.
           seq (modify (\<lambda>c. c\<lparr>client_surfaces := omap_set p new_client_surface (client_surfaces c),
                  next_client_surface := Suc p\<rparr>))
           (seq (rpc_call (ce_codec env) ''create_surface'' (P_surface (surface_request params)) (Surface_slot p) (On_created p cb))
            (ret (Create_handle p)))))"

text \<open>\<^verbatim>\<open>mutable_buffer\<close> makes the part of the message if it is not there.\<close>

definition mutable_buffer :: "client_surface \<Rightarrow> client_surface" where
  "mutable_buffer sf =
     (case pb_surface_buffer (surface_reply sf) of
        None \<Rightarrow> sf\<lparr>surface_reply := (surface_reply sf)\<lparr>pb_surface_buffer := Some empty_buffer\<rparr>\<rparr>
      | Some b \<Rightarrow> sf)"

definition client_next_buffer :: "client_env \<Rightarrow> nat \<Rightarrow> nat \<Rightarrow> (client, handle_ref) proc" where
  "client_next_buffer env p cb =
     seq (release_cpu_region p)
     (sbind (on_surface p (\<lambda>sf. (Returns (surface_id sf), mutable_buffer sf))) (\<lambda>i.
      seq (rpc_call (ce_codec env) ''next_buffer'' (P_surface_id i) (Buffer_slot p) (On_new_buffer p cb))
       (ret (Next_buffer_handle p))))"

definition client_configure :: "client_env \<Rightarrow> nat \<Rightarrow> int \<Rightarrow> int \<Rightarrow> (client, handle_ref) proc" where
  "client_configure env p attr v =
     sbind (on_surface p (gets surface_id)) (\<lambda>i.
     seq (on_handle (Configure_handle p) expect_result)
     (seq (rpc_call (ce_codec env) ''configure_surface''
        (P_setting \<lparr>pb_setting_surface = Some i, pb_setting_attrib = Some attr, pb_setting_ivalue = Some v, pb_setting_error = None\<rparr>)
        (Configure_slot p) (On_configured p))
      (ret (Configure_handle p))))"

definition client_release_surface :: "client_env \<Rightarrow> nat \<Rightarrow> nat \<Rightarrow> (client, handle_ref) proc" where
  "client_release_surface env p cb =
     sbind (gets next_wait_handle) (\<lambda>h.
     seq (modify (\<lambda>c. c\<lparr>wait_handles := omap_set h new_wait_handle (wait_handles c), next_wait_handle := Suc h\<rparr>))
     (sbind (on_surface p (gets surface_id)) (\<lambda>i.
      seq (rpc_call (ce_codec env) ''release_surface'' (P_surface_id i) Void_slot (On_released p h cb))
      (seq (modify (\<lambda>c. c\<lparr>release_wait_handles := release_wait_handles c @ [h]\<rparr>))
       (ret (Release_handle h))))))"

definition client_select_focus :: "client_env \<Rightarrow> int \<Rightarrow> (client, unit) proc" where
  "client_select_focus env i =
     rpc_call (ce_codec env) ''select_focus_by_lightdm_id'' (P_lightdm_id i) Ignored_slot Do_nothing"

definition client_disconnect :: "client_env \<Rightarrow> (client, handle_ref) proc" where
  "client_disconnect env =
     seq (rpc_call (ce_codec env) ''disconnect'' P_void Ignored_slot On_done_disconnect) (ret Disconnect_handle)"

definition client_drm_auth_magic :: "client_env \<Rightarrow> u32 \<Rightarrow> nat \<Rightarrow> (client, handle_ref) proc" where
  "client_drm_auth_magic env magic cb =
     seq (rpc_call (ce_codec env) ''drm_auth_magic'' (P_magic magic) Magic_slot (On_done_drm_auth_magic cb))
      (ret Drm_auth_magic_handle)"

definition forget :: "('s, 'a) proc \<Rightarrow> ('s, unit) proc" where
  "forget m = seq m (ret ())"

fun client_api :: "client_env \<Rightarrow> client_call \<Rightarrow> (client, unit) proc" where
  "client_api env (Call_connect lightdm name cb) = forget (client_connect env lightdm name cb)"
| "client_api env (Call_create_surface params cb) = forget (client_create_surface env params cb)"
| "client_api env (Call_next_buffer p cb) = forget (client_next_buffer env p cb)"
| "client_api env (Call_configure p attr v) = forget (client_configure env p attr v)"
| "client_api env (Call_release_surface p cb) = forget (client_release_surface env p cb)"
| "client_api env (Call_drm_auth_magic magic cb) = forget (client_drm_auth_magic env magic cb)"
| "client_api env (Call_select_focus i) = client_select_focus env i"
| "client_api env Call_disconnect = forget (client_disconnect env)"
| "client_api env (Call_get_region p) = forget (get_cpu_region (ce_drm env) p)"
| "client_api env (Call_get_package p) = forget (get_current_buffer_package p)"
| "client_api env (Call_wait h) = on_handle h wait_for_result"

section \<open>Completions\<close>

definition run_callback :: "client_env \<Rightarrow> nat \<Rightarrow> (client, unit) proc" where
  "run_callback env cb =
     seq (modify (\<lambda>c. c\<lparr>callbacks_run := callbacks_run c @ [cb]\<rparr>)) (for_each (client_api env) (ce_user env cb))"

record platform_package =
  pp_data_items :: int
  pp_fd_items :: int
  pp_data :: "int list"
  pp_fd :: "int list"

definition mir_platform_package_max :: nat where
  "mir_platform_package_max = 32"

definition populate_platform :: "client \<Rightarrow> platform_package res" where
  "populate_platform c =
     (case (pb_connection_error (connect_result c), pb_platform_part (connect_result c)) of
        (None, Some p) \<Rightarrow>
          if mir_platform_package_max < length (pb_platform_data p) \<or> mir_platform_package_max < length (pb_platform_fd p)
          then Undefined ''array index''
          else Returns \<lparr>pp_data_items = int (length (pb_platform_data p)), pp_fd_items = int (length (pb_platform_fd p)),
            pp_data = pb_platform_data p, pp_fd = pb_platform_fd p\<rparr>
      | _ \<Rightarrow> Returns \<lparr>pp_data_items = 0, pp_fd_items = 0, pp_data = [], pp_fd = []\<rparr>)"

text \<open>The platform is known by its descriptor of the DRM device.\<close>

definition create_client_platform :: "(client, int) proc" where
  "create_client_platform =
     sbind (\<lambda>c. (populate_platform c, c)) (\<lambda>package.
       ret (if 0 < pp_fd_items package then hd (pp_fd package) else - 1))"

definition connected :: "client_env \<Rightarrow> nat \<Rightarrow> (client, unit) proc" where
  "connected env cb =
     sbind create_client_platform (\<lambda>fd.
     seq (modify (\<lambda>c. c\<lparr>client_platform := Some fd, native_display := True\<rparr>))
     (seq (run_callback env cb) (on_handle Connect_handle result_received)))"

definition created :: "client_env \<Rightarrow> nat \<Rightarrow> nat \<Rightarrow> (client, unit) proc" where
  "created env p cb =
     seq (on_surface p (process_incoming_buffer (ce_factory env)))
     (sbind (gets client_platform) (\<lambda>platform.
       case platform of
         None \<Rightarrow> undef ''null dereference''
       | Some fd \<Rightarrow>
           seq (on_surface p (modify (\<lambda>sf. sf\<lparr>accelerated_window := True\<rparr>)))
           (seq (run_callback env cb) (on_handle (Create_handle p) result_received))))"

definition new_buffer :: "client_env \<Rightarrow> nat \<Rightarrow> nat \<Rightarrow> (client, unit) proc" where
  "new_buffer env p cb =
     seq (on_surface p (process_incoming_buffer (ce_factory env)))
     (seq (run_callback env cb) (on_handle (Next_buffer_handle p) result_received))"

definition delete_surface :: "nat \<Rightarrow> (client, unit) proc" where
  "delete_surface p =
     seq (release_cpu_region p) (modify (\<lambda>c. c\<lparr>client_surfaces := omap_erase p (client_surfaces c)\<rparr>))"

definition released :: "client_env \<Rightarrow> nat \<Rightarrow> nat \<Rightarrow> nat \<Rightarrow> (client, unit) proc" where
  "released env p h cb =
     seq (run_callback env cb) (seq (on_handle (Release_handle h) result_received) (delete_surface p))"

text \<open>The vector is not cleared: a second time the handles are deleted again.\<close>

definition delete_wait_handle :: "nat \<Rightarrow> (client, unit) proc" where
  "delete_wait_handle h c =
     (case map_of (wait_handles c) h of
        None \<Rightarrow> (Undefined ''double free'', c)
      | Some x \<Rightarrow> (Returns (), c\<lparr>wait_handles := omap_erase h (wait_handles c)\<rparr>))"

definition done_disconnect :: "(client, unit) proc" where
  "done_disconnect =
     seq (sbind (gets release_wait_handles) (for_each delete_wait_handle)) (on_handle Disconnect_handle result_received)"

definition done_drm_auth_magic :: "client_env \<Rightarrow> nat \<Rightarrow> (client, unit) proc" where
  "done_drm_auth_magic env cb = seq (run_callback env cb) (on_handle Drm_auth_magic_handle result_received)"

text \<open>A result that does not name the surface and an attribute is not counted.\<close>

definition on_configured :: "(client_surface, unit) proc" where
  "on_configured sf =
     (let r = configure_result sf in
      case (pb_setting_surface r, pb_setting_attrib r) of
        (Some i, Some attr) \<Rightarrow>
          if i \<noteq> surface_id sf then (Returns (), sf)
          else if attr \<noteq> mir_surface_attrib_type then (Undefined ''assert(false)'', sf)
          else zoom configure_wait_handle (\<lambda>x sf. sf\<lparr>configure_wait_handle := x\<rparr>) result_received
            (case pb_setting_ivalue r of
               None \<Rightarrow> sf
             | Some t \<Rightarrow> sf\<lparr>attrib_cache := (attrib_cache sf)[nat mir_surface_attrib_type := t]\<rparr>)
      | _ \<Rightarrow> (Returns (), sf))"

fun run_closure :: "client_env \<Rightarrow> closure \<Rightarrow> (client, unit) proc" where
  "run_closure env (On_connected cb) = connected env cb"
| "run_closure env (On_created p cb) = created env p cb"
| "run_closure env (On_new_buffer p cb) = new_buffer env p cb"
| "run_closure env (On_released p h cb) = released env p h cb"
| "run_closure env On_done_disconnect = done_disconnect"
| "run_closure env (On_done_drm_auth_magic cb) = done_drm_auth_magic env cb"
| "run_closure env (On_configured p) = on_surface p on_configured"
| "run_closure env Do_nothing = ret ()"

section \<open>Queries of the connection\<close>

record mir_display_info =
  di_width :: int
  di_height :: int
  di_supported_pixel_format :: "int list"

definition mir_supported_pixel_format_max :: nat where
  "mir_supported_pixel_format_max = 32"

definition populate_display_info :: "client \<Rightarrow> mir_display_info" where
  "populate_display_info c =
     (case (pb_connection_error (connect_result c), pb_display_info_part (connect_result c)) of
        (None, Some d) \<Rightarrow> \<lparr>di_width = pb_display_width d, di_height = pb_display_height d,
          di_supported_pixel_format = take mir_supported_pixel_format_max (pb_supported_pixel_format d)\<rparr>
      | _ \<Rightarrow> \<lparr>di_width = 0, di_height = 0, di_supported_pixel_format = []\<rparr>)"

definition get_error_message :: "client \<Rightarrow> string" where
  "get_error_message c = (case pb_connection_error (connect_result c) of None \<Rightarrow> error_message c | Some e \<Rightarrow> e)"

text \<open>The two constructors: the one for \<^verbatim>\<open>error_connection\<close> and the one for a connection proper.\<close>

definition default_client :: client where
  "default_client =
     \<lparr>next_message_id = 0, pending_calls = [], cache_locked = False, sent_frames = [], incoming = [], fd_messages = [],
      logged_errors = [], connect_result = empty_connection, connect_request = \<lparr>application_name = '''', lightdm_id = None\<rparr>,
      void_response = \<lparr>pb_void_error = None\<rparr>, ignored = \<lparr>pb_void_error = None\<rparr>,
      drm_auth_magic_status = \<lparr>pb_status_code = None, pb_magic_error = None\<rparr>, client_platform = None,
      native_display = False, error_message = ''ERROR'', connect_wait_handle = new_wait_handle,
      disconnect_wait_handle = new_wait_handle, drm_auth_magic_wait_handle = new_wait_handle, release_wait_handles = [],
      wait_handles = [], next_wait_handle = 0, client_surfaces = [], next_client_surface = 0,
      client_drm = \<lparr>drm_calls = 0, gem_handles = [], mappings = []\<rparr>, callbacks_run = []\<rparr>"

definition new_client :: client where
  "new_client = default_client\<lparr>connect_result := empty_connection\<lparr>pb_connection_error := Some ''connect not called''\<rparr>,
     error_message := ''''\<rparr>"

section \<open>Events\<close>

text \<open>
  A call of an application thread or an event of the socket. A call that blocks has not happened
  yet; a behaviour that is undefined has no next state.
\<close>

datatype client_event =
    App_call client_call
  | Bytes_in bytes
  | Fds_in "int list"
  | Header_read
  | Header_error bool string
  | Body_read_error
  | Message_sent "string option"

fun client_do :: "client_env \<Rightarrow> client_event \<Rightarrow> (client, unit) proc" where
  "client_do env (App_call call) = client_api env call"
| "client_do env (Bytes_in bs) = receive_on_channel bs"
| "client_do env (Fds_in fds) = receive_fd_message fds"
| "client_do env Header_read = on_header_read (ce_codec env) (ce_parse env) client_replies (run_closure env)"
| "client_do env (Header_error eof msg) = on_header_error eof msg"
| "client_do env Body_read_error = on_body_error"
| "client_do env (Message_sent error) = on_message_sent error"

inductive client_reachable :: "client_env \<Rightarrow> client \<Rightarrow> bool" for env :: client_env where
  client_start: "client_reachable env new_client"
| client_returns: "client_reachable env c \<Longrightarrow> client_do env e c = (Returns (), d) \<Longrightarrow> client_reachable env d"
| client_throws: "client_reachable env c \<Longrightarrow> client_do env e c = (Throws x, d) \<Longrightarrow> client_reachable env d"

fun client_run :: "client_env \<Rightarrow> client_event list \<Rightarrow> client \<Rightarrow> client option" where
  "client_run env [] c = Some c"
| "client_run env (e # es) c =
     (case client_do env e c of (Returns _, d) \<Rightarrow> client_run env es d | (Throws _, d) \<Rightarrow> client_run env es d | _ \<Rightarrow> None)"

lemma client_run_reachable:
  "client_reachable env c \<Longrightarrow> client_run env es c = Some d \<Longrightarrow> client_reachable env d"
  by (induction es arbitrary: c)
    (auto split: prod.splits res.splits intro: client_returns client_throws)


end
