(* ===== verification/Client_Invariants.thy ===== *)
theory Client_Invariants
  imports Client
begin

text \<open>
  What stays true of the calls a client has in progress: every pending call has been sent under an id
  of its own, with a method whose response has the type of the message that the client will parse
  it into. Completions run with the cache locked and can therefore not change the calls.
\<close>

section \<open>The calls of a channel\<close>

definition calls :: "('r, 'c, 'z) channel_scheme \<Rightarrow> bool \<times> int \<times> (int, ('r, 'c) pending_call) omap \<times> bytes list" where
  "calls c = (cache_locked c, next_message_id c, pending_calls c, sent_frames c)"

fun slot_type :: "slot \<Rightarrow> response_type" where
  "slot_type Connect_slot = T_connection"
| "slot_type Void_slot = T_void"
| "slot_type Ignored_slot = T_void"
| "slot_type Magic_slot = T_magic_status"
| "slot_type (Surface_slot p) = T_surface"
| "slot_type (Buffer_slot p) = T_buffer"
| "slot_type (Configure_slot p) = T_setting"

text \<open>Methods that the client calls, for a response of the right type.\<close>

definition rpc_typed :: "string \<Rightarrow> slot \<Rightarrow> bool" where
  "rpc_typed meth r \<longleftrightarrow> method_response meth = Some (slot_type r) \<and> meth \<noteq> ''test_file_descriptors''"

definition frame_of :: "wire_codec \<Rightarrow> invocation \<Rightarrow> bytes" where
  "frame_of codec v = whole_message (serialize_invocation codec v)"

definition call_ok :: "wire_codec \<Rightarrow> invocation list \<Rightarrow> int \<times> (slot, closure) pending_call \<Rightarrow> bool" where
  "call_ok codec invs kp \<longleftrightarrow>
     (case kp of (k, p) \<Rightarrow> 0 \<le> k \<and> k < int (length invs) \<and> pc_send_buffer p = frame_of codec (invs ! nat k)
        \<and> rpc_typed (inv_method (invs ! nat k)) (pc_response p))"

definition calls_ok ::
  "wire_codec \<Rightarrow> bool \<times> int \<times> (int, (slot, closure) pending_call) omap \<times> bytes list \<Rightarrow> bool" where
  "calls_ok codec st \<longleftrightarrow>
     (case st of (held, n, pending, sent) \<Rightarrow> \<not> held \<and> n \<le> int_max \<and> omap_wf pending \<and>
       (\<exists>invs. sent = map (frame_of codec) invs \<and> int (length invs) = n
          \<and> (\<forall>i < length invs. inv_id (invs ! i) = word_of_nat i) \<and> (\<forall>kp \<in> set pending. call_ok codec invs kp)))"

lemma call_key_small: "0 \<le> n \<Longrightarrow> n \<le> int_max \<Longrightarrow> call_key (word_of_int n) = n"
  by (simp add: call_key_def int_max_def uint_word_of_int s32_id)

lemma calls_other [simp]:
  "calls (c\<lparr>connect_request := q\<rparr>) = calls c" "calls (c\<lparr>client_surfaces := sfs\<rparr>) = calls c"
  "calls (c\<lparr>next_client_surface := n\<rparr>) = calls c" "calls (c\<lparr>wait_handles := hs\<rparr>) = calls c"
  "calls (c\<lparr>next_wait_handle := n\<rparr>) = calls c" "calls (c\<lparr>release_wait_handles := rs\<rparr>) = calls c"
  "calls (c\<lparr>callbacks_run := cbs\<rparr>) = calls c" "calls (c\<lparr>client_platform := pf\<rparr>) = calls c"
  "calls (c\<lparr>native_display := b\<rparr>) = calls c"
  by (simp_all add: calls_def)

section \<open>Steps that leave the calls alone\<close>

lemma calls_surface [settle]: "settles (\<lambda>c. Q (calls c)) (on_surface p m)"
  by (auto simp: settles_def on_surface_def calls_def split: option.splits prod.splits res.splits)

lemma calls_zoom_drm [settle]: "settles (\<lambda>c. Q (calls c)) (zoom client_drm (\<lambda>d c. c\<lparr>client_drm := d\<rparr>) m)"
  by (auto simp: settles_def zoom_def calls_def split: prod.splits res.splits)

lemma calls_handle [settle]: "settles (\<lambda>c. Q (calls c)) (on_handle h m)"
proof (cases h)
  case (Release_handle n)
  then show ?thesis
    by (auto simp: settles_def on_handle_def calls_def split: option.splits prod.splits res.splits)
qed (auto simp: on_handle_def intro: settle, auto simp: settles_def zoom_def calls_def split: prod.splits res.splits)

lemma calls_modify:
  "(\<And>c. calls (f c) = calls c) \<Longrightarrow> settles (\<lambda>c. Q (calls c)) (modify f)"
  by (simp add: settles_def modify_def)

lemma calls_put: "calls (client_put r m c) = calls c"
  by (cases "(r, m, c)" rule: client_put.cases) (simp_all add: change_surface_def calls_def split: option.splits)

lemma calls_recv [settle]: "settles (\<lambda>c. Q (calls c)) (recv_fds n)"
  by (auto simp: settles_def recv_fds_def calls_def split: list.splits)

lemma calls_receive [settle]: "settles (\<lambda>c. Q (calls c)) (receive_file_descriptors m)"
  by (cases m) (auto simp: receive_surface_fds_def receive_buffer_fds_def receive_platform_fds_def side_fds_def intro!: settle)

lemma calls_delete_handle [settle]: "settles (\<lambda>c. Q (calls c)) (delete_wait_handle h)"
  by (auto simp: settles_def delete_wait_handle_def calls_def split: option.splits)

lemma calls_platform [settle]: "settles (\<lambda>c. Q (calls c)) create_client_platform"
  by (auto simp: settles_def create_client_platform_def proc_simps split: res.splits)

lemma calls_release_region [settle]: "settles (\<lambda>c. Q (calls c)) (release_cpu_region p)"
  unfolding release_cpu_region_def by (intro settle)

lemma calls_current_buffer [settle]: "settles (\<lambda>c. Q (calls c)) (surface_current_buffer p)"
  unfolding surface_current_buffer_def by (intro settle)

lemma calls_region [settle]: "settles (\<lambda>c. Q (calls c)) (get_cpu_region env p)"
  unfolding get_cpu_region_def by (intro settle)

lemma calls_package [settle]: "settles (\<lambda>c. Q (calls c)) (get_current_buffer_package p)"
  unfolding get_current_buffer_package_def by (auto intro!: settle split: prod.split)

section \<open>Requests\<close>

text \<open>All requests of the client go through the channel with a method and a slot of its type.\<close>

definition keeps_calls :: "wire_codec \<Rightarrow> (bool \<times> int \<times> (int, (slot, closure) pending_call) omap \<times> bytes list \<Rightarrow> bool) \<Rightarrow> bool" where
  "keeps_calls codec Q \<longleftrightarrow>
     (\<forall>meth ps r cl. rpc_typed meth r \<longrightarrow> settles (\<lambda>c :: client. Q (calls c)) (rpc_call codec meth ps r cl))"

lemma typed_methods:
  "rpc_typed ''connect'' Connect_slot" "rpc_typed ''create_surface'' (Surface_slot p)" "rpc_typed ''next_buffer'' (Buffer_slot p)"
  "rpc_typed ''configure_surface'' (Configure_slot p)" "rpc_typed ''release_surface'' Void_slot"
  "rpc_typed ''select_focus_by_lightdm_id'' Ignored_slot" "rpc_typed ''disconnect'' Ignored_slot"
  "rpc_typed ''drm_auth_magic'' Magic_slot"
  by (simp_all add: rpc_typed_def method_response_def service_methods_def)

lemma rpc_settles:
  "keeps_calls codec Q \<Longrightarrow> rpc_typed meth r \<Longrightarrow> settles (\<lambda>c :: client. Q (calls c)) (rpc_call codec meth ps r cl)"
  by (simp add: keeps_calls_def)

lemma api_settles:
  assumes "keeps_calls (ce_codec env) Q"
  shows "settles (\<lambda>c. Q (calls c)) (client_api env call)"
proof -
  note rpc = rpc_settles [OF assms] typed_methods
  show ?thesis
    by (cases call)
      (auto simp: forget_def client_connect_def client_create_surface_def client_next_buffer_def client_configure_def
        client_release_surface_def client_select_focus_def client_disconnect_def client_drm_auth_magic_def
        intro!: settle rpc calls_modify)
qed


section \<open>Completions\<close>

lemma run_callback_settles:
  "keeps_calls (ce_codec env) Q \<Longrightarrow> settles (\<lambda>c. Q (calls c)) (run_callback env cb)"
  unfolding run_callback_def by (intro settle calls_modify api_settles) simp_all

lemma closure_settles:
  assumes "keeps_calls (ce_codec env) Q"
  shows "settles (\<lambda>c. Q (calls c)) (run_closure env cl)"
  by (cases cl)
    (auto simp: connected_def created_def new_buffer_def released_def delete_surface_def done_disconnect_def
      done_drm_auth_magic_def intro!: settle calls_modify run_callback_settles [OF assms])

text \<open>With the cache locked no request is ever sent.\<close>

lemma locked_keeps_calls: "keeps_calls codec (\<lambda>st. st = (True, n, pending, sent))"
  unfolding keeps_calls_def
  by (auto simp: settles_def rpc_call_def invocation_for_def next_message_def save_completion_details_def
      with_cache_lock_def calls_def proc_simps)

section \<open>The invariant\<close>

lemma call_ok_extend:
  "call_ok codec invs kp \<Longrightarrow> call_ok codec (invs @ [v]) kp"
  by (auto simp: call_ok_def nth_append split: prod.splits)

lemma calls_ok_send:
  assumes "calls_ok codec (False, n, pending, sent)" and "n \<noteq> int_max" and "rpc_typed meth r"
  shows "calls_ok codec (False, n + 1,
    omap_set n \<lparr>pc_send_buffer = frame_of codec \<lparr>inv_id = word_of_int n, inv_method = meth, inv_parameters = ps\<rparr>,
      pc_response = r, pc_complete = cl\<rparr> pending,
    sent @ [frame_of codec \<lparr>inv_id = word_of_int n, inv_method = meth, inv_parameters = ps\<rparr>])"
proof -
  obtain invs where i: "sent = map (frame_of codec) invs" "int (length invs) = n"
      "\<forall>i < length invs. inv_id (invs ! i) = word_of_nat i" "\<forall>kp \<in> set pending. call_ok codec invs kp"
    using assms(1) by (auto simp: calls_ok_def)
  let ?v = "\<lparr>inv_id = word_of_int n, inv_method = meth, inv_parameters = ps\<rparr>"
  let ?p = "\<lparr>pc_send_buffer = frame_of codec ?v, pc_response = r, pc_complete = cl\<rparr>"
  have "word_of_int n = (word_of_nat (length invs) :: u32)" using i(2) by (metis of_int_of_nat_eq)
  then have "\<forall>i < length (invs @ [?v]). inv_id ((invs @ [?v]) ! i) = word_of_nat i"
    using i(3) by (simp add: nth_append less_Suc_eq)
  moreover have "call_ok codec (invs @ [?v]) (n, ?p)"
    using i(2) assms(3) by (auto simp: call_ok_def nth_append)
  then have "\<forall>kp \<in> set (omap_set n ?p pending). call_ok codec (invs @ [?v]) kp"
    using i(4) subsetD [OF omap_set_set, of _ n ?p pending] by (auto intro: call_ok_extend)
  moreover have "omap_wf (omap_set n ?p pending)" using assms(1) by (simp add: calls_ok_def omap_wf_set)
  moreover have "n + 1 \<le> int_max" using assms(1,2) by (simp add: calls_ok_def)
  ultimately show ?thesis
    unfolding calls_ok_def using i(1,2) by (simp, intro exI [of _ "invs @ [?v]"]) simp
qed

lemma omap_set_known_values:
  "omap_wf m \<Longrightarrow> map (\<lambda>(k, p). (k, if k = key then f p else p)) (omap_set key v m) = omap_set key (f v) m"
proof (induction m)
  case (Cons x m)
  have same: "map (\<lambda>(k, p). (k, if k = key then f p else p)) m = m" if "\<forall>k \<in> fst ` set m. k \<noteq> key"
    using that by (induction m) auto
  have "map (\<lambda>(k, p). (k, if k = key then f p else p)) m = m" if "key \<le> fst x"
    using Cons.prems that by (intro same) (auto simp: omap_wf_Cons)
  with Cons show ?case by (cases x) (auto simp: omap_wf_Cons)
qed simp

lemma ok_keeps_calls: "keeps_calls codec (calls_ok codec)"
  unfolding keeps_calls_def
proof (intro allI impI settlesI)
  fix meth ps r cl and s t :: client and a :: unit
  assume typed: "rpc_typed meth r" and s: "calls_ok codec (calls s)"
    and run: "rpc_call codec meth ps r cl s = (Returns a, t)"
  have small: "0 \<le> next_message_id s" "next_message_id s \<le> int_max" "\<not> cache_locked s" "omap_wf (pending_calls s)"
    using s by (auto simp: calls_ok_def calls_def)
  have n: "next_message_id s \<noteq> int_max"
    using run by (auto simp: rpc_call_def invocation_for_def next_message_def proc_simps)
  let ?v = "\<lparr>inv_id = word_of_int (next_message_id s), inv_method = meth, inv_parameters = serialize_parameters codec ps\<rparr>"
  have "calls t = (False, next_message_id s + 1,
      omap_set (next_message_id s) \<lparr>pc_send_buffer = frame_of codec ?v, pc_response = r, pc_complete = cl\<rparr> (pending_calls s),
      sent_frames s @ [frame_of codec ?v])"
    using run n small
    by (auto simp: rpc_call_def invocation_for_def next_message_def save_completion_details_def with_cache_lock_def
        send_call_def calls_def proc_simps call_key_small omap_set_known_values frame_of_def)
  then show "calls_ok codec (calls t)"
    using calls_ok_send [OF _ n typed] s small(3) by (simp add: calls_def)
next
  fix meth ps r cl and s t :: client and e
  assume "rpc_call codec meth ps r cl s = (Throws e, t)"
  then show "calls_ok codec (calls t)"
    by (auto simp: rpc_call_def invocation_for_def next_message_def save_completion_details_def with_cache_lock_def
        send_call_def proc_simps split: if_splits)
qed

text \<open>Reading a reply removes at most the call with its id.\<close>

lemma calls_log [simp]: "calls (c\<lparr>logged_errors := es\<rparr>) = calls c" "calls (c\<lparr>incoming := bs\<rparr>) = calls c"
  "calls (c\<lparr>fd_messages := fs\<rparr>) = calls c"
  by (simp_all add: calls_def)

lemma calls_log_error [settle]: "settles (\<lambda>c. Q (calls c)) (log_error msg)"
  unfolding log_error_def by (intro calls_modify) simp

lemma calls_parse_into [settle]: "settles (\<lambda>c. Q (calls c)) (parse_into parse client_replies r body)"
  unfolding parse_into_def by (intro settle calls_modify) (simp add: client_replies_def calls_put)

lemma calls_run_complete:
  assumes "keeps_calls (ce_codec env) Q"
  shows "settles (\<lambda>c. Q (calls c)) (run_complete client_replies (run_closure env) r cl)"
  unfolding run_complete_def
  by (intro settle calls_modify closure_settles [OF assms]) (simp add: client_replies_def calls_put)

lemma complete_response_known:
  assumes "map_of (pending_calls s) (call_key (result_id result)) = Some p"
  shows "complete_response into run result s =
    with_cache_lock (seq (seq (into (pc_response p) (case result_response result of None \<Rightarrow> [] | Some b \<Rightarrow> b))
        (run (pc_response p) (pc_complete p)))
      (modify (\<lambda>s. s\<lparr>pending_calls := omap_erase (call_key (result_id result)) (pending_calls s)\<rparr>))) s"
  using assms
  by (simp add: complete_response_def with_cache_lock_def seq_def sbind_assoc sbind_gets)

lemma with_lock_seq:
  "m (s\<lparr>cache_locked := True\<rparr>) = (y, u) \<Longrightarrow> \<not> cache_locked s \<Longrightarrow> with_cache_lock (seq m (modify f)) s =
     (case y of
        Returns _ \<Rightarrow> (Returns (), (f u)\<lparr>cache_locked := False\<rparr>)
      | Throws e \<Rightarrow> (Throws e, u\<lparr>cache_locked := False\<rparr>)
      | Blocks \<Rightarrow> (Blocks, u)
      | Undefined w \<Rightarrow> (Undefined w, u))"
  by (cases y) (simp_all add: with_cache_lock_def seq_def sbind_def modify_def)

lemma complete_response_calls:
  assumes run: "complete_response (parse_into parse client_replies) (run_complete client_replies (run_closure env)) result s = (x, t)"
    and x: "x = Returns a \<or> x = Throws e"
  shows "\<exists>n pending sent. calls s = (False, n, pending, sent)
    \<and> (calls t = (False, n, pending, sent) \<or> calls t = (False, n, omap_erase (call_key (result_id result)) pending, sent))"
proof -
  let ?key = "call_key (result_id result)" and ?s = "s\<lparr>cache_locked := True\<rparr>"
  obtain n pending sent where s: "calls s = (False, n, pending, sent)"
    using run x by (auto simp: complete_response_def with_cache_lock_def calls_def split: if_splits)
  let ?Q = "\<lambda>st. st = (True, n, pending, sent)"
  have s': "?Q (calls ?s)" "map_of (pending_calls s) = map_of pending" "\<not> cache_locked s"
    using s by (auto simp: calls_def)
  let ?m = "\<lambda>p. seq (parse_into parse client_replies (pc_response p) (case result_response result of None \<Rightarrow> [] | Some b \<Rightarrow> b))
      (run_complete client_replies (run_closure env) (pc_response p) (pc_complete p))"
  have m: "settles (\<lambda>c. ?Q (calls c)) (?m p)" for p
    by (rule settles_seq [OF calls_parse_into calls_run_complete [OF locked_keeps_calls]])
  show ?thesis
  proof (cases "map_of pending ?key")
    case None
    then have "calls t = calls s"
      using run s' by (auto simp: complete_response_def with_cache_lock_def log_error_def calls_def proc_simps)
    then show ?thesis using s by auto
  next
    case (Some p)
    obtain y u where y: "?m p ?s = (y, u)" by fastforce
    have "(x, t) = with_cache_lock (seq (?m p) (modify (\<lambda>s. s\<lparr>pending_calls := omap_erase ?key (pending_calls s)\<rparr>))) s"
      using run Some s'(2) by (simp add: complete_response_known)
    then have body: "(case y of
        Returns _ \<Rightarrow> (x, t) = (Returns (), (u\<lparr>pending_calls := omap_erase ?key (pending_calls u)\<rparr>)\<lparr>cache_locked := False\<rparr>)
      | Throws e \<Rightarrow> (x, t) = (Throws e, u\<lparr>cache_locked := False\<rparr>) | _ \<Rightarrow> False)"
      using x with_lock_seq [where m = "?m p", OF y s'(3)] by (cases y) auto
    then have "?Q (calls u)"
    proof (cases y)
      case (Returns b)
      with y show ?thesis by (intro settlesD(1) [OF m s'(1)]) simp
    next
      case (Throws b)
      with y show ?thesis by (intro settlesD(2) [OF m s'(1)]) simp
    qed simp_all
    then show ?thesis
      using body s by (cases y) (auto simp: calls_def)
  qed
qed

lemma calls_ok_erase: "calls_ok codec (l, n, pending, sent) \<Longrightarrow> calls_ok codec (l, n, omap_erase k pending, sent)"
  using omap_wf_erase [of pending k] by (auto simp: calls_ok_def omap_erase_def)

lemma complete_settles:
  "settles (\<lambda>c. calls_ok codec (calls c))
     (complete_response (parse_into parse client_replies) (run_complete client_replies (run_closure env)) result)"
  by (rule settlesI; drule complete_response_calls) (auto intro: calls_ok_erase)

lemma client_do_settles: "settles (\<lambda>c. calls_ok (ce_codec env) (calls c)) (client_do env ev)"
proof (cases ev)
  case (App_call call)
  then show ?thesis using api_settles [OF ok_keeps_calls] by simp
next
  case Header_read
  have "settles (\<lambda>c. calls_ok (ce_codec env) (calls c)) (read_message (ce_codec env) (ce_parse env) client_replies (run_closure env) body)"
    for body
    unfolding read_message_def by (intro settles_try_catch complete_settles calls_log_error)
  then show ?thesis
    using Header_read by (auto simp: settles_def on_header_read_def split: option.splits)
qed (auto simp: receive_on_channel_def receive_fd_message_def on_header_error_def on_body_error_def on_message_sent_def
    run_if_def intro!: settle calls_modify)

lemma client_reachable_calls: "client_reachable env c \<Longrightarrow> calls_ok (ce_codec env) (calls c)"
proof (induction rule: client_reachable.induct)
  case client_start
  then show ?case by (simp add: calls_ok_def calls_def new_client_def default_client_def int_max_def)
qed (blast intro: settlesD [OF client_do_settles])+


section \<open>Where replies are kept\<close>

text \<open>
  What the channel relies on: a message of the type that is there already can be stored and found
  again, and storing it touches neither the calls nor the descriptors that have arrived.
\<close>

locale reply_store =
  fixes access :: "('r, ('r, 'c, 'z) channel_scheme) reply_access"
  assumes put_calls: "calls (put_reply access r m s) = calls s"
    and put_fds: "fd_messages (put_reply access r m s) = fd_messages s"
    and get_put: "get_reply access r s = Some old \<Longrightarrow> type_of_result m = type_of_result old \<Longrightarrow>
      get_reply access r (put_reply access r m s) = Some m"
    and get_channel: "get_reply access r (s\<lparr>cache_locked := b, fd_messages := fs\<rparr>) = get_reply access r s"
begin

lemma delivered:
  assumes "get_reply access r s = Some old" and "parse (type_of_result old) body = m"
    and "type_of_result m = type_of_result old" and "type_of_result m' = type_of_result old"
    and "\<And>u :: ('r, 'c, 'z) channel_scheme. fd_messages u = fd_messages s \<Longrightarrow> receive_file_descriptors m u = (Returns m', u\<lparr>fd_messages := fs\<rparr>)"
  shows "\<exists>t. seq (parse_into parse access r body) (run_complete access run r cl) s = run cl t
    \<and> get_reply access r t = Some m' \<and> calls t = calls s \<and> fd_messages t = fs"
proof -
  let ?u = "put_reply access r m s"
  let ?v = "put_reply access r m' (?u\<lparr>fd_messages := fs\<rparr>)"
  have "get_reply access r ?u = Some m" by (rule get_put [OF assms(1,3)])
  moreover have fds: "get_reply access r (?u\<lparr>fd_messages := fs\<rparr>) = get_reply access r ?u"
    using get_channel [where r = r and s = ?u and b = "cache_locked ?u" and fs = fs] by simp
  ultimately have "get_reply access r (?u\<lparr>fd_messages := fs\<rparr>) = Some m" by simp
  then have "get_reply access r ?v = Some m'" by (rule get_put) (simp add: assms(3,4))
  moreover have "calls (?u\<lparr>fd_messages := fs\<rparr>) = calls ?u" by (simp add: calls_def)
  then have "calls ?v = calls s" by (simp only: put_calls)
  moreover have "seq (parse_into parse access r body) (run_complete access run r cl) s = run cl ?v"
    using assms(1,2) assms(5) [of ?u, OF put_fds] \<open>get_reply access r ?u = Some m\<close>
    by (simp add: parse_into_def run_complete_def seq_def sbind_def gets_def modify_def)
  moreover have "fd_messages ?v = fs" by (simp add: put_fds)
  ultimately show ?thesis by blast
qed

end

lemma change_surface_fields:
  "fd_messages (change_surface p f c) = fd_messages c"
  "map_of (client_surfaces c) p = Some sf \<Longrightarrow> map_of (client_surfaces (change_surface p f c)) p = Some (f sf)"
  by (simp_all add: change_surface_def split: option.splits)

interpretation client_store: reply_store client_replies
proof
  show "calls (put_reply client_replies r m s) = calls s" for r m s
    by (simp add: client_replies_def calls_put)
  show "fd_messages (put_reply client_replies r m s) = fd_messages s" for r m s
    by (cases "(r, m, s)" rule: client_put.cases) (simp_all add: client_replies_def change_surface_fields)
  show "get_reply client_replies r (put_reply client_replies r m s) = Some m"
    if "get_reply client_replies r s = Some old" "type_of_result m = type_of_result old" for r m s old
    using that
    by (cases r; cases m)
      (auto simp: client_replies_def client_get_def change_surface_fields split: option.splits)
  show "get_reply client_replies r (s\<lparr>cache_locked := b, fd_messages := fs\<rparr>) = get_reply client_replies r s" for r s b fs
    by (simp add: client_replies_def client_get_def split: slot.split option.split)
qed

end
