(* ===== verification/Client_Replies.thy ===== *)
theory Client_Replies
  imports Client_Invariants
begin

text \<open>
  What becomes of a reply that a client reads: it ends up, with its descriptors, in the message that
  the call named, and the closure of the call runs; and what happens when the application makes
  another request from inside that closure.
\<close>

section \<open>Descriptors\<close>

text \<open>The number of descriptors that a message announces, and the message with its descriptors.\<close>

fun side_channel :: "result_message \<Rightarrow> int" where
  "side_channel (R_buffer b) = or_zero (pb_buffer_side_fds b)"
| "side_channel (R_connection c) = (case pb_platform_part c of None \<Rightarrow> 0 | Some p \<Rightarrow> or_zero (pb_platform_side_fds p))"
| "side_channel (R_surface s) = (case pb_surface_buffer s of None \<Rightarrow> 0 | Some b \<Rightarrow> or_zero (pb_buffer_side_fds b))"
| "side_channel _ = 0"

fun attach_fds :: "int list \<Rightarrow> result_message \<Rightarrow> result_message" where
  "attach_fds fds (R_buffer b) = R_buffer (b\<lparr>pb_buffer_fd := fds\<rparr>)"
| "attach_fds fds (R_connection c) =
     R_connection (c\<lparr>pb_platform_part := map_option (\<lambda>p. p\<lparr>pb_platform_fd := fds\<rparr>) (pb_platform_part c)\<rparr>)"
| "attach_fds fds (R_surface s) =
     R_surface (s\<lparr>pb_surface_fd := [], pb_surface_buffer := map_option (\<lambda>b. b\<lparr>pb_buffer_fd := fds\<rparr>) (pb_surface_buffer s)\<rparr>)"
| "attach_fds fds r = r"

definition no_surface_fds :: "result_message \<Rightarrow> bool" where
  "no_surface_fds r \<longleftrightarrow> (case r of R_surface s \<Rightarrow> pb_surface_side_fds s = None | _ \<Rightarrow> True)"

definition fds_waiting :: "int list \<Rightarrow> int list list \<Rightarrow> int list list" where
  "fds_waiting fds rest = (if fds = [] then rest else fds # rest)"

lemma type_attach_fds [simp]: "type_of_result (attach_fds fds r) = type_of_result r"
  by (cases r) simp_all

lemma side_fds_waiting:
  fixes u :: "('r, 'c, 'z) channel_scheme"
  assumes "or_zero announced = int (length fds)" and "fd_messages u = fds_waiting fds rest"
  shows "side_fds announced u = (Returns fds, u\<lparr>fd_messages := rest\<rparr>)"
  using assms
  by (cases announced; cases fds) (auto simp: side_fds_def or_zero_def recv_fds_def fds_waiting_def ret_def)

lemma receive_attach:
  fixes u :: "('r, 'c, 'z) channel_scheme"
  assumes "side_channel r = int (length fds)" and "no_surface_fds r" and "fd_messages u = fds_waiting fds rest"
  shows "receive_file_descriptors r u = (Returns (attach_fds fds r), u\<lparr>fd_messages := rest\<rparr>)"
proof -
  have none: "u\<lparr>fd_messages := rest\<rparr> = u" if "fds = []" using assms(3) that by (simp add: fds_waiting_def)
  show ?thesis
  proof (cases r)
    case (R_connection c)
    then show ?thesis
      using assms none side_fds_waiting [OF _ assms(3)]
      by (auto simp: receive_platform_fds_def proc_simps split: option.splits)
  next
    case (R_surface s)
    then show ?thesis
      using assms none side_fds_waiting [OF _ assms(3)]
      by (auto simp: receive_surface_fds_def receive_buffer_fds_def side_fds_def [of None] no_surface_fds_def proc_simps
          split: option.splits)
  next
    case (R_buffer b)
    then show ?thesis
      using assms side_fds_waiting [OF _ assms(3)] by (simp add: receive_buffer_fds_def proc_simps)
  qed (use assms none in \<open>auto simp: ret_def\<close>)
qed

section \<open>Replies\<close>

lemma type_of_slot: "client_get r c = Some m \<Longrightarrow> type_of_result m = slot_type r"
  by (cases r) (auto simp: client_get_def split: option.splits)

lemma client_get_channel [simp]:
  "client_get r (c\<lparr>incoming := bs\<rparr>) = client_get r c" "client_get r (c\<lparr>cache_locked := l\<rparr>) = client_get r c"
  by (simp_all add: client_get_def split: slot.split option.split)

text \<open>How reading the reply ends once its closure has ended.\<close>

fun reply_ends :: "int \<Rightarrow> unit res \<times> client \<Rightarrow> unit res \<times> client" where
  "reply_ends k (Returns _, t) = (Returns (), t\<lparr>pending_calls := omap_erase k (pending_calls t), cache_locked := False\<rparr>)"
| "reply_ends k (Throws e, t) = log_error ''read_message'' (t\<lparr>cache_locked := False\<rparr>)"
| "reply_ends k (Blocks, t) = (Blocks, t)"
| "reply_ends k (Undefined w, t) = (Undefined w, t)"

lemma header_read_known:
  assumes "read_frame (incoming c) = Some (body, rest)" and "parse_result (ce_codec env) body = result"
    and "call_key (result_id result) = k" and "map_of (pending_calls c) k = Some p" and "\<not> cache_locked c"
  shows "client_do env Header_read c = reply_ends k
    (seq (parse_into (ce_parse env) client_replies (pc_response p) (case result_response result of None \<Rightarrow> [] | Some b \<Rightarrow> b))
       (run_complete client_replies (run_closure env) (pc_response p) (pc_complete p))
       (c\<lparr>incoming := rest, cache_locked := True\<rparr>))"
proof -
  let ?m = "seq (parse_into (ce_parse env) client_replies (pc_response p) (case result_response result of None \<Rightarrow> [] | Some b \<Rightarrow> b))
       (run_complete client_replies (run_closure env) (pc_response p) (pc_complete p))"
  obtain y u where y: "?m (c\<lparr>incoming := rest, cache_locked := True\<rparr>) = (y, u)" by fastforce
  have "map_of (pending_calls (c\<lparr>incoming := rest\<rparr>)) (call_key (result_id result)) = Some p"
    using assms(3,4) by simp
  from complete_response_known [OF this]
  have "client_do env Header_read c = try_catch
      (with_cache_lock (seq ?m (modify (\<lambda>s. s\<lparr>pending_calls := omap_erase k (pending_calls s)\<rparr>))))
      (\<lambda>e. log_error ''read_message'') (c\<lparr>incoming := rest\<rparr>)"
    using assms(1-3) by (simp add: on_header_read_def read_message_def try_catch_def)
  moreover have "with_cache_lock (seq ?m (modify (\<lambda>s. s\<lparr>pending_calls := omap_erase k (pending_calls s)\<rparr>))) (c\<lparr>incoming := rest\<rparr>) =
      (case y of
        Returns _ \<Rightarrow> (Returns (), (u\<lparr>pending_calls := omap_erase k (pending_calls u)\<rparr>)\<lparr>cache_locked := False\<rparr>)
      | Throws e \<Rightarrow> (Throws e, u\<lparr>cache_locked := False\<rparr>)
      | Blocks \<Rightarrow> (Blocks, u)
      | Undefined w \<Rightarrow> (Undefined w, u))"
    by (rule with_lock_seq) (use y assms(5) in simp_all)
  ultimately show ?thesis
    using y by (cases y) (simp_all add: try_catch_def)
qed

section \<open>Requests from a callback\<close>

fun is_request :: "client_call \<Rightarrow> bool" where
  "is_request (Call_get_region p) = False"
| "is_request (Call_get_package p) = False"
| "is_request (Call_wait h) = False"
| "is_request _ = True"

fun callback_of :: "closure \<Rightarrow> nat option" where
  "callback_of (On_connected cb) = Some cb"
| "callback_of (On_created p cb) = Some cb"
| "callback_of (On_new_buffer p cb) = Some cb"
| "callback_of (On_released p h cb) = Some cb"
| "callback_of (On_done_drm_auth_magic cb) = Some cb"
| "callback_of _ = None"

text \<open>A call that never comes to an end when \<open>P\<close> holds, and one that cannot fail and keeps \<open>P\<close>.\<close>

definition stuck :: "('s \<Rightarrow> bool) \<Rightarrow> ('s, 'a) proc \<Rightarrow> bool" where
  "stuck P m \<longleftrightarrow> (\<forall>s. P s \<longrightarrow> (\<exists>t. m s = (Blocks, t)) \<or> (\<exists>w t. m s = (Undefined w, t)))"

definition smooth :: "('s \<Rightarrow> bool) \<Rightarrow> ('s, 'a) proc \<Rightarrow> bool" where
  "smooth P m \<longleftrightarrow> (\<forall>s. P s \<longrightarrow>
     (\<exists>a t. m s = (Returns a, t) \<and> P t) \<or> (\<exists>t. m s = (Blocks, t)) \<or> (\<exists>w t. m s = (Undefined w, t)))"

named_theorems stuck_rules \<open>rules for \<^const>\<open>stuck\<close> and \<^const>\<open>smooth\<close>\<close>

lemma stuck_first:
  assumes "stuck P m"
  shows "stuck P (sbind m f)"
  unfolding stuck_def [of P "sbind m f"]
proof (intro allI impI)
  fix s
  assume "P s"
  with assms consider t where "m s = (Blocks, t)" | w t where "m s = (Undefined w, t)" unfolding stuck_def by blast
  then show "(\<exists>t. sbind m f s = (Blocks, t)) \<or> (\<exists>w t. sbind m f s = (Undefined w, t))"
    by cases (simp_all add: sbind_def)
qed

lemma stuck_first_seq: "stuck P m \<Longrightarrow> stuck P (seq m n)"
  unfolding seq_def by (rule stuck_first)

lemma smooth_cases:
  assumes "smooth P m" and "P s"
  obtains a t where "m s = (Returns a, t)" "P t" | t where "m s = (Blocks, t)" | w t where "m s = (Undefined w, t)"
  using assms unfolding smooth_def by blast

lemma stuck_then:
  assumes "smooth P m" and "\<And>a. stuck P (f a)"
  shows "stuck P (sbind m f)"
  unfolding stuck_def
proof (intro allI impI)
  fix s
  assume "P s"
  then show "(\<exists>t. sbind m f s = (Blocks, t)) \<or> (\<exists>w t. sbind m f s = (Undefined w, t))"
    by (rule smooth_cases [OF assms(1)]) (use assms(2) in \<open>auto simp: sbind_def stuck_def\<close>)
qed

lemma stuck_seq: "smooth P m \<Longrightarrow> stuck P n \<Longrightarrow> stuck P (seq m n)"
  unfolding seq_def by (rule stuck_then)

lemma smooth_basic [stuck_rules]:
  "smooth P (ret a)" "smooth P (gets f)" "smooth P (undef w)" "stuck P (undef w)"
  by (simp_all add: smooth_def stuck_def proc_simps)

lemma smooth_sbind [stuck_rules]:
  assumes "smooth P m" and "\<And>a. smooth P (f a)"
  shows "smooth P (sbind m f)"
  unfolding smooth_def [of P "sbind m f"]
proof (intro allI impI)
  fix s
  assume "P s"
  then show "(\<exists>a t. sbind m f s = (Returns a, t) \<and> P t) \<or> (\<exists>t. sbind m f s = (Blocks, t)) \<or> (\<exists>w t. sbind m f s = (Undefined w, t))"
    by (rule smooth_cases [OF assms(1)]) (use assms(2) in \<open>auto simp: sbind_def smooth_def\<close>)
qed

lemma smooth_option [stuck_rules]:
  "smooth P m \<Longrightarrow> (\<And>a. smooth P (f a)) \<Longrightarrow> smooth P (case v of None \<Rightarrow> m | Some a \<Rightarrow> f a)"
  "stuck P m \<Longrightarrow> (\<And>a. stuck P (f a)) \<Longrightarrow> stuck P (case v of None \<Rightarrow> m | Some a \<Rightarrow> f a)"
  by (cases v; simp)+

lemma locked_modify [stuck_rules]: "(\<And>c. cache_locked (f c) = cache_locked c) \<Longrightarrow> smooth cache_locked (modify f)"
  by (simp add: smooth_def modify_def)

lemma locked_on_surface [stuck_rules]:
  "(\<And>sf e sf'. m sf \<noteq> (Throws e, sf')) \<Longrightarrow> smooth cache_locked (Client.on_surface p m)"
  by (auto simp: smooth_def Client.on_surface_def split: option.splits prod.splits res.splits) (metis res.exhaust)

lemma locked_expect [stuck_rules]: "smooth cache_locked (on_handle (Configure_handle p) expect_result)"
  unfolding on_handle_def handle_ref.case
  by (rule locked_on_surface) (simp add: zoom_def expect_result_def)

lemma locked_release_region [stuck_rules]: "smooth cache_locked (release_cpu_region p)"
proof -
  have "smooth cache_locked (zoom client_drm (\<lambda>d c. c\<lparr>client_drm := d\<rparr>) (release_memory_region r))" for r
    by (simp add: smooth_def zoom_def release_memory_region_def gem_handle_close_def seq_def sbind_def modify_def)
  then show ?thesis unfolding release_cpu_region_def by (intro stuck_rules) simp_all
qed

lemma locked_rpc [stuck_rules]: "stuck cache_locked (rpc_call codec meth ps r cl)"
  by (auto simp: stuck_def rpc_call_def invocation_for_def next_message_def save_completion_details_def
      with_cache_lock_def proc_simps)

lemma locked_rpc_seq: "stuck cache_locked (seq (rpc_call codec meth ps r cl) n)"
  by (rule stuck_first_seq [OF locked_rpc])

lemma locked_requests:
  "stuck cache_locked (client_connect env lightdm name cb)" "stuck cache_locked (client_create_surface env params cb)"
  "stuck cache_locked (client_next_buffer env p cb)" "stuck cache_locked (client_configure env p attr v)"
  "stuck cache_locked (client_release_surface env p cb)" "stuck cache_locked (client_disconnect env)"
  "stuck cache_locked (client_drm_auth_magic env magic cb)"
  unfolding client_connect_def client_create_surface_def client_next_buffer_def client_configure_def
    client_release_surface_def client_disconnect_def client_drm_auth_magic_def
  by (intro locked_rpc_seq stuck_then stuck_seq stuck_rules; simp add: gets_def)+

lemma locked_request: "is_request call \<Longrightarrow> stuck cache_locked (client_api env call)"
  by (cases call)
    (simp_all add: forget_def client_select_focus_def locked_rpc locked_requests stuck_first_seq)


lemma locked_callback:
  assumes "ce_user env cb = call # later" and "is_request call"
  shows "stuck cache_locked (run_callback env cb)"
  unfolding run_callback_def assms(1) for_each.simps
  by (intro stuck_seq stuck_rules stuck_first_seq locked_request assms(2)) simp

lemma gbm_deposit_returns: "\<exists>e. deposit_package gbm_create_buffer package i sz pf d = (Returns (), e)"
  by (simp add: deposit_package_def gbm_create_buffer_def proc_simps split: option.split)

lemma populate_buffer_cases: "(\<exists>package. populate_buffer sf = Returns package) \<or> populate_buffer sf = Undefined ''array index''"
  by (simp add: populate_buffer_def split: option.split bool.split)

lemma gbm_incoming_smooth: "process_incoming_buffer gbm_create_buffer sf \<noteq> (Throws e, sf')"
proof -
  have "catch_runtime_error (zoom buffer_depository (\<lambda>d sf. sf\<lparr>buffer_depository := d\<rparr>)
      (deposit_package gbm_create_buffer package i sz pf)) sf \<noteq> (Throws e, sf')" for package i sz pf
    using gbm_deposit_returns [of package i sz pf "buffer_depository sf"]
    by (auto simp: catch_runtime_error_def try_catch_def zoom_def)
  then show ?thesis
    using populate_buffer_cases [of sf] by (auto simp: process_incoming_buffer_def Let_def sbind_def lift_res_def)
qed

lemma locked_platform [stuck_rules]: "smooth cache_locked create_client_platform"
  by (auto simp: smooth_def create_client_platform_def populate_platform_def proc_simps split: option.splits)

lemma locked_closure:
  assumes "callback_of cl = Some cb" and "ce_user env cb = call # later" and "is_request call"
    and "ce_factory env = gbm_create_buffer"
  shows "stuck cache_locked (run_closure env cl)"
proof -
  note cb = stuck_first_seq [OF locked_callback [OF assms(2,3)]]
  show ?thesis
    using assms(1)
    by (cases cl)
      (simp_all add: connected_def created_def new_buffer_def released_def done_drm_auth_magic_def assms(4) cb,
       (intro cb stuck_then stuck_seq stuck_rules; simp add: gbm_incoming_smooth modify_def)+)
qed

lemma locked_receive: "smooth cache_locked (receive_file_descriptors m)"
proof -
  have "smooth cache_locked (side_fds a)" for a :: "int option"
    by (auto simp: smooth_def side_fds_def recv_fds_def ret_def split: option.splits list.splits)
  then show ?thesis
    by (cases m) (auto simp: receive_surface_fds_def receive_buffer_fds_def receive_platform_fds_def intro!: stuck_rules)
qed

lemma locked_reply:
  assumes "stuck cache_locked (run_closure env cl)"
  shows "stuck cache_locked (seq (parse_into parse client_replies r body) (run_complete client_replies (run_closure env) r cl))"
proof -
  have put: "cache_locked (client_put r m c) = cache_locked c" for m c
    using calls_put [of r m c] by (simp add: calls_def)
  have "smooth cache_locked (parse_into parse client_replies r body)"
    unfolding parse_into_def by (intro stuck_rules) (simp add: client_replies_def put)
  moreover have "stuck cache_locked (run_complete client_replies (run_closure env) r cl)"
    unfolding run_complete_def
    by (intro stuck_then stuck_seq stuck_rules locked_receive assms) (simp add: client_replies_def put)
  ultimately show ?thesis by (rule stuck_seq)
qed

section \<open>Properties\<close>

text \<open>C33: A reply that arrives for a call in progress, with the descriptors it announces, ends up in the
  message that the call named, of the type the client expects, with exactly those descriptors in
  their place; then the closure of the call runs, while no other call can be made or completed, and when
  it has returned this call and no other is no longer pending. If the closure fails with an
  exception the call stays pending for ever.\<close>

theorem reply_completes_call:
  assumes "client_reachable env c" and "map_of (pending_calls c) k = Some p"
    and "client_get (pc_response p) c = Some old" and "type_of_result r = slot_type (pc_response p)"
    and "side_channel r = int (length fds)" and "no_surface_fds r" and "fd_messages c = fds_waiting fds later_fds"
    and "result = \<lparr>result_id = word_of_int k, result_response = Some (serialize_response (ce_codec env) r)\<rparr>"
    and "parse_result (ce_codec env) (serialize_result (ce_codec env) result) = result"
    and "ce_parse env (type_of_result r) (serialize_response (ce_codec env) r) = r"
    and "length (serialize_result (ce_codec env) result) < 65536"
    and "incoming c = whole_message (serialize_result (ce_codec env) result) @ later"
  shows "\<exists>t. client_get (pc_response p) t = Some (attach_fds fds r) \<and> fd_messages t = later_fds
    \<and> cache_locked t \<and> pending_calls t = pending_calls c \<and> sent_frames t = sent_frames c
    \<and> client_do env Header_read c = reply_ends k (run_closure env (pc_complete p) t)"
proof -
  have ok: "calls_ok (ce_codec env) (calls c)" using assms(1) by (rule client_reachable_calls)
  then have unlocked: "\<not> cache_locked c" and "0 \<le> k" "k \<le> int_max"
    using map_of_SomeD [OF assms(2)] by (auto simp: calls_ok_def calls_def call_ok_def)
  then have key: "call_key (result_id result) = k" by (simp add: assms(8) call_key_small)
  have "read_frame (incoming c) = Some (serialize_result (ce_codec env) result, later)"
    using assms(11,12) by (simp add: read_frame_whole_message)
  from header_read_known [OF this assms(9) key assms(2) unlocked]
  have head: "client_do env Header_read c = reply_ends k
      (seq (parse_into (ce_parse env) client_replies (pc_response p) (serialize_response (ce_codec env) r))
         (run_complete client_replies (run_closure env) (pc_response p) (pc_complete p))
         (c\<lparr>incoming := later, cache_locked := True\<rparr>))"
    by (simp add: assms(8))
  let ?s = "c\<lparr>incoming := later, cache_locked := True\<rparr>"
  have type: "type_of_result old = type_of_result r" using type_of_slot [OF assms(3)] assms(4) by simp
  have get: "get_reply client_replies (pc_response p) ?s = Some old" using assms(3) by (simp add: client_replies_def)
  have "\<exists>t. seq (parse_into (ce_parse env) client_replies (pc_response p) (serialize_response (ce_codec env) r))
      (run_complete client_replies (run_closure env) (pc_response p) (pc_complete p)) ?s = run_closure env (pc_complete p) t
    \<and> get_reply client_replies (pc_response p) t = Some (attach_fds fds r) \<and> calls t = calls ?s \<and> fd_messages t = later_fds"
    using type assms(5,6,7,10) receive_attach
    by (intro client_store.delivered [OF get]) simp_all
  then show ?thesis
    using head by (auto simp: client_replies_def calls_def)
qed


text \<open>A server that grants the connection and passes one descriptor, and an application that only
  waits, or asks for a surface as soon as it is connected.\<close>

definition sample_granted :: pb_connection where
  "sample_granted = \<lparr>pb_platform_part = Some \<lparr>pb_platform_fd = [], pb_platform_data = [], pb_platform_side_fds = Some 1,
     pb_platform_error = None\<rparr>, pb_display_info_part = None, pb_connection_error = None\<rparr>"

definition sample_client_codec :: wire_codec where
  "sample_client_codec = \<lparr>
     parse_invocation = (\<lambda>b. \<lparr>inv_id = 0, inv_method = ''connect'', inv_parameters = []\<rparr>),
     serialize_invocation = (\<lambda>_. [1]), parse_connect_parameters = (\<lambda>_. \<lparr>application_name = ''a'', lightdm_id = None\<rparr>),
     parse_surface_parameters = (\<lambda>_. \<lparr>sp_width = 1, sp_height = 1, sp_pixel_format = 1, sp_buffer_usage = 1,
       sp_surface_name = ''s''\<rparr>),
     parse_surface_id = (\<lambda>_. 0), parse_lightdm_id = (\<lambda>_. 0), parse_magic = (\<lambda>_. 0), parse_setting = (\<lambda>_. empty_setting),
     serialize_parameters = (\<lambda>_. []), parse_result = (\<lambda>_. \<lparr>result_id = 0, result_response = Some [7]\<rparr>),
     serialize_result = (\<lambda>_. [9]), serialize_response = (\<lambda>_. [7])\<rparr>"

definition sample_client_env :: "client_call list \<Rightarrow> client_env" where
  "sample_client_env us = \<lparr>ce_codec = sample_client_codec, ce_parse = (\<lambda>_ _. R_connection sample_granted),
     ce_factory = gbm_create_buffer,
     ce_drm = \<lparr>drm_gem_open = (\<lambda>_ _. Inl 1), drm_map_dumb = (\<lambda>_ _. Inl 1), drm_mmap = (\<lambda>_ _ _. Inl 1)\<rparr>,
     ce_user = (\<lambda>_. us)\<rparr>"

definition sample_request :: client_call where
  "sample_request = Call_create_surface \<lparr>msp_name = None, msp_width = 1, msp_height = 1, msp_pixel_format = 1, msp_buffer_usage = 1\<rparr> 1"

definition sample_client_events :: "client_event list" where
  "sample_client_events = [App_call (Call_connect None ''a'' 0), Fds_in [5], Bytes_in [0, 1, 9]]"

lemma sample_client_run:
  "map_option (\<lambda>c. (map (\<lambda>p. (fst p, pc_response (snd p), pc_complete (snd p))) (pending_calls c), fd_messages c, incoming c))
     (client_run (sample_client_env us) sample_client_events new_client)
   = Some ([(0, Connect_slot, On_connected 0)], [[5]], [0, 1, 9])"
  by code_simp

lemma sample_client_state:
  obtains c p where "client_reachable (sample_client_env us) c" and "map_of (pending_calls c) 0 = Some p"
    and "pc_response p = Connect_slot" and "pc_complete p = On_connected 0" and "fd_messages c = [[5]]" and "incoming c = [0, 1, 9]"
proof -
  obtain c where run: "client_run (sample_client_env us) sample_client_events new_client = Some c"
      and c: "map (\<lambda>p. (fst p, pc_response (snd p), pc_complete (snd p))) (pending_calls c) = [(0, Connect_slot, On_connected 0)]"
        "fd_messages c = [[5]]" "incoming c = [0, 1, 9]"
    using sample_client_run [of us] by (auto simp: map_option_case split: option.splits)
  obtain p where "map_of (pending_calls c) 0 = Some p" "pc_response p = Connect_slot" "pc_complete p = On_connected 0"
    using c(1) by (auto simp: map_eq_Cons_conv)
  with c(2,3) client_run_reachable [OF client_start run] show thesis by (intro that)
qed

lemma sample_frame: "[0, 1, 9] = whole_message (serialize_result (ce_codec (sample_client_env us)) w) @ []"
  by (simp add: sample_client_env_def sample_client_codec_def whole_message_def header_bytes_def)

theorem reply_completes_call_witness:
  "\<exists>c t. client_reachable (sample_client_env []) c \<and> client_get Connect_slot t = Some (attach_fds [5] (R_connection sample_granted))
     \<and> cache_locked t \<and> client_do (sample_client_env []) Header_read c = reply_ends 0 (connected (sample_client_env []) 0 t)"
proof -
  let ?env = "sample_client_env []" and ?r = "R_connection sample_granted"
  obtain c p where c: "client_reachable ?env c" "map_of (pending_calls c) 0 = Some p" "pc_response p = Connect_slot"
      "pc_complete p = On_connected 0" "fd_messages c = [[5]]" "incoming c = [0, 1, 9]"
    by (rule sample_client_state)
  have "client_get (pc_response p) c = Some (R_connection (connect_result c))" "type_of_result ?r = slot_type (pc_response p)"
      "side_channel ?r = int (length [5 :: int])" "no_surface_fds ?r" "fd_messages c = fds_waiting [5] []"
    using c(3,5) by (simp_all add: client_get_def sample_granted_def or_zero_def no_surface_fds_def fds_waiting_def)
  note store = this
  have "parse_result (ce_codec ?env) (serialize_result (ce_codec ?env) \<lparr>result_id = word_of_int 0,
        result_response = Some (serialize_response (ce_codec ?env) ?r)\<rparr>)
      = \<lparr>result_id = word_of_int 0, result_response = Some (serialize_response (ce_codec ?env) ?r)\<rparr>"
      "ce_parse ?env (type_of_result ?r) (serialize_response (ce_codec ?env) ?r) = ?r"
      "length (serialize_result (ce_codec ?env) \<lparr>result_id = word_of_int 0,
        result_response = Some (serialize_response (ce_codec ?env) ?r)\<rparr>) < 65536"
    by (simp_all add: sample_client_env_def sample_client_codec_def)
  from reply_completes_call [OF c(1,2) store refl this, of "[]"] c sample_frame
  obtain t where "client_get (pc_response p) t = Some (attach_fds [5] ?r)" "cache_locked t"
      "client_do ?env Header_read c = reply_ends 0 (run_closure ?env (pc_complete p) t)"
    by (metis (no_types))
  then show ?thesis
    using c(1,3,4) by (intro exI [of _ c] exI [of _ t]) (simp only: run_closure.simps simp_thms)
qed

text \<open>C34: An application that makes a request from inside a callback hangs: the completion runs with
  the mutex of the pending calls held and saving the new call needs the same mutex, so reading the
  reply neither returns nor fails with an exception: it waits for ever, unless the behaviour is
  already undefined before the mutex is asked for (the witness is a run that waits).\<close>

theorem callback_request_deadlocks:
  assumes "client_reachable env c" and "read_frame (incoming c) = Some (body, rest)"
    and "map_of (pending_calls c) (call_key (result_id (parse_result (ce_codec env) body))) = Some p"
    and "callback_of (pc_complete p) = Some cb" and "ce_user env cb = call # later" and "is_request call"
    and "ce_factory env = gbm_create_buffer"
  shows "(\<exists>t. client_do env Header_read c = (Blocks, t)) \<or> (\<exists>w t. client_do env Header_read c = (Undefined w, t))"
proof -
  have "\<not> cache_locked c" using client_reachable_calls [OF assms(1)] by (auto simp: calls_ok_def calls_def)
  note head = header_read_known [OF assms(2) refl refl assms(3) this]
  have "stuck cache_locked (run_closure env (pc_complete p))"
    by (rule locked_closure [OF assms(4-7)])
  note never = locked_reply [OF this, of "ce_parse env" "pc_response p"
      "case result_response (parse_result (ce_codec env) body) of None \<Rightarrow> [] | Some b \<Rightarrow> b", unfolded stuck_def, rule_format]
  show ?thesis
    unfolding head by (rule disjE [OF never [of "c\<lparr>incoming := rest, cache_locked := True\<rparr>"]]) auto
qed

lemma sample_deadlock:
  "map_option (\<lambda>c. (fst (client_do (sample_client_env [sample_request]) Header_read c),
       map (\<lambda>p. (fst p, pc_complete (snd p))) (pending_calls c), incoming c))
     (client_run (sample_client_env [sample_request]) sample_client_events new_client)
   = Some (Blocks, [(0, On_connected 0)], [0, 1, 9])"
  by code_simp

lemma sample_deadlock_state:
  obtains c p where "client_reachable (sample_client_env [sample_request]) c" and "map_of (pending_calls c) 0 = Some p"
    and "pc_complete p = On_connected 0" and "incoming c = [0, 1, 9]"
    and "fst (client_do (sample_client_env [sample_request]) Header_read c) = Blocks"
proof -
  let ?env = "sample_client_env [sample_request]"
  obtain c where run: "client_run ?env sample_client_events new_client = Some c"
      and x: "fst (client_do ?env Header_read c) = Blocks"
      and l: "map (\<lambda>p. (fst p, pc_complete (snd p))) (pending_calls c) = [(0, On_connected 0)]" and b: "incoming c = [0, 1, 9]"
    using sample_deadlock unfolding map_option_eq_Some prod.inject by (elim exE conjE)
  obtain p where "map_of (pending_calls c) 0 = Some p" "pc_complete p = On_connected 0"
    using l by (auto simp: map_eq_Cons_conv)
  from that [OF client_run_reachable [OF client_start run] this b x] show thesis .
qed

theorem callback_request_deadlocks_witness:
  "\<exists>c t. client_reachable (sample_client_env [sample_request]) c
     \<and> client_do (sample_client_env [sample_request]) Header_read c = (Blocks, t)"
proof -
  let ?env = "sample_client_env [sample_request]"
  obtain c p where c: "client_reachable ?env c" "map_of (pending_calls c) 0 = Some p" "pc_complete p = On_connected 0"
      "incoming c = [0, 1, 9]" "fst (client_do ?env Header_read c) = Blocks"
    by (rule sample_deadlock_state)
  have "read_frame (incoming c) = Some ([9], [])"
    using c(4) by (simp add: read_frame_def body_size_def)
  moreover have "map_of (pending_calls c) (call_key (result_id (parse_result (ce_codec ?env) [9]))) = Some p"
    using c(2) by (simp add: sample_client_env_def sample_client_codec_def call_key_def s32_id)
  moreover have "callback_of (pc_complete p) = Some 0" "ce_user ?env 0 = sample_request # []" "is_request sample_request"
      "ce_factory ?env = gbm_create_buffer"
    using c(3) by (simp_all add: sample_client_env_def sample_request_def)
  ultimately have "(\<exists>t. client_do ?env Header_read c = (Blocks, t)) \<or> (\<exists>w t. client_do ?env Header_read c = (Undefined w, t))"
    by (rule callback_request_deadlocks [OF c(1)])
  then obtain t where "client_do ?env Header_read c = (Blocks, t)" by (rule disjE) (use c(5) in auto)
  with c(1) show ?thesis by - (rule exI [of _ c], rule exI [of _ t], intro conjI)
qed

end
