(* ===== verification/Client_Server.thy ===== *)
theory Client_Server
  imports Client_Replies Frontend_Invariants
begin

text \<open>
  The client library and the server's frontend together: what the server answers to a call that a
  client has in progress.
\<close>

lemma known_methods_typed:
  "method_response method \<noteq> None \<Longrightarrow> method \<noteq> ''test_file_descriptors'' \<Longrightarrow> method \<in> set known_methods"
  by (auto simp: method_response_def service_methods_def known_methods_def split: if_splits)

lemma whole_message_inject: "whole_message b = whole_message b' \<longleftrightarrow> b = b'"
  by (auto simp: whole_message_def header_bytes_def)

text \<open>A serialisation of invocations that can be read back: the id bit by bit, the name of the
  method and the parameters.\<close>

definition spell_id :: "u32 \<Rightarrow> bytes" where
  "spell_id n = map (\<lambda>i. if bit n i then 1 else 0) [0..<32]"

definition read_id :: "bytes \<Rightarrow> u32" where
  "read_id bs = horner_sum of_bool 2 (map (\<lambda>b. b = 1) bs)"

definition sample_spell :: "invocation \<Rightarrow> bytes" where
  "sample_spell v = spell_id (inv_id v) @ replicate (length (inv_method v)) 1 @ [0] @ map (\<lambda>x. word_of_nat (of_char x)) (inv_method v) @ inv_parameters v"

definition sample_read :: "bytes \<Rightarrow> invocation" where
  "sample_read bs =
     (let rest = drop 32 bs; n = length (takeWhile (\<lambda>b. b = 1) rest); text = drop (Suc n) rest
      in \<lparr>inv_id = read_id (take 32 bs), inv_method = map (\<lambda>b. char_of (unat b)) (take n text), inv_parameters = drop n text\<rparr>)"

lemma read_spell_id: "read_id (spell_id n) = n"
proof -
  have "map (\<lambda>b. b = 1) (spell_id n) = map (bit n) [0..<32]" by (simp add: spell_id_def comp_def)
  then show ?thesis by (simp add: read_id_def horner_sum_bit_eq_take_bit take_bit_word_eq_self)
qed

lemma sample_spell_read: "sample_read (sample_spell v) = v"
proof -
  have "length (spell_id (inv_id v)) = 32" by (simp add: spell_id_def)
  moreover have "takeWhile (\<lambda>b. b = 1) (replicate n 1 @ 0 # xs) = replicate n (1 :: u8)" for n xs
    by (induction n) simp_all
  moreover have "unat (word_of_nat (of_char x) :: u8) = of_char x" for x
    by (simp add: unat_of_nat take_bit_nat_eq_self of_char_mod_256)
  ultimately show ?thesis
    by (simp add: sample_read_def sample_spell_def Let_def read_spell_id comp_def)
qed

section \<open>Properties\<close>

text \<open>C32: Every call that a client has in progress has been sent, under an id that no other call in
  progress has, and when the server processes it while the socket works it answers with that id and with a
  message of exactly the type that the client is going to parse it into, followed by the descriptors
  that this message announces.\<close>

theorem pending_call_answered:
  assumes "client_reachable cenv c" and "map_of (pending_calls c) k = Some p"
    and "ce_codec cenv = env_codec env"
    and "\<forall>v. parse_invocation (env_codec env) (serialize_invocation (env_codec env) v) = v"
    and "pc_send_buffer p = whole_message body"
    and "socket_ok env" and "process_message env tfd key body m = (x, m')"
    and "x \<noteq> Blocks" and "\<forall>w. x \<noteq> Undefined w" and "map_of (med_resources m) key = None"
  shows "whole_message body \<in> set (sent_frames c) \<and> call_key (word_of_int k) = k
    \<and> (\<exists>r fds. sent_items m' = sent_items m @ reply env (word_of_int k) r # with_fds fds
         \<and> type_of_result r = slot_type (pc_response p) \<and> announced r = int (length fds))"
proof -
  let ?codec = "env_codec env"
  have "calls_ok ?codec (calls c)" using client_reachable_calls [OF assms(1)] assms(3) by simp
  then obtain invs where sent: "sent_frames c = map (frame_of ?codec) invs" and n: "int (length invs) \<le> int_max"
      and ids: "\<forall>i < length invs. inv_id (invs ! i) = word_of_nat i" and ok: "call_ok ?codec invs (k, p)"
    using map_of_SomeD [OF assms(2)] by (auto simp: calls_ok_def calls_def)
  let ?v = "invs ! nat k"
  have k: "0 \<le> k" "nat k < length invs" and typed: "rpc_typed (inv_method ?v) (pc_response p)"
    and frame: "whole_message body = frame_of ?codec ?v"
    using ok assms(5) by (auto simp: call_ok_def)
  have "word_of_nat (nat k) = (word_of_int k :: u32)"
    using of_int_of_nat_eq [of "nat k", where 'a = u32] k(1) by simp
  then have i: "inv_id ?v = word_of_int k" using ids k(2) by simp
  have call: "?v = parse_invocation ?codec body"
    using frame assms(4) by (simp add: frame_of_def whole_message_inject)
  have "inv_method ?v \<in> set known_methods"
    using typed by (intro known_methods_typed) (auto simp: rpc_typed_def)
  from one_reply_per_invocation_parts(1) [OF assms(6) call assms(7-10) this] typed i
  obtain r fds where "sent_items m' = sent_items m @ reply env (word_of_int k) r # with_fds fds"
      "type_of_result r = slot_type (pc_response p)" "announced r = int (length fds)"
    by (auto simp: rpc_typed_def)
  then have "\<exists>r fds. sent_items m' = sent_items m @ reply env (word_of_int k) r # with_fds fds
      \<and> type_of_result r = slot_type (pc_response p) \<and> announced r = int (length fds)"
    by (intro exI [of _ r] exI [of _ fds] conjI)
  moreover have "call_key (word_of_int k) = k" using k n by (intro call_key_small) auto
  moreover have "whole_message body \<in> set (sent_frames c)" using frame sent k(2) by simp
  ultimately show ?thesis by blast
qed

definition sample_shared_codec :: wire_codec where
  "sample_shared_codec = sample_codec\<lparr>parse_invocation := sample_read, serialize_invocation := sample_spell\<rparr>"

definition sample_shared_frontend :: "gbm_allocator frontend_env" where
  "sample_shared_frontend = sample_frontend\<lparr>env_codec := sample_shared_codec\<rparr>"

definition sample_shared_client :: client_env where
  "sample_shared_client = (sample_client_env [])\<lparr>ce_codec := sample_shared_codec\<rparr>"

definition sample_invocation :: invocation where
  "sample_invocation = \<lparr>inv_id = 0, inv_method = ''connect'', inv_parameters = []\<rparr>"

lemma sample_dispatch:
  "fst (dispatch sample_shared_frontend (\<lambda>d. d) 0 sample_invocation (new_mediator sample_shell)) = Returns True"
  by code_simp

lemma sample_shared_call:
  "(case client_api sample_shared_client (Call_connect None ''a'' 0) new_client of (x, c) \<Rightarrow>
      (x, map (\<lambda>(k, p). (k, pc_response p, pc_send_buffer p = whole_message (sample_spell sample_invocation))) (pending_calls c)))
   = (Returns (), [(0, Connect_slot, True)])"
  by code_simp

theorem pending_call_answered_witness:
  "\<exists>c p m' r fds. client_reachable sample_shared_client c \<and> map_of (pending_calls c) 0 = Some p
     \<and> process_message sample_shared_frontend (\<lambda>d. d) 0 (sample_spell sample_invocation) (new_mediator sample_shell)
         = (Returns True, m')
     \<and> sent_items m' = reply sample_shared_frontend 0 r # with_fds fds \<and> type_of_result r = T_connection"
proof -
  let ?env = sample_shared_frontend and ?m = "new_mediator sample_shell" and ?b = "sample_spell sample_invocation"
  obtain c p where c: "client_api sample_shared_client (Call_connect None ''a'' 0) new_client = (Returns (), c)"
      "map_of (pending_calls c) 0 = Some p" "pc_response p = Connect_slot" "pc_send_buffer p = whole_message ?b"
    using sample_shared_call by (auto simp: map_eq_Cons_conv split: prod.splits)
  have reach: "client_reachable sample_shared_client c"
    using c(1) by (intro client_returns [OF client_start, of _ "App_call (Call_connect None ''a'' 0)"]) simp
  have codec: "ce_codec sample_shared_client = env_codec ?env"
      "\<forall>v. parse_invocation (env_codec ?env) (serialize_invocation (env_codec ?env) v) = v"
    by (simp_all add: sample_shared_client_def sample_shared_frontend_def sample_shared_codec_def sample_spell_read)
  obtain m' where "dispatch ?env (\<lambda>d. d) 0 sample_invocation ?m = (Returns True, m')"
    using sample_dispatch by (metis prod.collapse)
  moreover have "parse_invocation (env_codec ?env) ?b = sample_invocation"
    by (simp add: sample_shared_frontend_def sample_shared_codec_def sample_spell_read)
  ultimately have m': "process_message ?env (\<lambda>d. d) 0 ?b ?m = (Returns True, m')"
    by (simp add: process_message_def try_catch_def)
  have ok: "socket_ok ?env" "map_of (med_resources ?m) 0 = None" "sent_items ?m = []"
    by (simp_all add: socket_ok_def sample_shared_frontend_def sample_frontend_def new_mediator_def)
  from pending_call_answered [OF reach c(2) codec c(4) ok(1) m' _ _ ok(2)] c(3) ok(3)
  obtain r fds where "sent_items m' = reply ?env 0 r # with_fds fds" "type_of_result r = T_connection" by auto
  with reach c(2) m' show ?thesis
    by - (rule exI [of _ c], rule exI [of _ p], rule exI [of _ m'], rule exI [of _ r], rule exI [of _ fds], intro conjI)
qed

end
