(* ===== verification/Client_Library.thy ===== *)
theory Client_Library
  imports Client_Invariants
begin

text \<open>
  The C interface of the client library (\<^verbatim>\<open>client/mir_client_library.cpp\<close>): connections are made,
  checked and released here, failures become the error connection or a null handle, and null
  arguments are tolerated where the code does. The functions whose name ends in \<^verbatim>\<open>_sync\<close> are the call
  without it followed by \<^verbatim>\<open>mir_wait_for\<close>.
\<close>

section \<open>State\<close>

datatype connection_ptr =
    Error_connection
  | Connection nat

record library =
  connections :: "(nat, client) omap"
  valid_connections :: "nat set"
  error_connection :: client
  next_connection :: nat
  channels_made :: nat
  error_callbacks :: "nat list"

text \<open>\<^verbatim>\<open>make_rpc_channel\<close> connects to the socket and may throw.\<close>

record library_env =
  le_client :: client_env
  le_make_rpc_channel :: "nat \<Rightarrow> string \<Rightarrow> unit res"
  le_what :: "exn \<Rightarrow> string"

definition new_library :: library where
  "new_library = \<lparr>connections = [], valid_connections = {}, error_connection = default_client, next_connection = 0,
     channels_made = 0, error_callbacks = []\<rparr>"

definition on_connection :: "nat \<Rightarrow> (client, 'a) proc \<Rightarrow> (library, 'a) proc" where
  "on_connection i m s =
     (case map_of (connections s) i of
        None \<Rightarrow> (Undefined ''use after free'', s)
      | Some c \<Rightarrow> (case m c of (r, c') \<Rightarrow> (r, s\<lparr>connections := omap_set i c' (connections s)\<rparr>)))"

definition on_pointer :: "connection_ptr \<Rightarrow> (client, 'a) proc \<Rightarrow> (library, 'a) proc" where
  "on_pointer c m =
     (case c of
        Error_connection \<Rightarrow> zoom error_connection (\<lambda>x s. s\<lparr>error_connection := x\<rparr>) m
      | Connection i \<Rightarrow> on_connection i m)"

text \<open>A request goes through the stub of the connection; the error connection has a null channel.\<close>

definition on_stub :: "connection_ptr \<Rightarrow> (client, 'a) proc \<Rightarrow> (library, 'a) proc" where
  "on_stub c m =
     (case c of Error_connection \<Rightarrow> undef ''null channel'' | Connection i \<Rightarrow> on_connection i m)"

section \<open>Connections\<close>

definition make_rpc_channel :: "library_env \<Rightarrow> string \<Rightarrow> (library, unit) proc" where
  "make_rpc_channel env socket_file s =
     (le_make_rpc_channel env (channels_made s) socket_file, s\<lparr>channels_made := Suc (channels_made s)\<rparr>)"

definition make_connection :: "(library, nat) proc" where
  "make_connection =
     sbind (gets next_connection) (\<lambda>i.
     seq (modify (\<lambda>s. s\<lparr>connections := omap_set i new_client (connections s), next_connection := Suc i,
            valid_connections := insert i (valid_connections s)\<rparr>))
      (ret i))"

text \<open>The handler of both functions that connect: a null handle, and the callback runs at once.\<close>

definition connect_failed :: "library_env \<Rightarrow> nat \<Rightarrow> exn \<Rightarrow> (library, (nat \<times> handle_ref) option) proc" where
  "connect_failed env cb e =
     seq (modify (\<lambda>s. s\<lparr>error_connection := (error_connection s)\<lparr>error_message := le_what env e\<rparr>,
            error_callbacks := error_callbacks s @ [cb]\<rparr>))
      (ret None)"

definition mir_connect :: "library_env \<Rightarrow> string \<Rightarrow> string \<Rightarrow> nat \<Rightarrow> (library, (nat \<times> handle_ref) option) proc" where
  "mir_connect env socket_file name cb =
     try_catch
       (seq (make_rpc_channel env socket_file)
        (sbind make_connection (\<lambda>i.
         sbind (on_connection i (client_connect (le_client env) None name cb)) (\<lambda>h. ret (Some (i, h))))))
       (connect_failed env cb)"

definition mir_connect_with_lightdm_id ::
  "library_env \<Rightarrow> string \<Rightarrow> int \<Rightarrow> string \<Rightarrow> nat \<Rightarrow> (library, (nat \<times> handle_ref) option) proc" where
  "mir_connect_with_lightdm_id env server lightdm app_name cb =
     try_catch
       (seq (make_rpc_channel env server)
        (sbind make_connection (\<lambda>i.
         sbind (on_connection i (client_connect (le_client env) (Some lightdm) app_name cb)) (\<lambda>h. ret (Some (i, h))))))
       (connect_failed env cb)"

text \<open>A pointer that is not in the set is not followed.\<close>

definition mir_connection_is_valid :: "connection_ptr \<Rightarrow> (library, bool) proc" where
  "mir_connection_is_valid c =
     (case c of
        Error_connection \<Rightarrow> ret False
      | Connection i \<Rightarrow>
          sbind (gets (\<lambda>s. i \<in> valid_connections s)) (\<lambda>known.
            if known then on_connection i (gets (\<lambda>x. pb_connection_error (connect_result x) = None)) else ret False))"

definition mir_connection_get_error_message :: "connection_ptr \<Rightarrow> (library, string) proc" where
  "mir_connection_get_error_message c = on_pointer c (gets get_error_message)"

text \<open>Releasing waits for the answer of the server in between.\<close>

definition connection_release_begin :: "library_env \<Rightarrow> connection_ptr \<Rightarrow> (library, unit) proc" where
  "connection_release_begin env c =
     (case c of Error_connection \<Rightarrow> ret () | Connection i \<Rightarrow> on_connection i (forget (client_disconnect (le_client env))))"

definition delete_connection :: "nat \<Rightarrow> (library, unit) proc" where
  "delete_connection i =
     modify (\<lambda>s. s\<lparr>connections := omap_erase i (connections s), valid_connections := valid_connections s - {i}\<rparr>)"

definition connection_release_end :: "connection_ptr \<Rightarrow> (library, unit) proc" where
  "connection_release_end c =
     (case c of
        Error_connection \<Rightarrow> ret ()
      | Connection i \<Rightarrow> seq (on_connection i (on_handle Disconnect_handle wait_for_result)) (delete_connection i))"

definition mir_connection_get_display_info :: "connection_ptr \<Rightarrow> (library, mir_display_info) proc" where
  "mir_connection_get_display_info c = on_pointer c (gets populate_display_info)"

definition mir_connection_get_platform :: "connection_ptr \<Rightarrow> (library, platform_package) proc" where
  "mir_connection_get_platform c = on_pointer c (\<lambda>x. (populate_platform x, x))"

definition mir_connection_drm_auth_magic :: "library_env \<Rightarrow> connection_ptr \<Rightarrow> u32 \<Rightarrow> nat \<Rightarrow> (library, handle_ref) proc" where
  "mir_connection_drm_auth_magic env c magic cb = on_stub c (client_drm_auth_magic (le_client env) magic cb)"

definition mir_select_focus_by_lightdm_id :: "library_env \<Rightarrow> connection_ptr \<Rightarrow> int \<Rightarrow> (library, unit) proc" where
  "mir_select_focus_by_lightdm_id env c i =
     try_catch (on_stub c (client_select_focus (le_client env) i)) (\<lambda>_. ret ())"

definition mir_wait_for :: "(nat \<times> handle_ref) option \<Rightarrow> (library, unit) proc" where
  "mir_wait_for h = (case h of None \<Rightarrow> ret () | Some (i, r) \<Rightarrow> on_connection i (on_handle r wait_for_result))"

section \<open>Surfaces\<close>

text \<open>A surface is named by its connection and its place in it.\<close>

type_synonym surface_ptr = "nat \<times> nat"

definition mir_surface_create ::
  "library_env \<Rightarrow> connection_ptr \<Rightarrow> mir_surface_parameters \<Rightarrow> nat \<Rightarrow> (library, (nat \<times> handle_ref) option) proc" where
  "mir_surface_create env c params cb =
     (case c of
        Error_connection \<Rightarrow> ret None
      | Connection i \<Rightarrow>
          try_catch (sbind (on_connection i (client_create_surface (le_client env) params cb)) (\<lambda>h. ret (Some (i, h))))
            (\<lambda>_. ret None))"

definition mir_surface_release :: "library_env \<Rightarrow> surface_ptr \<Rightarrow> nat \<Rightarrow> (library, (nat \<times> handle_ref) option) proc" where
  "mir_surface_release env sf cb =
     sbind (on_connection (fst sf) (client_release_surface (le_client env) (snd sf) cb)) (\<lambda>h. ret (Some (fst sf, h)))"

definition mir_surface_next_buffer :: "library_env \<Rightarrow> surface_ptr \<Rightarrow> nat \<Rightarrow> (library, (nat \<times> handle_ref) option) proc" where
  "mir_surface_next_buffer env sf cb =
     sbind (on_connection (fst sf) (client_next_buffer (le_client env) (snd sf) cb)) (\<lambda>h. ret (Some (fst sf, h)))"

definition surface_query :: "surface_ptr \<Rightarrow> (client_surface \<Rightarrow> 'a) \<Rightarrow> (library, 'a) proc" where
  "surface_query sf f = on_connection (fst sf) (Client.on_surface (snd sf) (gets f))"

definition mir_debug_surface_id :: "surface_ptr \<Rightarrow> (library, int) proc" where
  "mir_debug_surface_id sf = surface_query sf surface_id"

definition mir_surface_is_valid :: "surface_ptr \<Rightarrow> (library, bool) proc" where
  "mir_surface_is_valid sf = surface_query sf surface_is_valid"

definition mir_surface_get_error_message :: "surface_ptr \<Rightarrow> (library, string) proc" where
  "mir_surface_get_error_message sf = surface_query sf surface_error_message"

definition mir_surface_get_parameters :: "surface_ptr \<Rightarrow> (library, mir_surface_parameters) proc" where
  "mir_surface_get_parameters sf = surface_query sf get_parameters"

text \<open>Everything but the age is copied into the caller's structure.\<close>

definition mir_surface_get_current_buffer :: "surface_ptr \<Rightarrow> buffer_package \<Rightarrow> (library, buffer_package) proc" where
  "mir_surface_get_current_buffer sf out =
     sbind (on_connection (fst sf) (get_current_buffer_package (snd sf))) (\<lambda>package.
       ret (out\<lparr>pkg_data_items := pkg_data_items package, pkg_fd_items := pkg_fd_items package,
         pkg_data := take mir_buffer_package_max (pkg_data package), pkg_fd := take mir_buffer_package_max (pkg_fd package),
         pkg_stride := pkg_stride package\<rparr>))"

definition mir_surface_get_graphics_region :: "library_env \<Rightarrow> surface_ptr \<Rightarrow> (library, graphics_region) proc" where
  "mir_surface_get_graphics_region env sf = on_connection (fst sf) (get_cpu_region (ce_drm (le_client env)) (snd sf))"

definition mir_surface_set_type ::
  "library_env \<Rightarrow> surface_ptr option \<Rightarrow> int \<Rightarrow> (library, (nat \<times> handle_ref) option) proc" where
  "mir_surface_set_type env sf t =
     (case sf of
        None \<Rightarrow> ret None
      | Some (i, p) \<Rightarrow>
          sbind (on_connection i (client_configure (le_client env) p mir_surface_attrib_type t)) (\<lambda>h. ret (Some (i, h))))"

definition mir_surface_get_type :: "surface_ptr option \<Rightarrow> (library, int) proc" where
  "mir_surface_get_type sf =
     (case sf of
        None \<Rightarrow> ret mir_surface_type_normal
      | Some (i, p) \<Rightarrow>
          on_connection i (Client.on_surface p (\<lambda>x. (surface_attrib mir_surface_attrib_type x, x))))"

section \<open>Facts\<close>

text \<open>The set of valid connections is the set of connections that exist.\<close>

definition library_ok :: "library \<Rightarrow> bool" where
  "library_ok s \<longleftrightarrow> valid_connections s = dom (map_of (connections s)) \<and> (\<forall>i \<in> valid_connections s. i < next_connection s)"

lemma library_ok_new: "library_ok new_library"
  by (simp add: library_ok_def new_library_def)

lemma library_ok_steps [keeps]:
  "preserves library_ok (on_connection i m)" "preserves library_ok (make_rpc_channel env f)"
  "preserves library_ok make_connection" "preserves library_ok (connect_failed env cb e)"
  "preserves library_ok (delete_connection i)"
  by (auto simp: preserves_def library_ok_def on_connection_def make_rpc_channel_def make_connection_def
      connect_failed_def delete_connection_def proc_simps less_SucI split: option.splits prod.splits if_splits)

lemma library_ok_calls:
  "preserves library_ok (mir_connect env f name cb)" "preserves library_ok (mir_connect_with_lightdm_id env f n name cb)"
  "preserves library_ok (connection_release_end c)"
  unfolding mir_connect_def mir_connect_with_lightdm_id_def connection_release_end_def
  by (cases c; auto intro!: keeps)+

text \<open>Whether a pointer is valid can be asked for every pointer, also a stale one; a connection is
  not valid before the server has answered.\<close>

lemma is_valid_total:
  assumes "library_ok s"
  shows "\<exists>b t. mir_connection_is_valid c s = (Returns b, t)"
proof (cases c)
  case (Connection i)
  then show ?thesis
    using assms by (auto simp: mir_connection_is_valid_def library_ok_def on_connection_def proc_simps)
qed (auto simp: mir_connection_is_valid_def proc_simps)

end
