(* ===== verification/Spec2Isabelle.thy ===== *)
theory Spec2Isabelle
  imports Compositor_Threads Lost_Clients Client_Server Client_Library
begin

text \<open>
  A verification development of the eMir display server: the server's buffers, surfaces, compositor,
  sessions and frontend, and the client library at the other end of the socket.

  \<^bold>\<open>The program.\<close> A client draws into a buffer of a surface and posts it; the compositor shows the
  posted buffers. The buffers of a surface go round through a swapper (\<^verbatim>\<open>src/src/server/compositor\<close>).
  The surfaces are on a stack (\<^verbatim>\<open>surfaces\<close>) that the threads of the compositor render. Sessions of
  clients own surfaces and one session has the focus (\<^verbatim>\<open>shell\<close>). A client reaches its session
  through a socket (\<^verbatim>\<open>frontend\<close>), with the messages of \<^verbatim>\<open>src/src/shared/protobuf\<close>; the other end is the
  client library (\<^verbatim>\<open>src/src/client\<close>).

  \<^bold>\<open>How code is modelled.\<close> A call is a function from a state to an outcome and a new state
  (\<open>Mir_Prelude\<close>): it returns, throws, waits on a condition variable or a mutex, or its behaviour is
  undefined. State changes made before an exception stay. Classes are records, shared and weak
  pointers are names of objects in a store, \<^verbatim>\<open>std::map\<close> is a sorted association list (\<open>Std_Map\<close>), unsigned
  integers are words. Threads are interleavings of calls that hold a mutex, as step relations or as runs
  of events. Code outside the repository is an argument: the allocator and libgbm, the kernel's DRM
  calls, the generated serialisation, sockets, and what the application does in a callback.

  \<^bold>\<open>Theories, in the order they build on each other.\<close>
  \<^item> \<open>Mir_Prelude\<close>, \<open>Std_Map\<close>: calls and the rules that carry assertions through them; ordered
    maps and the locale \<open>keyed_store\<close>, the contract of the caches.
  \<^item> \<open>Geometry\<close>, \<open>Buffers\<close>, \<open>Creation_Parameters\<close>: the value types. Ids of buffers are valid and
    distinct until the 32-bit counter has gone round.
  \<^item> \<open>Buffer_Swapper\<close> (\<^verbatim>\<open>buffer_swapper_multi.cpp\<close>): every buffer has one owner; the swapper refines an
    abstract transfer of ownership; the compositor always finds a buffer; no wake-up is lost; the
    last frame is shown again; \<^verbatim>\<open>shutdown\<close> unblocks clients but is undefined when all buffers are held.
  \<^item> \<open>Buffer_Bundle\<close>, \<open>Gbm_Buffers\<close>: temporary buffers give back what they took (locale \<open>buffer_pool\<close>);
    bundles start the protocol, with the GBM allocator too; pixel formats go to GBM and back.
  \<^item> \<open>Surface_Stack\<close>, \<open>Compositing\<close>, \<open>Compositor_Threads\<close>: effects of creating, destroying and
    advancing surfaces; a frame locks the visible surfaces in order, never waits, and is cut short
    only by an exception of binding a texture; on every path it returns its buffers; destroying a
    surface during a frame can make its destructor read an empty queue; scheduled work is done;
    stopping ends the threads.
  \<^item> \<open>Shell_Surface\<close>, \<open>Focus_Sequence\<close>, \<open>Session_Manager\<close>, \<open>Session_Effects\<close>, \<open>Session_Invariants\<close>: sessions,
    placement and focus. Session objects and surfaces have exactly the owners they should; only the
    session with the focus is visible; closing and releasing frees.
  \<^item> \<open>Messages\<close>, \<open>Session_Mediator\<close>, \<open>Message_Processor\<close>, \<open>Server\<close>, \<open>Frontend_Invariants\<close>: framing reads back what
    was sent below 64 KiB; each invocation has one reply of the declared type with its descriptors;
    whatever bytes clients send, sessions and connections correspond.
  \<^item> \<open>Lost_Clients\<close>: the server as a process, which an exception that leaves a handler ends. A client lost
    between two messages leaves a registered session that nobody can close; one lost inside a
    message ends the server.
  \<^item> \<open>Wait_Handle\<close>, \<open>Client_Buffers\<close>, \<open>Rpc_Channel\<close>, \<open>Client\<close>, \<open>Client_Invariants\<close>, \<open>Client_Replies\<close>,
    \<open>Client_Library\<close>: waiting for results; the buffer depository equals a reference computed from the
    history of deposits; replies reach the message of their call (locale \<open>reply_store\<close>); a request from
    inside a callback waits for ever.
  \<^item> \<open>Client_Server\<close>: both ends together; what the server answers to a call in progress has the type
    that the client is going to parse it into.

  \<^bold>\<open>Bounds.\<close> No definition uses fuel: loops are structural recursion over the containers of the code,
  reading frames ends because each one consumes its header. Counters are kept at the width of the code
  where they wrap around; where a signed \<^verbatim>\<open>int\<close> would overflow the outcome is undefined. Properties
  about calls that may wait say so in their hypotheses or conclude it.

  \<^bold>\<open>Simplifications.\<close> Calls to reports only log and are left out; the client's log keeps errors. The
  locks inside single calls of the shell are left out, each call is one step; so is composing a frame,
  while posting it interleaves with the clients. Reachability of the server covers the states after an exception
  has left a handler as well; only \<open>Lost_Clients\<close> says that the process has ended there. Descriptors
  arrive in a queue of their own, not attached to bytes of the stream. A call that serialises a
  message does not fail, and one that parses goes on with what it got, as the code does.

  \<^bold>\<open>Not modelled.\<close>
  \<^item> The display side of the GBM platform (\<^verbatim>\<open>graphics/gbm\<close> but for buffers), \<^verbatim>\<open>gl_renderer.cpp\<close> and the EGL
    objects of the client: calls to libdrm, EGL and OpenGL, whose effect is outside the program.
  \<^item> The Android platform on both sides, which is an alternative to GBM with the same interfaces.
  \<^item> Input: wrappers around the imported Android input stack under \<^verbatim>\<open>3rd_party\<close>.
  \<^item> Reports and logging, options, signals, and the wiring of the server at its start.
  \<^item> The \<^verbatim>\<open>_sync\<close> functions of the client library: a call followed by \<^verbatim>\<open>mir_wait_for\<close>, both modelled.
\<close>

end
